(* ===== verification/Rust_Prelude.thy ===== *)
theory Rust_Prelude
  imports Main "HOL-Library.Word" "HOL-Library.List_Lexorder" "HOL-Library.Sublist"
begin

text \<open>
  What every component of the development shares: text as the code points of a Rust
  \<open>str\<close>, the string operations of the standard library the program calls, fallible
  state-passing computations (\<open>Result\<close> with the \<open>?\<close> operator), and the lemma
  collections the component proofs use.
\<close>

named_theorems op_simps \<open>unfolding the state-passing combinators\<close>

section \<open>Text and bytes\<close>

type_synonym rchar = nat
type_synonym rstr = "rchar list"
type_synonym byte = "8 word"
type_synonym bytes = "byte list"
type_synonym u32 = "32 word"
type_synonym u64 = "64 word"

text \<open>A literal of the source, as code points.\<close>

definition lit :: "string \<Rightarrow> rstr" where
  "lit s = map of_char s"

text \<open>A \<open>str\<close>'s \<open>len\<close> counts the bytes of its UTF-8 encoding.\<close>

definition utf8_len :: "rchar \<Rightarrow> nat" where
  "utf8_len c = (if c < 0x80 then 1 else if c < 0x800 then 2 else if c < 0x10000 then 3 else 4)"

definition str_len :: "rstr \<Rightarrow> nat" where
  "str_len s = sum_list (map utf8_len s)"

text \<open>\<open>char::is_whitespace\<close> (Unicode \<open>White_Space\<close>) and \<open>char::is_control\<close> (category Cc).\<close>

definition is_whitespace :: "rchar \<Rightarrow> bool" where
  "is_whitespace c \<longleftrightarrow>
     (9 \<le> c \<and> c \<le> 13) \<or> c = 32 \<or> c = 0x85 \<or> c = 0xA0 \<or> c = 0x1680
     \<or> (0x2000 \<le> c \<and> c \<le> 0x200A) \<or> c = 0x2028 \<or> c = 0x2029 \<or> c = 0x202F
     \<or> c = 0x205F \<or> c = 0x3000"

definition is_control :: "rchar \<Rightarrow> bool" where
  "is_control c \<longleftrightarrow> c \<le> 0x1F \<or> (0x7F \<le> c \<and> c \<le> 0x9F)"

definition trim_start_by :: "(rchar \<Rightarrow> bool) \<Rightarrow> rstr \<Rightarrow> rstr" where
  "trim_start_by p s = dropWhile p s"

definition trim_end_by :: "(rchar \<Rightarrow> bool) \<Rightarrow> rstr \<Rightarrow> rstr" where
  "trim_end_by p s = rev (dropWhile p (rev s))"

definition trim :: "rstr \<Rightarrow> rstr" where
  "trim s = trim_end_by is_whitespace (trim_start_by is_whitespace s)"

definition strip_suffix :: "rstr \<Rightarrow> rstr \<Rightarrow> rstr option" where
  "strip_suffix suf s =
     (if suffix suf s then Some (take (length s - length suf) s) else None)"

text \<open>What comes before the first \<open>c\<close>, or all of it (\<open>split_once\<close> and its default).\<close>

definition before_first :: "rchar \<Rightarrow> rstr \<Rightarrow> rstr" where
  "before_first c s = takeWhile (\<lambda>d. d \<noteq> c) s"

text \<open>A number as decimal digits (\<open>{}\<close> of an unsigned integer).\<close>

fun dec :: "nat \<Rightarrow> rstr" where
  "dec n = (if n < 10 then [48 + n] else dec (n div 10) @ [48 + n mod 10])"

declare dec.simps [simp del]

lemma lit_Nil [simp]: "lit [] = []"
  by (simp add: lit_def)

lemma strip_suffix_append [simp]: "strip_suffix suf (s @ suf) = Some s"
  by (simp add: strip_suffix_def suffix_def)

lemma strip_suffix_SomeD: "strip_suffix suf s = Some r \<Longrightarrow> s = r @ suf"
  by (auto simp: strip_suffix_def suffix_def split: if_splits)

lemma strip_suffix_None: "strip_suffix suf s = None \<longleftrightarrow> \<not> suffix suf s"
  by (simp add: strip_suffix_def)

lemma utf8_len_pos: "0 < utf8_len c"
  by (simp add: utf8_len_def)

lemma length_le_str_len: "length s \<le> str_len s"
proof (induction s)
  case Nil
  then show ?case by (simp add: str_len_def)
next
  case (Cons c s)
  then show ?case using utf8_len_pos [of c] by (simp add: str_len_def)
qed

lemma set_trim_end_by: "set (trim_end_by p s) \<subseteq> set s"
  by (auto simp: trim_end_by_def dest: set_dropWhileD)

lemma trim_end_by_last: "trim_end_by p s \<noteq> [] \<Longrightarrow> \<not> p (last (trim_end_by p s))"
  using hd_dropWhile [of p "rev s"] by (simp add: trim_end_by_def last_rev)

lemma trim_end_by_prefix: "prefix (trim_end_by p s) s"
proof -
  have "s = rev (dropWhile p (rev s)) @ rev (takeWhile p (rev s))"
    by (metis rev_append rev_rev_ident takeWhile_dropWhile_id)
  then show ?thesis by (metis trim_end_by_def prefixI)
qed

lemma trim_end_by_id: "s = [] \<or> \<not> p (last s) \<Longrightarrow> trim_end_by p s = s"
  by (cases s rule: rev_cases) (auto simp: trim_end_by_def)

lemma trim_last: "trim s \<noteq> [] \<Longrightarrow> \<not> is_whitespace (last (trim s))"
  by (simp add: trim_def trim_end_by_last)

lemma trim_hd: "trim s \<noteq> [] \<Longrightarrow> \<not> is_whitespace (hd (trim s))"
proof -
  assume a: "trim s \<noteq> []"
  let ?t = "dropWhile is_whitespace s"
  have p: "prefix (trim s) ?t"
    by (simp add: trim_def trim_start_by_def trim_end_by_prefix)
  then have h: "hd (trim s) = hd ?t"
    using a by (auto simp: prefix_def)
  from p a have "?t \<noteq> []" by (metis prefix_Nil)
  with h show ?thesis using hd_dropWhile [of is_whitespace s] by simp
qed

lemma trim_id: "s = [] \<or> (\<not> is_whitespace (hd s) \<and> \<not> is_whitespace (last s)) \<Longrightarrow> trim s = s"
proof -
  assume a: "s = [] \<or> (\<not> is_whitespace (hd s) \<and> \<not> is_whitespace (last s))"
  then have "dropWhile is_whitespace s = s" by (cases s) auto
  with a show ?thesis by (auto simp: trim_def trim_start_by_def trim_end_by_id)
qed

lemma trim_trim [simp]: "trim (trim s) = trim s"
  using trim_hd trim_last by (intro trim_id) auto

lemma find_SomeD: "find P xs = Some x \<Longrightarrow> x \<in> set xs \<and> P x"
  by (auto simp: find_Some_iff)

text \<open>\<open>Vec::dedup\<close> of a sorted vector leaves no two equal elements.\<close>

lemma distinct_dedup: "sorted xs \<Longrightarrow> distinct (remdups_adj xs)"
  by (induction xs rule: remdups_adj.induct) auto

section \<open>Fallible computations\<close>

text \<open>
  \<open>Result<T, E>\<close> is the sum \<open>'e + 't\<close>, with \<open>Inl\<close> the error. A method that takes
  \<open>&mut self\<close>, or that touches the disk or the store, takes the state and returns the
  result with the new state; \<open>and_then\<close> is the \<open>?\<close> operator: the first error is the
  result, and the state is what it was when the error arose.
\<close>

type_synonym ('s, 'e, 'r) op = "'s \<Rightarrow> ('e + 'r) \<times> 's"

definition ok :: "'r \<Rightarrow> ('s, 'e, 'r) op" where
  "ok r = (\<lambda>s. (Inr r, s))"

definition fail :: "'e \<Rightarrow> ('s, 'e, 'r) op" where
  "fail e = (\<lambda>s. (Inl e, s))"

definition and_then :: "('s, 'e, 'a) op \<Rightarrow> ('a \<Rightarrow> ('s, 'e, 'b) op) \<Rightarrow> ('s, 'e, 'b) op" where
  "and_then m k = (\<lambda>s. case m s of (Inl e, s') \<Rightarrow> (Inl e, s') | (Inr r, s') \<Rightarrow> k r s')"

definition of_read :: "('s \<Rightarrow> 'e + 'r) \<Rightarrow> ('s, 'e, 'r) op" where
  "of_read f = (\<lambda>s. (f s, s))"

definition map_err :: "('e \<Rightarrow> 'f) \<Rightarrow> 'e + 'r \<Rightarrow> 'f + 'r" where
  "map_err f r = (case r of Inl e \<Rightarrow> Inl (f e) | Inr x \<Rightarrow> Inr x)"

definition map_err_op :: "('e \<Rightarrow> 'f) \<Rightarrow> ('s, 'e, 'r) op \<Rightarrow> ('s, 'f, 'r) op" where
  "map_err_op f m = (\<lambda>s. case m s of (r, s') \<Rightarrow> (map_err f r, s'))"

text \<open>\<open>let _ = m\<close>: the effect is kept and the outcome dropped.\<close>

definition ignoring :: "('s, 'e, 'a) op \<Rightarrow> ('s, 'f, unit) op" where
  "ignoring m = (\<lambda>s. (Inr (), snd (m s)))"

text \<open>A value with a \<open>Drop\<close> in scope: \<open>d\<close> runs on every way out of \<open>m\<close>.\<close>

definition with_drop :: "('s \<Rightarrow> 's) \<Rightarrow> ('s, 'e, 'r) op \<Rightarrow> ('s, 'e, 'r) op" where
  "with_drop d m = (\<lambda>s. case m s of (r, s') \<Rightarrow> (r, d s'))"

definition bind_res :: "'e + 'a \<Rightarrow> ('a \<Rightarrow> 'e + 'b) \<Rightarrow> 'e + 'b" where
  "bind_res r k = (case r of Inl e \<Rightarrow> Inl e | Inr x \<Rightarrow> k x)"

declare ok_def [op_simps] fail_def [op_simps] of_read_def [op_simps]

lemma and_then_ok [op_simps]: "m s = (Inr r, s') \<Longrightarrow> and_then m k s = k r s'"
  by (simp add: and_then_def)

lemma and_then_fail [op_simps]: "m s = (Inl e, s') \<Longrightarrow> and_then m k s = (Inl e, s')"
  by (simp add: and_then_def)

lemma and_then_Inr:
  "and_then m k s = (Inr r, s') \<longleftrightarrow> (\<exists>x s1. m s = (Inr x, s1) \<and> k x s1 = (Inr r, s'))"
  by (auto simp: and_then_def split: prod.splits sum.splits)

lemma and_then_Inl:
  "and_then m k s = (Inl e, s') \<longleftrightarrow>
     m s = (Inl e, s') \<or> (\<exists>x s1. m s = (Inr x, s1) \<and> k x s1 = (Inl e, s'))"
  by (auto simp: and_then_def split: prod.splits sum.splits)

lemma with_drop_eq:
  "with_drop d m s = (r, s') \<longleftrightarrow> (\<exists>s1. m s = (r, s1) \<and> s' = d s1)"
  by (auto simp: with_drop_def split: prod.splits)

lemma map_err_simps [simp]:
  "map_err f (Inl e) = Inl (f e)" "map_err f (Inr x) = Inr x"
  by (simp_all add: map_err_def)

lemma map_err_Inr [simp]: "map_err f r = Inr x \<longleftrightarrow> r = Inr x"
  by (cases r) auto

lemma map_err_Inl: "map_err f r = Inl e \<longleftrightarrow> (\<exists>e0. r = Inl e0 \<and> e = f e0)"
  by (cases r) auto

lemma map_err_op_Inl: "map_err_op f m s = (Inl e, s') \<longleftrightarrow> (\<exists>e0. m s = (Inl e0, s') \<and> e = f e0)"
  by (auto simp: map_err_op_def map_err_Inl split: prod.splits)

lemma map_err_op_Inr [simp]: "map_err_op f m s = (Inr r, s') \<longleftrightarrow> m s = (Inr r, s')"
  by (auto simp: map_err_op_def split: prod.splits)

lemma and_then_assoc: "and_then (and_then m k) l = and_then m (\<lambda>x. and_then (k x) l)"
  by (rule ext) (simp add: and_then_def split: prod.split sum.split)

lemma map_err_op_and_then:
  "map_err_op f (and_then m k) = and_then (map_err_op f m) (\<lambda>x. map_err_op f (k x))"
  by (rule ext) (simp add: map_err_op_def and_then_def split: prod.split sum.split)

lemma bind_res_simps [simp]:
  "bind_res (Inl e) k = Inl e" "bind_res (Inr x) k = k x"
  by (simp_all add: bind_res_def)

lemma bind_res_Inr: "bind_res r k = Inr y \<longleftrightarrow> (\<exists>x. r = Inr x \<and> k x = Inr y)"
  by (cases r) auto

section \<open>Preservation of a relation between states\<close>

text \<open>
  \<open>keeps R m\<close>: whatever \<open>m\<close> answers, the state it leaves is related by \<open>R\<close> to the
  one it found. The combinators keep any reflexive and transitive relation their parts
  keep, so a frame property of an operation is one look at each of its system calls.
\<close>

definition keeps :: "('s \<Rightarrow> 's \<Rightarrow> bool) \<Rightarrow> ('s, 'e, 'r) op \<Rightarrow> bool" where
  "keeps R m \<longleftrightarrow> (\<forall>s. R s (snd (m s)))"

named_theorems keeps_intros \<open>preservation rules of the combinators and the system calls\<close>

lemma keepsD: "keeps R m \<Longrightarrow> m s = (r, s') \<Longrightarrow> R s s'"
  by (metis keeps_def snd_conv)

lemma keeps_ok [keeps_intros]: "reflp R \<Longrightarrow> keeps R (ok r)"
  by (simp add: keeps_def ok_def reflpD)

lemma keeps_fail [keeps_intros]: "reflp R \<Longrightarrow> keeps R (fail e)"
  by (simp add: keeps_def fail_def reflpD)

lemma keeps_of_read [keeps_intros]: "reflp R \<Longrightarrow> keeps R (of_read f)"
  by (simp add: keeps_def of_read_def reflpD)

lemma keeps_and_then [keeps_intros]:
  assumes "transp R" and "keeps R m" and "\<And>r. keeps R (k r)"
  shows "keeps R (and_then m k)"
  unfolding keeps_def
proof
  fix s
  show "R s (snd (and_then m k s))"
  proof (cases "m s")
    case (Pair res s1)
    then have "R s s1" using assms(2) by (rule keepsD [rotated])
    moreover have "R s1 (snd (k r s1))" for r using assms(3) by (simp add: keeps_def)
    ultimately show ?thesis
      using Pair transpD [OF assms(1)] by (cases res) (auto simp: and_then_def)
  qed
qed

lemma keeps_map_err_op [keeps_intros]: "keeps R m \<Longrightarrow> keeps R (map_err_op f m)"
  by (auto simp: keeps_def map_err_op_def split: prod.splits) (metis snd_conv)

lemma keeps_ignoring [keeps_intros]: "keeps R m \<Longrightarrow> keeps R (ignoring m)"
  by (simp add: keeps_def ignoring_def)

lemma keeps_with_drop [keeps_intros]:
  assumes "transp R" and "keeps R m" and "\<And>s. R s (d s)"
  shows "keeps R (with_drop d m)"
  using assms unfolding keeps_def with_drop_def
  by (auto split: prod.splits) (metis snd_conv transpD)

lemma keeps_if [keeps_intros]: "keeps R m \<Longrightarrow> keeps R n \<Longrightarrow> keeps R (if b then m else n)"
  by simp

text \<open>
  \<open>fails_within R m\<close>: when \<open>m\<close> answers an error, the state it leaves is related by \<open>R\<close>
  to the one it found. This is what an operation promises whose effect comes last.
\<close>

definition fails_within :: "('s \<Rightarrow> 's \<Rightarrow> bool) \<Rightarrow> ('s, 'e, 'r) op \<Rightarrow> bool" where
  "fails_within R m \<longleftrightarrow> (\<forall>s e s'. m s = (Inl e, s') \<longrightarrow> R s s')"

lemma fails_withinD: "fails_within R m \<Longrightarrow> m s = (Inl e, s') \<Longrightarrow> R s s'"
  by (simp add: fails_within_def)

lemma fails_within_and_then:
  assumes "transp R" and "keeps R m" and "\<And>r. fails_within R (k r)"
  shows "fails_within R (and_then m k)"
  using assms(3) keepsD [OF assms(2)] transpD [OF assms(1)]
  by (fastforce simp: fails_within_def and_then_Inl)

lemma fails_within_last:
  assumes "fails_within R m" and "\<And>r s e s'. k r s \<noteq> (Inl e, s')"
  shows "fails_within R (and_then m k)"
  using assms by (auto simp: fails_within_def and_then_Inl)

lemma fails_within_map_err_op: "fails_within R m \<Longrightarrow> fails_within R (map_err_op f m)"
  by (auto simp: fails_within_def map_err_op_def map_err_Inl split: prod.splits)

lemma ignoring_not_Inl [simp]: "ignoring m s \<noteq> (Inl e, s')"
  by (simp add: ignoring_def)

end
