(* ===== verification/Crates.thy ===== *)
theory Crates
  imports Rust_Prelude
begin

text \<open>
  The crates the program is built on and whose source is not in the repository:
  \<open>account_log\<close>, \<open>account\<close>, \<open>hex\<close>. Each is a record of functions that the model's
  definitions take as an argument, so nothing about them is built in. What the program
  relies on is stated as predicates over these records, each with the place in the
  sources that documents it; the theorems that need one name it as a hypothesis.

  Three of the crates' types are represented by what they are read through: an
  \<open>AccountAddr\<close> by its \<open>to_string\<close>, an \<open>Ed25519SigningKey\<close> by its \<open>as_bytes\<close> (the 32
  bytes \<open>from_bytes\<close> takes), an \<open>Ed25519VerifyingKey\<close> by its \<open>to_bytes\<close>.
\<close>

section \<open>Addresses and keys\<close>

datatype AccountAddr = AccountAddr (to_string: rstr)

instantiation AccountAddr :: linorder
begin

definition less_eq_AccountAddr :: "AccountAddr \<Rightarrow> AccountAddr \<Rightarrow> bool" where
  "less_eq_AccountAddr a b \<longleftrightarrow> to_string a \<le> to_string b"

definition less_AccountAddr :: "AccountAddr \<Rightarrow> AccountAddr \<Rightarrow> bool" where
  "less_AccountAddr a b \<longleftrightarrow> to_string a < to_string b"

instance
proof
  fix x y z :: AccountAddr
  show "(x < y) = (x \<le> y \<and> \<not> y \<le> x)"
    by (auto simp: less_eq_AccountAddr_def less_AccountAddr_def)
  show "x \<le> x" by (simp add: less_eq_AccountAddr_def)
  show "x \<le> y \<Longrightarrow> y \<le> z \<Longrightarrow> x \<le> z" by (simp add: less_eq_AccountAddr_def)
  show "x \<le> y \<Longrightarrow> y \<le> x \<Longrightarrow> x = y"
    by (simp add: less_eq_AccountAddr_def AccountAddr.expand)
  show "x \<le> y \<or> y \<le> x" by (auto simp: less_eq_AccountAddr_def)
qed

end

type_synonym SigningKey = bytes
type_synonym VerifyingKey = bytes

record keys =
  addr_of :: "SigningKey \<Rightarrow> AccountAddr"           \<comment> \<open>\<open>AccountAddr::from(&key.verifying_key())\<close>\<close>
  addr_parse :: "rstr \<Rightarrow> AccountAddr option"       \<comment> \<open>\<open>FromStr for AccountAddr\<close>\<close>
  vk_canonical :: "bytes \<Rightarrow> bool"                  \<comment> \<open>\<open>from_canonical_bytes\<close> accepts\<close>
  generate :: "nat \<Rightarrow> SigningKey \<times> nat"            \<comment> \<open>\<open>Ed25519SigningKey::generate\<close>, from and to an entropy state\<close>

text \<open>
  An address is written as "64 lowercase hex characters, unprefixed" (the message of
  \<open>CoreError::Address\<close>), one spelling per address, and a key's address parses back.
\<close>

definition hex_digits :: "rchar set" where
  "hex_digits = set (lit ''0123456789abcdef'')"

definition addr_laws :: "keys \<Rightarrow> bool" where
  "addr_laws K \<longleftrightarrow>
     (\<forall>t a. addr_parse K t = Some a \<longrightarrow>
        to_string a = t \<and> length t = 64 \<and> set t \<subseteq> hex_digits)
     \<and> (\<forall>k. length k = 32 \<longrightarrow> addr_parse K (to_string (addr_of K k)) = Some (addr_of K k))"

text \<open>A generated key is a key: 32 bytes.\<close>

definition generate_law :: "keys \<Rightarrow> bool" where
  "generate_law K \<longleftrightarrow> (\<forall>n. length (fst (generate K n)) = 32)"

lemma addr_laws_parse: "addr_laws K \<Longrightarrow> addr_parse K t = Some a \<Longrightarrow> to_string a = t"
  by (simp add: addr_laws_def)

lemma addr_laws_of: "addr_laws K \<Longrightarrow> length k = 32 \<Longrightarrow>
    addr_parse K (to_string (addr_of K k)) = Some (addr_of K k)"
  by (simp add: addr_laws_def)

lemma addr_laws_digits: "addr_laws K \<Longrightarrow> addr_parse K t = Some a \<Longrightarrow> set t \<subseteq> hex_digits"
  by (simp add: addr_laws_def)

lemma addr_laws_length: "addr_laws K \<Longrightarrow> addr_parse K t = Some a \<Longrightarrow> length t = 64"
  by (simp add: addr_laws_def)

section \<open>The hex crate\<close>

text \<open>The program tells one error of the crate from the others.\<close>

datatype FromHexError = InvalidHexCharacter | OtherHexError

record hex =
  hex_encode :: "bytes \<Rightarrow> rstr"
  hex_decode :: "rstr \<Rightarrow> FromHexError + bytes"
  hex_decode_to_slice :: "rstr \<Rightarrow> nat \<Rightarrow> FromHexError + bytes"   \<comment> \<open>the length of the slice\<close>

definition hex_laws :: "hex \<Rightarrow> bool" where
  "hex_laws H \<longleftrightarrow>
     (\<forall>b. hex_decode H (hex_encode H b) = Inr b)
     \<and> (\<forall>b. hex_decode_to_slice H (hex_encode H b) (length b) = Inr b)
     \<and> (\<forall>t n b. hex_decode_to_slice H t n = Inr b \<longrightarrow> length b = n)
     \<and> (\<forall>b. set (hex_encode H b) \<subseteq> hex_digits)"

section \<open>Account logs\<close>

text \<open>
  A signed log is its payload's bytes and its signature. An entry is an addition under a
  context, a revocation of an earlier entry, or an opcode this build does not know; the
  program matches two kinds of data and lumps the rest.
\<close>

record signed_log =
  payload :: bytes
  signature :: bytes

type_synonym Context = rstr

datatype EntryData = Ed25519Key bytes | Text rstr | OtherData

datatype AccountEntry = Add Context EntryData | Remove u32 | Unknown byte

record indexed =
  e_index :: u32
  e_entry :: AccountEntry

datatype AccountLogError = TooLarge nat | OtherLogError rstr

text \<open>\<open>AccountLog\<close> is the type \<open>'l\<close>, \<open>AccountLogDraft\<close> the type \<open>'d\<close>.\<close>

record ('l, 'd) log_format =
  entries_for :: "'l \<Rightarrow> Context \<Rightarrow> indexed list"       \<comment> \<open>the live entries under a context\<close>
  encode :: "'l \<Rightarrow> AccountLogError + bytes"
  draft_new :: 'd
  from_log :: "'l \<Rightarrow> AccountLogError + 'd"
  push :: "'d \<Rightarrow> AccountEntry \<Rightarrow> AccountLogError + 'd"
  draft_log :: "'d \<Rightarrow> 'l"
  live_entries :: "'d \<Rightarrow> indexed list"
  entries :: "'d \<Rightarrow> indexed list"
  ACCOUNT_LOG_DOMAIN :: bytes
  MAX_PAYLOAD_BYTES :: nat
  SIGNER_CONTEXT :: Context
  log_error_text :: "AccountLogError \<Rightarrow> rstr"

record 'l account_record =
  rec_log :: 'l
  rec_signed :: signed_log

text \<open>
  An encoded payload opens with the domain and stays within the budget
  (\<open>manager.rs\<close>: "the domain prefix every payload carries", "caps the payload").
\<close>

definition encode_law :: "('l, 'd) log_format \<Rightarrow> bool" where
  "encode_law F \<longleftrightarrow>
     (\<forall>l b. encode F l = Inr b \<longrightarrow>
        prefix (ACCOUNT_LOG_DOMAIN F) b \<and> length b \<le> MAX_PAYLOAD_BYTES F)"

section \<open>Resolving and updating an account\<close>

datatype 'e AccountError = Log AccountLogError | Forked | Provider 'e

text \<open>
  The crate \<open>account\<close> is generic in the provider: a resolver reads through one, an update
  fetches and publishes through one. A provider's methods are passed as functions over the
  state they act on (\<open>'s\<close> for the resolver's provider, \<open>'w\<close> for the update's).
\<close>

type_synonym ('s, 'e) fetcher = "'s \<Rightarrow> AccountAddr \<Rightarrow> ('e + signed_log option) \<times> 's"
type_synonym ('s, 'e) publisher = "'s \<Rightarrow> AccountAddr \<Rightarrow> signed_log \<Rightarrow> ('e + unit) \<times> 's"

record ('l, 'r, 's, 'w, 'e) account_crate =
  resolver_new :: 'r
  resolve :: "('s, 'e) fetcher \<Rightarrow> 'r \<Rightarrow> AccountAddr \<Rightarrow> 's \<Rightarrow> ('e AccountError + unit) \<times> 'r \<times> 's"
  resolver_get :: "'r \<Rightarrow> AccountAddr \<Rightarrow> 'l account_record option"
  update_publish :: "('w, 'e) fetcher \<Rightarrow> ('w, 'e) publisher \<Rightarrow> SigningKey \<Rightarrow> AccountEntry list \<Rightarrow>
     'w \<Rightarrow> ('e AccountError + signed_log) \<times> 'w"
  account_error_text :: "'e AccountError \<Rightarrow> rstr"

text \<open>
  A resolve fetches through its provider once and judges what came back. A failed one
  leaves what is held as it was, for every address; one that succeeds touches the address
  it was asked about only, holds the log the provider served, and adopts it only where
  its payload extends the one held (\<open>manager.rs\<close>: "adopting the log only where it extends
  what is held"; "a read that failed leaves this as it was").
\<close>

definition judge_laws ::
  "('l, 'r, 's, 'w, 'e) account_crate \<Rightarrow>
   ('r \<Rightarrow> AccountAddr \<Rightarrow> 'e + signed_log option \<Rightarrow> ('e AccountError + unit) \<times> 'r) \<Rightarrow> bool" where
  "judge_laws A judge \<longleftrightarrow>
     (\<forall>r a x. \<forall>e r'. judge r a x = (Inl e, r') \<longrightarrow> resolver_get A r' = resolver_get A r)
     \<and> (\<forall>r a x r' b. judge r a x = (Inr (), r') \<longrightarrow> b \<noteq> a \<longrightarrow>
           resolver_get A r' b = resolver_get A r b)
     \<and> (\<forall>r a e. fst (judge r a (Inl e)) = Inl (Provider e))
     \<and> (\<forall>r a log r'. judge r a (Inr (Some log)) = (Inr (), r') \<longrightarrow>
           (\<exists>rec. resolver_get A r' a = Some rec \<and> rec_signed rec = log)
           \<and> (\<forall>held. resolver_get A r a = Some held \<longrightarrow>
                prefix (payload (rec_signed held)) (payload log)))"

definition resolve_law ::
  "('l, 'r, 's, 'w, 'e) account_crate \<Rightarrow> bool" where
  "resolve_law A \<longleftrightarrow>
     (\<exists>judge. judge_laws A judge \<and>
        (\<forall>fetch r a s. resolve A fetch r a s =
           (case fetch s a of (x, s') \<Rightarrow>
              (case judge r a x of (res, r') \<Rightarrow> (res, r', s')))))"

text \<open>
  An update fetches the log it extends, signs one log of that log and the entries, and
  publishes it: a failure at any point is the result, and nothing but the one publish
  writes (\<open>manager.rs\<close>: "All or nothing: a single rejected entry writes none of them";
  \<open>Extending\<close>: "it serves the log the update was planned against").
\<close>

definition update_law ::
  "keys \<Rightarrow> ('l, 'r, 's, 'w, 'e) account_crate \<Rightarrow>
   (SigningKey \<Rightarrow> signed_log option \<Rightarrow> AccountEntry list \<Rightarrow> AccountLogError + signed_log) \<Rightarrow> bool" where
  "update_law K A build \<longleftrightarrow>
     (\<forall>fetch publish k es w. update_publish A fetch publish k es w =
        (case fetch w (addr_of K k) of
           (Inl e, w') \<Rightarrow> (Inl (Provider e), w')
         | (Inr base, w') \<Rightarrow>
             (case build k base es of
                Inl e \<Rightarrow> (Inl (Log e), w')
              | Inr log \<Rightarrow>
                  (case publish w' (addr_of K k) log of
                     (Inl e, w'') \<Rightarrow> (Inl (Provider e), w'')
                   | (Inr u, w'') \<Rightarrow> (Inr log, w'')))))"

end
