(* ===== verification/Filesystem.thy ===== *)
theory Filesystem
  imports Rust_Prelude
begin

text \<open>
  The directory the app keeps its data in, and the system calls of \<open>std::fs\<close> the vault
  and the observed list make on it. A call that writes advances a counter and may fail
  at any count (\<open>fault\<close>); a failed write may leave the first characters of what it was
  writing (\<open>torn\<close>). A schedule that fails every call from some count on is a crash at
  that count, so what holds for every schedule holds across crashes. Reads fail as the
  directory's state says, the same way for the whole of one call.

  Other processes moving between the calls of one operation are modelled in Vault_Race and
  Observed_Race, which take the operations apart at these calls. Not modelled: the loss of
  unsynced data in a power cut.
\<close>

section \<open>State\<close>

datatype io_error =
    NotFound | AlreadyExists | WouldBlock rstr | InvalidData | ConnectionRefused | IoOther rstr

datatype fname = Utf8 rstr | NotUtf8 nat

datatype content = Utf8Text rstr | NotText

record dfile =
  data :: content
  fmode :: nat

datatype node = File dfile | Folder "(rstr \<times> dfile) list" nat

datatype try_lock_result = LockTaken | LockWouldBlock | LockError io_error

record fs =
  made :: bool                                     \<comment> \<open>the directory exists\<close>
  dmode :: nat                                     \<comment> \<open>its permission bits\<close>
  nodes :: "(fname \<times> node) list"                   \<comment> \<open>its entries, as \<open>read_dir\<close> gives them\<close>
  new_mode :: nat                                  \<comment> \<open>the mode the umask gives a new entry\<close>
  ticks :: nat                                     \<comment> \<open>writing calls made so far\<close>
  fault :: "nat \<Rightarrow> io_error option"
  torn :: "nat \<Rightarrow> nat option"
  list_fault :: "rstr option"                      \<comment> \<open>why the directory cannot be listed\<close>
  entry_fault :: "fname \<Rightarrow> io_error option"
  read_fault :: "fname \<Rightarrow> io_error option"
  try_lock :: "nat \<Rightarrow> try_lock_result"             \<comment> \<open>the outcome of each attempt at the lock\<close>
  overslept :: "nat \<Rightarrow> nat"                        \<comment> \<open>milliseconds each sleep takes beyond what was asked\<close>

text \<open>Permission bits, by their octal digits.\<close>

definition octal :: "nat \<Rightarrow> nat \<Rightarrow> nat \<Rightarrow> nat" where
  "octal u g o' = 64 * u + 8 * g + o'"

section \<open>Entries by name\<close>

definition node_at :: "fname \<Rightarrow> fs \<Rightarrow> node option" where
  "node_at n s = map_of (nodes s) n"

fun put_entry :: "'a \<Rightarrow> 'b \<Rightarrow> ('a \<times> 'b) list \<Rightarrow> ('a \<times> 'b) list" where
  "put_entry n x [] = [(n, x)]"
| "put_entry n x ((m, y) # es) = (if m = n then (n, x) # es else (m, y) # put_entry n x es)"

definition drop_entry :: "'a \<Rightarrow> ('a \<times> 'b) list \<Rightarrow> ('a \<times> 'b) list" where
  "drop_entry n es = filter (\<lambda>(m, y). m \<noteq> n) es"

lemma map_of_put_entry [simp]: "map_of (put_entry n x es) = (map_of es)(n \<mapsto> x)"
  by (induction es) auto

lemma map_of_drop_entry [simp]: "map_of (drop_entry n es) = (map_of es)(n := None)"
  by (induction es) (auto simp: drop_entry_def)

lemma put_entry_names:
  "map fst (put_entry n x es) = (if n \<in> fst ` set es then map fst es else map fst es @ [n])"
  by (induction es) (auto simp: rev_image_eqI)

lemma drop_entry_names: "map fst (drop_entry n es) = filter (\<lambda>m. m \<noteq> n) (map fst es)"
  by (induction es) (auto simp: drop_entry_def)

lemma distinct_put_entry [simp]:
  "distinct (map fst es) \<Longrightarrow> distinct (map fst (put_entry n x es))"
  by (simp add: put_entry_names)

lemma distinct_drop_entry [simp]:
  "distinct (map fst es) \<Longrightarrow> distinct (map fst (drop_entry n es))"
  by (simp add: drop_entry_names)

definition set_node :: "fname \<Rightarrow> node \<Rightarrow> fs \<Rightarrow> fs" where
  "set_node n x s = s\<lparr>nodes := put_entry n x (nodes s)\<rparr>"

definition del_node :: "fname \<Rightarrow> fs \<Rightarrow> fs" where
  "del_node n s = s\<lparr>nodes := drop_entry n (nodes s)\<rparr>"

lemma node_at_set [simp]: "node_at m (set_node n x s) = (if m = n then Some x else node_at m s)"
  by (simp add: node_at_def set_node_def)

lemma node_at_del [simp]: "node_at m (del_node n s) = (if m = n then None else node_at m s)"
  by (simp add: node_at_def del_node_def)

lemma node_at_other_fields [simp]:
  "node_at n (s\<lparr>ticks := t\<rparr>) = node_at n s"
  "node_at n (s\<lparr>made := b\<rparr>) = node_at n s"
  "node_at n (s\<lparr>dmode := m\<rparr>) = node_at n s"
  by (simp_all add: node_at_def)

section \<open>System calls\<close>

type_synonym 'r io = "(fs, io_error, 'r) op"

text \<open>
  One writing call: counted, failed where the schedule says (leaving what \<open>half\<close> says),
  and otherwise carried out by \<open>act\<close>.
\<close>

definition sys_call :: "(nat \<Rightarrow> fs \<Rightarrow> fs) \<Rightarrow> 'r io \<Rightarrow> 'r io" where
  "sys_call half act = (\<lambda>s.
     let t = ticks s; s' = s\<lparr>ticks := Suc t\<rparr> in
     case fault s t of Some e \<Rightarrow> (Inl e, half t s') | None \<Rightarrow> act s')"

definition untouched :: "nat \<Rightarrow> fs \<Rightarrow> fs" where
  "untouched t s = s"

definition create_dir_all :: "unit io" where
  "create_dir_all = sys_call untouched (\<lambda>s. (Inr (), s\<lparr>made := True\<rparr>))"

definition set_dir_mode :: "nat \<Rightarrow> unit io" where
  "set_dir_mode m = sys_call untouched (\<lambda>s.
     if made s then (Inr (), s\<lparr>dmode := m\<rparr>) else (Inl NotFound, s))"

fun with_mode :: "nat \<Rightarrow> node \<Rightarrow> node" where
  "with_mode m (File f) = File (f\<lparr>fmode := m\<rparr>)"
| "with_mode m (Folder fs m') = Folder fs m"

definition set_permissions :: "rstr \<Rightarrow> nat \<Rightarrow> unit io" where
  "set_permissions n m = sys_call untouched (\<lambda>s.
     case node_at (Utf8 n) s of
       None \<Rightarrow> (Inl NotFound, s)
     | Some x \<Rightarrow> (Inr (), set_node (Utf8 n) (with_mode m x) s))"

definition create_dir :: "rstr \<Rightarrow> unit io" where
  "create_dir n = sys_call untouched (\<lambda>s.
     if \<not> made s then (Inl NotFound, s)
     else case node_at (Utf8 n) s of
       Some x \<Rightarrow> (Inl AlreadyExists, s)
     | None \<Rightarrow> (Inr (), set_node (Utf8 n) (Folder [] (new_mode s)) s))"

definition remove_dir_all :: "rstr \<Rightarrow> unit io" where
  "remove_dir_all n = sys_call untouched (\<lambda>s.
     case node_at (Utf8 n) s of
       Some (Folder es m) \<Rightarrow> (Inr (), del_node (Utf8 n) s)
     | Some (File f) \<Rightarrow> (Inl (IoOther (lit ''Not a directory'')), s)
     | None \<Rightarrow> (Inl NotFound, s))"

definition remove_file :: "rstr \<Rightarrow> unit io" where
  "remove_file n = sys_call untouched (\<lambda>s.
     case node_at (Utf8 n) s of
       Some (File f) \<Rightarrow> (Inr (), del_node (Utf8 n) s)
     | Some (Folder es m) \<Rightarrow> (Inl (IoOther (lit ''Is a directory'')), s)
     | None \<Rightarrow> (Inl NotFound, s))"

text \<open>A file's mode survives being written again; a new file takes the umask's.\<close>

definition file_with :: "rstr \<Rightarrow> fs \<Rightarrow> node option \<Rightarrow> dfile" where
  "file_with text s old =
     (case old of Some (File f) \<Rightarrow> f\<lparr>data := Utf8Text text\<rparr>
      | _ \<Rightarrow> \<lparr>data = Utf8Text text, fmode = new_mode s\<rparr>)"

definition put_file :: "rstr \<Rightarrow> rstr \<Rightarrow> fs \<Rightarrow> fs" where
  "put_file n text s = set_node (Utf8 n) (File (file_with text s (node_at (Utf8 n) s))) s"

definition is_folder :: "node option \<Rightarrow> bool" where
  "is_folder x \<longleftrightarrow> (case x of Some (Folder es m) \<Rightarrow> True | _ \<Rightarrow> False)"

definition write_file :: "rstr \<Rightarrow> rstr \<Rightarrow> unit io" where
  "write_file n text = sys_call
     (\<lambda>t s. case torn s t of
        Some k \<Rightarrow> if made s \<and> \<not> is_folder (node_at (Utf8 n) s) then put_file n (take k text) s else s
      | None \<Rightarrow> s)
     (\<lambda>s. if \<not> made s then (Inl NotFound, s)
          else if is_folder (node_at (Utf8 n) s) then (Inl (IoOther (lit ''Is a directory'')), s)
          else (Inr (), put_file n text s))"

text \<open>\<open>OpenOptions\<close> with \<open>create(true).truncate(false)\<close>: the file is there afterwards.\<close>

definition open_or_create :: "rstr \<Rightarrow> unit io" where
  "open_or_create n = sys_call untouched (\<lambda>s.
     if \<not> made s then (Inl NotFound, s)
     else case node_at (Utf8 n) s of
       Some (File f) \<Rightarrow> (Inr (), s)
     | Some (Folder es m) \<Rightarrow> (Inl (IoOther (lit ''Is a directory'')), s)
     | None \<Rightarrow> (Inr (), put_file n [] s))"

text \<open>\<open>File::options().write(true).open(path)?.sync_all()\<close>, and \<open>rename\<close>.\<close>

definition sync_file :: "rstr \<Rightarrow> unit io" where
  "sync_file n = sys_call untouched (\<lambda>s.
     case node_at (Utf8 n) s of
       Some (File f) \<Rightarrow> (Inr (), s)
     | Some (Folder es m) \<Rightarrow> (Inl (IoOther (lit ''Is a directory'')), s)
     | None \<Rightarrow> (Inl NotFound, s))"

definition sync_dir :: "unit io" where
  "sync_dir = sys_call untouched (\<lambda>s. (Inr (), s))"

definition rename :: "rstr \<Rightarrow> rstr \<Rightarrow> unit io" where
  "rename n m = sys_call untouched (\<lambda>s.
     case node_at (Utf8 n) s of
       Some (File f) \<Rightarrow>
         if is_folder (node_at (Utf8 m) s) then (Inl (IoOther (lit ''Is a directory'')), s)
         else (Inr (), set_node (Utf8 m) (File f) (if n = m then s else del_node (Utf8 n) s))
     | Some (Folder es k) \<Rightarrow> (Inl (IoOther (lit ''Not a file'')), s)
     | None \<Rightarrow> (Inl NotFound, s))"

subsection \<open>Inside a directory of the directory\<close>

definition file_in :: "rstr \<Rightarrow> rstr \<Rightarrow> fs \<Rightarrow> dfile option" where
  "file_in d n s = (case node_at (Utf8 d) s of Some (Folder es m) \<Rightarrow> map_of es n | _ \<Rightarrow> None)"

definition put_in :: "rstr \<Rightarrow> rstr \<Rightarrow> dfile \<Rightarrow> fs \<Rightarrow> fs" where
  "put_in d n f s = (case node_at (Utf8 d) s of
     Some (Folder es m) \<Rightarrow> set_node (Utf8 d) (Folder (put_entry n f es) m) s | _ \<Rightarrow> s)"

definition write_in :: "rstr \<Rightarrow> rstr \<Rightarrow> rstr \<Rightarrow> unit io" where
  "write_in d n text = sys_call
     (\<lambda>t s. case torn s t of
        Some k \<Rightarrow> put_in d n (file_with (take k text) s (map_option File (file_in d n s))) s
      | None \<Rightarrow> s)
     (\<lambda>s. if is_folder (node_at (Utf8 d) s)
          then (Inr (), put_in d n (file_with text s (map_option File (file_in d n s))) s)
          else (Inl NotFound, s))"

definition set_permissions_in :: "rstr \<Rightarrow> rstr \<Rightarrow> nat \<Rightarrow> unit io" where
  "set_permissions_in d n m = sys_call untouched (\<lambda>s.
     case file_in d n s of
       None \<Rightarrow> (Inl NotFound, s)
     | Some f \<Rightarrow> (Inr (), put_in d n (f\<lparr>fmode := m\<rparr>) s))"

definition sync_in :: "rstr \<Rightarrow> rstr \<Rightarrow> unit io" where
  "sync_in d n = sys_call untouched (\<lambda>s.
     case file_in d n s of None \<Rightarrow> (Inl NotFound, s) | Some f \<Rightarrow> (Inr (), s))"

definition rename_out :: "rstr \<Rightarrow> rstr \<Rightarrow> rstr \<Rightarrow> unit io" where
  "rename_out d n m = sys_call untouched (\<lambda>s.
     case node_at (Utf8 d) s of
       Some (Folder es k) \<Rightarrow>
         (case map_of es n of
            None \<Rightarrow> (Inl NotFound, s)
          | Some f \<Rightarrow>
              if is_folder (node_at (Utf8 m) s) then (Inl (IoOther (lit ''Is a directory'')), s)
              else (Inr (), set_node (Utf8 m) (File f)
                              (set_node (Utf8 d) (Folder (drop_entry n es) k) s)))
     | _ \<Rightarrow> (Inl NotFound, s))"

subsection \<open>Reads\<close>

definition read_dir :: "fs \<Rightarrow> io_error + fname list" where
  "read_dir s =
     (if \<not> made s then Inl NotFound
      else case list_fault s of Some e \<Rightarrow> Inl (IoOther e) | None \<Rightarrow> Inr (map fst (nodes s)))"

definition read_to_string :: "rstr \<Rightarrow> fs \<Rightarrow> io_error + rstr" where
  "read_to_string n s =
     (case read_fault s (Utf8 n) of Some e \<Rightarrow> Inl e
      | None \<Rightarrow>
          (case node_at (Utf8 n) s of
             None \<Rightarrow> Inl NotFound
           | Some (Folder es m) \<Rightarrow> Inl (IoOther (lit ''Is a directory''))
           | Some (File f) \<Rightarrow>
               (case data f of Utf8Text t \<Rightarrow> Inr t | NotText \<Rightarrow> Inl InvalidData)))"

section \<open>What a system call leaves alone\<close>

text \<open>
  \<open>frame N s s'\<close>: from \<open>s\<close> to \<open>s'\<close> only the entries named in \<open>N\<close> changed, the directory
  did not disappear, and what the environment decides (faults, the lock) is the same.
\<close>

definition environs :: "fs \<Rightarrow> _" where
  "environs s = (new_mode s, fault s, torn s, list_fault s, entry_fault s, read_fault s,
     try_lock s, overslept s)"

definition wf_fs :: "fs \<Rightarrow> bool" where
  "wf_fs s \<longleftrightarrow> distinct (map fst (nodes s))"

definition frame :: "fname set \<Rightarrow> fs \<Rightarrow> fs \<Rightarrow> bool" where
  "frame N s s' \<longleftrightarrow>
     (\<forall>n. n \<notin> N \<longrightarrow> node_at n s' = node_at n s) \<and> environs s' = environs s
     \<and> (made s \<longrightarrow> made s') \<and> (wf_fs s \<longrightarrow> wf_fs s')"

lemma frame_refl [simp]: "frame N s s"
  by (simp add: frame_def)

lemma reflp_frame [simp, intro]: "reflp (frame N)"
  by (simp add: reflp_def)

lemma transp_frame [simp, intro]: "transp (frame N)"
  by (auto simp: transp_def frame_def)

lemma frame_trans: "frame N s t \<Longrightarrow> frame N t u \<Longrightarrow> frame N s u"
  by (rule transpD [OF transp_frame])

lemma frame_mono: "frame M s t \<Longrightarrow> M \<subseteq> N \<Longrightarrow> frame N s t"
  by (auto simp: frame_def)

lemma frame_node: "frame N s s' \<Longrightarrow> n \<notin> N \<Longrightarrow> node_at n s' = node_at n s"
  by (simp add: frame_def)

lemma frame_made: "frame N s s' \<Longrightarrow> made s \<Longrightarrow> made s'"
  by (simp add: frame_def)

lemma frame_wf: "frame N s s' \<Longrightarrow> wf_fs s \<Longrightarrow> wf_fs s'"
  by (simp add: frame_def)

lemma frame_environs: "frame N s s' \<Longrightarrow> environs s' = environs s"
  by (simp add: frame_def)

lemma environs_eqD:
  "environs s' = environs s \<Longrightarrow> list_fault s' = list_fault s"
  "environs s' = environs s \<Longrightarrow> entry_fault s' = entry_fault s"
  "environs s' = environs s \<Longrightarrow> read_fault s' = read_fault s"
  "environs s' = environs s \<Longrightarrow> fault s' = fault s"
  "environs s' = environs s \<Longrightarrow> try_lock s' = try_lock s"
  "environs s' = environs s \<Longrightarrow> new_mode s' = new_mode s"
  by (simp_all add: environs_def)

lemma environs_updates [simp]:
  "environs (set_node n x s) = environs s" "environs (del_node n s) = environs s"
  "environs (s\<lparr>ticks := t\<rparr>) = environs s" "environs (s\<lparr>made := b\<rparr>) = environs s"
  "environs (s\<lparr>dmode := m\<rparr>) = environs s"
  by (simp_all add: environs_def set_node_def del_node_def)

lemma made_updates [simp]:
  "made (set_node n x s) = made s" "made (del_node n s) = made s"
  by (simp_all add: set_node_def del_node_def)

lemma wf_fs_updates [simp]:
  "wf_fs s \<Longrightarrow> wf_fs (set_node n x s)" "wf_fs s \<Longrightarrow> wf_fs (del_node n s)"
  "wf_fs (s\<lparr>ticks := t\<rparr>) = wf_fs s" "wf_fs (s\<lparr>made := b\<rparr>) = wf_fs s"
  "wf_fs (s\<lparr>dmode := m\<rparr>) = wf_fs s"
  by (simp_all add: wf_fs_def set_node_def del_node_def)

lemma frame_set_node [intro]: "n \<in> N \<Longrightarrow> frame N s (set_node n x s)"
  by (auto simp: frame_def)

lemma frame_del_node [intro]: "n \<in> N \<Longrightarrow> frame N s (del_node n s)"
  by (auto simp: frame_def)

lemma frame_put_file [intro]: "Utf8 n \<in> N \<Longrightarrow> frame N s (put_file n text s)"
  by (auto simp: put_file_def)

lemma frame_put_in [intro]: "Utf8 d \<in> N \<Longrightarrow> frame N s (put_in d n f s)"
  by (auto simp: put_in_def split: option.splits node.splits)

lemma frame_ticks [intro]: "frame N s (s\<lparr>ticks := t\<rparr>)"
  by (simp add: frame_def)

lemma keeps_sys_call:
  assumes "\<And>t s. frame N s (half t s)" and "\<And>s. frame N s (snd (act s))"
  shows "keeps (frame N) (sys_call half act)"
  unfolding keeps_def
proof
  fix s
  show "frame N s (snd (sys_call half act s))"
    using assms [of "s\<lparr>ticks := Suc (ticks s)\<rparr>"] assms(1) [of "s\<lparr>ticks := Suc (ticks s)\<rparr>"]
    by (auto simp: sys_call_def Let_def split: option.splits intro: frame_trans [OF frame_ticks])
qed

lemma frame_made_update [intro]: "frame N s (s\<lparr>made := True\<rparr>)"
  by (simp add: frame_def)

lemma frame_dmode [intro]: "frame N s (s\<lparr>dmode := m\<rparr>)"
  by (simp add: frame_def)

lemma frame_untouched [simp]: "frame N s (untouched t s)"
  by (simp add: untouched_def)

lemma keeps_directory_calls [keeps_intros]:
  "keeps (frame N) create_dir_all" "keeps (frame N) (set_dir_mode m)" "keeps (frame N) sync_dir"
  unfolding create_dir_all_def set_dir_mode_def sync_dir_def
  by (rule keeps_sys_call; auto)+

lemma keeps_entry_calls [keeps_intros]:
  assumes "Utf8 n \<in> N"
  shows "keeps (frame N) (set_permissions n m)" and "keeps (frame N) (create_dir n)"
    and "keeps (frame N) (remove_dir_all n)" and "keeps (frame N) (remove_file n)"
    and "keeps (frame N) (open_or_create n)" and "keeps (frame N) (write_file n text)"
    and "keeps (frame N) (write_in n f text)" and "keeps (frame N) (set_permissions_in n f m)"
  unfolding set_permissions_def create_dir_def remove_dir_all_def remove_file_def
    open_or_create_def write_file_def write_in_def set_permissions_in_def
  using assms by (auto intro!: keeps_sys_call split: option.splits node.splits)

lemma keeps_sync [keeps_intros]:
  "keeps (frame N) (sync_file n)" "keeps (frame N) (sync_in d f)"
  unfolding sync_file_def sync_in_def
  by (rule keeps_sys_call; auto split: option.splits node.splits)+

lemma keeps_rename [keeps_intros]:
  assumes "Utf8 n \<in> N" and "Utf8 m \<in> N"
  shows "keeps (frame N) (rename n m)" and "keeps (frame N) (rename_out n f m)"
  unfolding rename_def rename_out_def
  using assms
  by (auto intro!: keeps_sys_call split: option.splits node.splits
      intro: frame_trans [OF frame_del_node frame_set_node] frame_trans [OF frame_set_node frame_set_node])

lemma file_in_frame: "frame N s s' \<Longrightarrow> Utf8 d \<notin> N \<Longrightarrow> file_in d n s' = file_in d n s"
  by (simp add: file_in_def frame_node)

lemma read_to_string_frame:
  "frame N s s' \<Longrightarrow> Utf8 n \<notin> N \<Longrightarrow> read_to_string n s' = read_to_string n s"
  using environs_eqD(3) [OF frame_environs, of N s s']
  by (auto simp: read_to_string_def frame_node split: option.split)

lemma sys_call_Inr:
  "sys_call half act s = (Inr r, s') \<Longrightarrow> act (s\<lparr>ticks := Suc (ticks s)\<rparr>) = (Inr r, s')"
  by (simp add: sys_call_def Let_def split: option.splits)

lemma sys_call_no_fault:
  "fault s (ticks s) = None \<Longrightarrow> sys_call half act s = act (s\<lparr>ticks := Suc (ticks s)\<rparr>)"
  by (simp add: sys_call_def Let_def)

end
