(* ===== verification/Json_Buffers.thy ===== *)
theory Json_Buffers
  imports Rust_Prelude
begin

text \<open>
  \<open>json.rs\<close>: JSON written into a buffer sized before it is written. A \<open>Vec\<close> is its
  elements, its capacity and the number of times a write moved it to a larger allocation,
  each of which leaves a copy of what it held in freed memory. What \<open>serde_json::to_writer\<close>
  hands the writer for a value is a list of chunks, a parameter.
\<close>

record 'x vec =
  buf :: "'x list"
  capacity :: nat
  regrown :: nat

definition vec_with_capacity :: "nat \<Rightarrow> 'x vec" where
  "vec_with_capacity n = \<lparr>buf = [], capacity = n, regrown = 0\<rparr>"

definition vec_write :: "'x list \<Rightarrow> 'x vec \<Rightarrow> 'x vec" where
  "vec_write xs v =
     (if length (buf v) + length xs \<le> capacity v then v\<lparr>buf := buf v @ xs\<rparr>
      else \<lparr>buf = buf v @ xs, capacity = max (2 * capacity v) (length (buf v) + length xs),
            regrown = Suc (regrown v)\<rparr>)"

definition vec_push :: "'x \<Rightarrow> 'x vec \<Rightarrow> 'x vec" where
  "vec_push x v = vec_write [x] v"

text \<open>\<open>Length\<close>, the writer that only counts.\<close>

definition length_write :: "'x list \<Rightarrow> nat \<Rightarrow> nat" where
  "length_write xs n = n + length xs"

definition to_vec_sized :: "'x list list \<Rightarrow> nat \<Rightarrow> 'x vec" where
  "to_vec_sized chunks spare =
     (let len = fold length_write chunks 0
      in fold vec_write chunks (vec_with_capacity (len + spare)))"

lemma fold_length_write [simp]: "fold length_write chunks n = n + length (concat chunks)"
  by (induction chunks arbitrary: n) (auto simp: length_write_def)

lemma fold_vec_write:
  "length (buf v) + length (concat chunks) \<le> capacity v \<Longrightarrow>
     fold vec_write chunks v = v\<lparr>buf := buf v @ concat chunks\<rparr>"
proof (induction chunks arbitrary: v)
  case Nil
  then show ?case by simp
next
  case (Cons xs chunks)
  then show ?case by (simp add: vec_write_def)
qed

lemma to_vec_sized_eq:
  "to_vec_sized chunks spare =
     \<lparr>buf = concat chunks, capacity = length (concat chunks) + spare, regrown = 0\<rparr>"
  by (simp add: to_vec_sized_def fold_vec_write vec_with_capacity_def Let_def)

text \<open>
  The buffer holds the document and was never moved, and up to
  \<open>spare\<close> more elements can be pushed without moving it.
\<close>

lemma to_vec_sized_spare:
  "length xs \<le> spare \<Longrightarrow>
     fold vec_push xs (to_vec_sized chunks spare) =
       \<lparr>buf = concat chunks @ xs, capacity = length (concat chunks) + spare, regrown = 0\<rparr>"
proof -
  have "fold vec_push xs v = v\<lparr>buf := buf v @ xs\<rparr>"
    if "length (buf v) + length xs \<le> capacity v" for v :: "'a vec"
    using that
    by (induction xs arbitrary: v) (auto simp: vec_push_def vec_write_def)
  moreover assume "length xs \<le> spare"
  ultimately show ?thesis by (simp add: to_vec_sized_eq)
qed

section \<open>serde\_json's value type\<close>

datatype number = PosInt nat | NegInt nat | Float nat

datatype Value =
    Null | Bool bool | Number number | String rstr
  | Array "Value list" | Object "(rstr \<times> Value) list"

end
