(* ===== verification/Vault.thy ===== *)
theory Vault
  imports Crates Filesystem Json_Buffers
begin

text \<open>
  \<open>vault.rs\<close>: the account keys, one file per account, named after its address, with
  \<open>.json\<close> for a sealed key and \<open>.open.json\<close> for one stored in the clear. The operations
  are programs over the directory of \<open>Filesystem\<close>; \<open>eth_keystore\<close>, the JSON crate and
  the entropy source are parameters.
\<close>

definition LOCK_FILE :: rstr where "LOCK_FILE = lit ''.lock''"
definition STAGED_FILE :: rstr where "STAGED_FILE = lit ''vault.json''"
definition LOCK_WAIT :: nat where "LOCK_WAIT = 1000"
definition OPEN_SUFFIX :: rstr where "OPEN_SUFFIX = lit ''.open.json''"
definition SEALED_SUFFIX :: rstr where "SEALED_SUFFIX = lit ''.json''"

definition MAX_SCRYPT_N :: u64 where "MAX_SCRYPT_N = push_bit 18 1"
definition MAX_SCRYPT_R :: u64 where "MAX_SCRYPT_R = 16"
definition MAX_SCRYPT_P :: u64 where "MAX_SCRYPT_P = 16"
definition MAX_SCRYPT_WORK :: u64 where "MAX_SCRYPT_WORK = push_bit 18 1 * 8"

datatype VaultError =
    NoAccount
  | AccountExists AccountAddr
  | EmptyPassword
  | PasswordRequired
  | PasswordNotRequired
  | WrongPassword
  | Corrupt rstr
  | Io io_error

datatype StoredAccount = StoredAccount (addr: AccountAddr) (protected: bool)

record OpenDocument =
  od_logos_account_vault :: nat
  od_address :: rstr
  od_protection :: rstr
  od_key :: rstr
  od_warning :: rstr

record ReadOpenDocument =
  rd_logos_account_vault :: nat
  rd_key :: "rstr option"

datatype KeystoreError = MacMismatch | OtherKeystoreError rstr

record vault_crates =
  vkeys :: keys
  vhex :: hex
  open_writer :: "OpenDocument \<Rightarrow> rstr list"              \<comment> \<open>the chunks \<open>to_writer\<close> writes\<close>
  open_parser :: "rstr \<Rightarrow> rstr + ReadOpenDocument"         \<comment> \<open>\<open>from_str\<close>, or the error's text\<close>
  value_parser :: "rstr \<Rightarrow> rstr + Value"
  value_index :: "Value \<Rightarrow> rstr \<Rightarrow> Value"
  value_is_str :: "Value \<Rightarrow> rstr \<Rightarrow> bool"
  value_keys :: "Value \<Rightarrow> rstr list option"               \<comment> \<open>\<open>as_object().map(keys)\<close>\<close>
  value_u64 :: "Value \<Rightarrow> u64 option"
  value_str :: "Value \<Rightarrow> rstr option"
  encrypt_key :: "nat \<Rightarrow> bytes \<Rightarrow> rstr \<Rightarrow> rstr + rstr"     \<comment> \<open>entropy, secret, password; the file's text\<close>
  keystore_io_text :: "io_error \<Rightarrow> rstr"
  decrypt_key :: "rstr \<Rightarrow> rstr \<Rightarrow> KeystoreError + bytes"  \<comment> \<open>the file's text, password\<close>

section \<open>Names and listing\<close>

definition file_name :: "AccountAddr \<Rightarrow> bool \<Rightarrow> rstr" where
  "file_name a prot = to_string a @ (if prot then SEALED_SUFFIX else OPEN_SUFFIX)"

definition decode_name :: "keys \<Rightarrow> rstr \<Rightarrow> (AccountAddr \<times> bool) option" where
  "decode_name K name =
     (case (case strip_suffix OPEN_SUFFIX name of
              Some stem \<Rightarrow> Some (stem, False)
            | None \<Rightarrow> map_option (\<lambda>stem. (stem, True)) (strip_suffix SEALED_SUFFIX name)) of
        None \<Rightarrow> None
      | Some (stem, prot) \<Rightarrow>
          (case addr_parse K stem of None \<Rightarrow> None | Some a \<Rightarrow> Some (a, prot)))"

fun accounts_loop :: "keys \<Rightarrow> fs \<Rightarrow> fname list \<Rightarrow> StoredAccount list \<Rightarrow> VaultError + StoredAccount list" where
  "accounts_loop K s [] held = Inr held"
| "accounts_loop K s (entry # rest) held =
     (case entry_fault s entry of
        Some e \<Rightarrow> Inl (Io e)
      | None \<Rightarrow>
          (case entry of
             NotUtf8 n \<Rightarrow> accounts_loop K s rest held
           | Utf8 name \<Rightarrow>
               (case decode_name K name of
                  None \<Rightarrow> accounts_loop K s rest held
                | Some (a, prot) \<Rightarrow>
                    if list_ex (\<lambda>h. addr h = a) held
                    then Inl (Corrupt (to_string a @ lit '' is held both with and without a password''))
                    else accounts_loop K s rest (held @ [StoredAccount a prot]))))"

definition vault_accounts :: "vault_crates \<Rightarrow> fs \<Rightarrow> VaultError + StoredAccount list" where
  "vault_accounts V s =
     (case read_dir s of
        Inl e \<Rightarrow> if e = NotFound then Inr [] else Inl (Io e)
      | Inr names \<Rightarrow>
          (case accounts_loop (vkeys V) s names [] of
             Inl e \<Rightarrow> Inl e
           | Inr held \<Rightarrow> Inr (sort_key (\<lambda>h. to_string (addr h)) held)))"

section \<open>The lock\<close>

text \<open>
  \<open>lock\<close>'s loop: attempt \<open>i\<close> at time \<open>now\<close> (milliseconds), a sleep of 25 milliseconds or
  more between attempts, and the deadline. It ends: every sleep moves the clock on.
\<close>

definition lock_busy :: io_error where
  "lock_busy = WouldBlock (lit ''another process is writing to this vault'')"

function lock_loop :: "(nat \<Rightarrow> try_lock_result) \<Rightarrow> (nat \<Rightarrow> nat) \<Rightarrow> nat \<Rightarrow> nat \<Rightarrow> nat \<Rightarrow> io_error + nat" where
  "lock_loop attempt late i now deadline =
     (case attempt i of
        LockTaken \<Rightarrow> Inr i
      | LockError e \<Rightarrow> Inl e
      | LockWouldBlock \<Rightarrow>
          if now < deadline then lock_loop attempt late (Suc i) (now + 25 + late i) deadline
          else Inl lock_busy)"
  by pat_completeness auto
termination
  by (relation "measure (\<lambda>(attempt, late, i, now, deadline). deadline - now)") auto

declare lock_loop.simps [simp del]

definition lock :: "unit io" where
  "lock = and_then (open_or_create LOCK_FILE) (\<lambda>_ s.
     case lock_loop (try_lock s) (overslept s) 0 0 LOCK_WAIT of
       Inl e \<Rightarrow> (Inl e, s)
     | Inr i \<Rightarrow> (Inr (), s))"

section \<open>Staging a vault file\<close>

definition OPEN_WARNING :: rstr where
  "OPEN_WARNING = lit ''This file holds the account key in the clear. Anything that can read it is this account.''"

definition write_open_document :: "vault_crates \<Rightarrow> AccountAddr \<Rightarrow> SigningKey \<Rightarrow> rstr" where
  "write_open_document V a key =
     buf (to_vec_sized (open_writer V
       \<lparr>od_logos_account_vault = 1, od_address = to_string a, od_protection = lit ''none'',
        od_key = hex_encode (vhex V) key, od_warning = OPEN_WARNING\<rparr>) 0)"

definition stage_dir :: "AccountAddr \<Rightarrow> rstr" where
  "stage_dir a = lit ''.stage-'' @ to_string a"

text \<open>\<open>Drop for Stage\<close>: the directory is removed, and a failure to is ignored.\<close>

definition drop_stage :: "rstr \<Rightarrow> fs \<Rightarrow> fs" where
  "drop_stage d s = snd (remove_dir_all d s)"

definition stage_create :: "rstr \<Rightarrow> unit io" where
  "stage_create d =
     and_then (ignoring (remove_dir_all d)) (\<lambda>_.
     and_then (create_dir d) (\<lambda>_ s.
       case set_permissions d (octal 7 0 0) s of
         (Inl e, s') \<Rightarrow> (Inl e, drop_stage d s')
       | (Inr u, s') \<Rightarrow> (Inr u, s')))"

definition seal :: "vault_crates \<Rightarrow> rstr \<Rightarrow> SigningKey \<Rightarrow> rstr \<Rightarrow> nat \<Rightarrow> unit io" where
  "seal V d key password entropy =
     (case encrypt_key V entropy key password of
        Inl e \<Rightarrow> fail (IoOther e)
      | Inr text \<Rightarrow> map_err_op (\<lambda>e. IoOther (keystore_io_text V e)) (write_in d STAGED_FILE text))"

definition write_open :: "vault_crates \<Rightarrow> rstr \<Rightarrow> AccountAddr \<Rightarrow> SigningKey \<Rightarrow> unit io" where
  "write_open V d a key = write_in d STAGED_FILE (write_open_document V a key)"

definition promote :: "rstr \<Rightarrow> rstr \<Rightarrow> unit io" where
  "promote d dest =
     and_then (set_permissions_in d STAGED_FILE (octal 6 0 0)) (\<lambda>_.
     and_then (sync_in d STAGED_FILE) (\<lambda>_.
     and_then (rename_out d STAGED_FILE dest) (\<lambda>_.
     ignoring sync_dir)))"

section \<open>Create, open, forget\<close>

definition io :: "'r io \<Rightarrow> (fs, VaultError, 'r) op" where
  "io m = map_err_op Io m"

definition create_staged ::
  "vault_crates \<Rightarrow> AccountAddr \<Rightarrow> SigningKey \<Rightarrow> rstr option \<Rightarrow> nat \<Rightarrow> (fs, VaultError, AccountAddr) op" where
  "create_staged V a key password entropy =
     and_then (io (case password of
                     Some pw \<Rightarrow> seal V (stage_dir a) key pw entropy
                   | None \<Rightarrow> write_open V (stage_dir a) a key)) (\<lambda>_.
     and_then (io lock) (\<lambda>_.
     and_then (of_read (vault_accounts V)) (\<lambda>held.
       if list_ex (\<lambda>h. addr h = a) held then fail (AccountExists a)
       else and_then (io (promote (stage_dir a) (file_name a (password \<noteq> None)))) (\<lambda>_. ok a))))"

definition vault_create ::
  "vault_crates \<Rightarrow> SigningKey \<Rightarrow> rstr option \<Rightarrow> nat \<Rightarrow> (fs, VaultError, AccountAddr) op" where
  "vault_create V key password entropy =
     (if password = Some [] then fail EmptyPassword
      else let a = addr_of (vkeys V) key in
        and_then (io create_dir_all) (\<lambda>_.
        and_then (io (set_dir_mode (octal 7 0 0))) (\<lambda>_.
        and_then (io (stage_create (stage_dir a))) (\<lambda>_.
        with_drop (drop_stage (stage_dir a)) (create_staged V a key password entropy)))))"

definition read_open :: "vault_crates \<Rightarrow> rstr \<Rightarrow> fs \<Rightarrow> VaultError + SigningKey" where
  "read_open V name s =
     bind_res (map_err Io (read_to_string name s)) (\<lambda>text.
     bind_res (map_err Corrupt (open_parser V text)) (\<lambda>doc.
       if rd_logos_account_vault doc \<noteq> 1
       then Inl (Corrupt (lit ''not a vault document this version writes''))
       else case rd_key doc of
         None \<Rightarrow> Inl (Corrupt (lit ''the document carries no key''))
       | Some hex_key \<Rightarrow>
           map_err (\<lambda>e. Corrupt (if e = InvalidHexCharacter then lit ''the key is not hex''
               else lit ''the key is '' @ dec (str_len hex_key) @ lit '' hex characters, not 64''))
             (hex_decode_to_slice (vhex V) hex_key 32)))"

definition is_power_of_two :: "u64 \<Rightarrow> bool" where
  "is_power_of_two n \<longleftrightarrow> list_ex (\<lambda>k. n = push_bit k 1) [0..<64]"

definition scrypt_names :: "rstr list" where
  "scrypt_names = [lit ''dklen'', lit ''n'', lit ''r'', lit ''p'', lit ''salt'']"

definition check_params :: "vault_crates \<Rightarrow> rstr \<Rightarrow> VaultError + unit" where
  "check_params V json =
     bind_res (map_err Corrupt (value_parser V json)) (\<lambda>vault.
       let corrupt = (\<lambda>why. Inl (Corrupt why));
           crypto = value_index V vault (lit ''crypto'');
           kdfparams = value_index V crypto (lit ''kdfparams'');
           param = (\<lambda>name. value_u64 V (value_index V kdfparams name)) in
       if \<not> value_is_str V (value_index V crypto (lit ''kdf'')) (lit ''scrypt'')
       then corrupt (lit ''the key derivation is not scrypt'')
       else if \<not> (case value_keys V kdfparams of
                    None \<Rightarrow> False
                  | Some names \<Rightarrow> list_all (\<lambda>name. List.member scrypt_names name) names)
       then corrupt (lit ''the key derivation parameters are not scrypt's'')
       else case (param (lit ''dklen''), param (lit ''n''), param (lit ''r''), param (lit ''p'')) of
         (Some dklen, Some n, Some r, Some p) \<Rightarrow>
           let iv_bytes = (case value_str V (value_index V (value_index V crypto (lit ''cipherparams'')) (lit ''iv'')) of
                             None \<Rightarrow> 0 | Some iv \<Rightarrow> str_len iv) div 2 in
           if dklen \<noteq> 32 \<or> iv_bytes \<noteq> 16
           then corrupt (lit ''the derived key or IV length is wrong'')
           else if \<not> is_power_of_two n \<or> n > MAX_SCRYPT_N \<or> r > MAX_SCRYPT_R \<or> p > MAX_SCRYPT_P
                   \<or> n * r * p > MAX_SCRYPT_WORK
           then corrupt (lit ''scrypt parameters are out of range'')
           else Inr ()
       | _ \<Rightarrow> corrupt (lit ''scrypt parameters are missing''))"

definition open_sealed :: "vault_crates \<Rightarrow> rstr \<Rightarrow> rstr \<Rightarrow> fs \<Rightarrow> VaultError + SigningKey" where
  "open_sealed V name password s =
     bind_res (map_err Io (read_to_string name s)) (\<lambda>text.
     bind_res (check_params V text) (\<lambda>_.
     bind_res (map_err (\<lambda>e. case e of MacMismatch \<Rightarrow> WrongPassword | OtherKeystoreError t \<Rightarrow> Corrupt t)
                 (decrypt_key V text password)) (\<lambda>secret.
       if length secret = 32 then Inr secret
       else Inl (Corrupt (lit ''the sealed key is '' @ dec (length secret) @ lit '' bytes, not 32'')))))"

definition find_held :: "vault_crates \<Rightarrow> AccountAddr \<Rightarrow> fs \<Rightarrow> VaultError + StoredAccount" where
  "find_held V a s =
     bind_res (vault_accounts V s) (\<lambda>held.
       case find (\<lambda>h. addr h = a) held of None \<Rightarrow> Inl NoAccount | Some h \<Rightarrow> Inr h)"

definition vault_open :: "vault_crates \<Rightarrow> AccountAddr \<Rightarrow> rstr option \<Rightarrow> fs \<Rightarrow> VaultError + SigningKey" where
  "vault_open V a password s =
     bind_res (find_held V a s) (\<lambda>held.
       let path = file_name a (protected held) in
       bind_res
         (case (protected held, password) of
            (True, Some pw) \<Rightarrow> open_sealed V path pw s
          | (False, None) \<Rightarrow> read_open V path s
          | (True, None) \<Rightarrow> Inl PasswordRequired
          | (False, Some pw) \<Rightarrow> Inl PasswordNotRequired) (\<lambda>key.
       if addr_of (vkeys V) key \<noteq> a
       then Inl (Corrupt (lit ''the file named for '' @ to_string a @ lit '' holds another account's key''))
       else Inr key))"

definition vault_forget :: "vault_crates \<Rightarrow> AccountAddr \<Rightarrow> (fs, VaultError, unit) op" where
  "vault_forget V a =
     and_then (of_read (find_held V a)) (\<lambda>held.
     and_then (io lock) (\<lambda>_.
     io (remove_file (file_name a (protected held)))))"

end
