(* ===== verification/Vault_Names.thy ===== *)
theory Vault_Names
  imports Vault "HOL-Library.Multiset"
begin

text \<open>
  The names of vault files and the listing that reads them: a name decodes to the account
  and protection it was made from and to nothing else, and the listing is the sorted set
  of the accounts whose key file is in the directory.
\<close>

lemma dot_not_hex: "(46::nat) \<notin> hex_digits"
  by (simp add: hex_digits_def lit_def)

lemma OPEN_eq: "OPEN_SUFFIX = lit ''.open'' @ SEALED_SUFFIX"
  by (simp add: OPEN_SUFFIX_def SEALED_SUFFIX_def lit_def)

lemma sealed_not_open:
  assumes "set t \<subseteq> hex_digits"
  shows "strip_suffix OPEN_SUFFIX (t @ SEALED_SUFFIX) = None"
proof -
  have "46 \<notin> set t" using assms dot_not_hex by blast
  then have "\<not> suffix (lit ''.open'') t"
    by (auto simp: suffix_def lit_def)
  then show ?thesis
    by (simp add: strip_suffix_None OPEN_eq)
qed

lemma decode_file_name:
  assumes "addr_laws K" and "addr_parse K (to_string a) = Some a"
  shows "decode_name K (file_name a prot) = Some (a, prot)"
  using assms sealed_not_open [OF addr_laws_digits [OF assms]]
  by (cases prot) (simp_all add: decode_name_def file_name_def)

lemma decode_name_SomeD:
  assumes "addr_laws K" and "decode_name K name = Some (a, prot)"
  shows "name = file_name a prot" and "addr_parse K (to_string a) = Some a"
proof -
  from assms(2) obtain stem where
    s: "(strip_suffix OPEN_SUFFIX name = Some stem \<and> \<not> prot)
        \<or> (strip_suffix SEALED_SUFFIX name = Some stem \<and> prot)"
    and p: "addr_parse K stem = Some a"
    by (auto simp: decode_name_def split: option.splits prod.splits)
  from p have st: "stem = to_string a" using addr_laws_parse [OF assms(1)] by simp
  show "name = file_name a prot"
    using s st by (auto simp: file_name_def dest: strip_suffix_SomeD)
  show "addr_parse K (to_string a) = Some a" using p st by simp
qed

lemma decode_name_iff:
  "addr_laws K \<Longrightarrow>
     decode_name K name = Some (a, prot) \<longleftrightarrow>
       name = file_name a prot \<and> addr_parse K (to_string a) = Some a"
  using decode_file_name decode_name_SomeD by metis

lemma file_name_inj:
  assumes "addr_laws K" and "addr_parse K (to_string a) = Some a"
    and "addr_parse K (to_string b) = Some b" and "file_name a p = file_name b q"
  shows "a = b \<and> p = q"
  using decode_file_name [OF assms(1,2), of p] decode_file_name [OF assms(1,3), of q] assms(4)
  by (metis option.inject prod.inject)

lemma SEALED_codes: "SEALED_SUFFIX = [46, 106, 115, 111, 110]"
  by (simp add: SEALED_SUFFIX_def lit_def)

lemma OPEN_codes: "OPEN_SUFFIX = [46, 111, 112, 101, 110, 46, 106, 115, 111, 110]"
  by (simp add: OPEN_SUFFIX_def lit_def)

lemma last_file_name: "last (file_name a prot) = 110"
  unfolding file_name_def SEALED_codes OPEN_codes by simp

lemma lock_not_key_file: "LOCK_FILE \<noteq> file_name a prot"
proof -
  have "last LOCK_FILE = 107" by (simp add: LOCK_FILE_def lit_def)
  then show ?thesis using last_file_name [of a prot] by auto
qed

lemma stage_not_key_file:
  assumes "addr_laws K" and "addr_parse K (to_string b) = Some b"
  shows "stage_dir a \<noteq> file_name b prot"
proof
  assume e: "stage_dir a = file_name b prot"
  have d: "set (to_string b) \<subseteq> hex_digits" and n: "length (to_string b) = 64"
    using addr_laws_digits [OF assms] addr_laws_length [OF assms] .
  have "hd (file_name b prot) \<in> hex_digits"
    using d n by (cases "to_string b") (auto simp: file_name_def)
  then show False using e [symmetric] dot_not_hex
    by (simp add: stage_dir_def lit_def)
qed

lemma stage_not_lock: "stage_dir a \<noteq> LOCK_FILE"
  by (simp add: stage_dir_def LOCK_FILE_def lit_def)

section \<open>The listing\<close>

definition decoded :: "keys \<Rightarrow> fname \<Rightarrow> StoredAccount option" where
  "decoded K n = (case n of NotUtf8 k \<Rightarrow> None
     | Utf8 name \<Rightarrow> map_option (\<lambda>(a, p). StoredAccount a p) (decode_name K name))"

lemma map_filter_Cons:
  "List.map_filter f (x # xs) =
     (case f x of None \<Rightarrow> List.map_filter f xs | Some y \<Rightarrow> y # List.map_filter f xs)"
  by (simp add: List.map_filter_simps)

lemma list_ex_addr: "list_ex (\<lambda>h. addr h = a) hs \<longleftrightarrow> a \<in> addr ` set hs"
  by (auto simp: list_ex_iff)

lemma decoded_Some:
  assumes "addr_laws K"
  shows "decoded K n = Some (StoredAccount a p) \<longleftrightarrow>
     n = Utf8 (file_name a p) \<and> addr_parse K (to_string a) = Some a"
  using decode_name_iff [OF assms] by (auto simp: decoded_def split: fname.splits)

lemma accounts_loop_Cons:
  "accounts_loop K s (n # ns) held =
     (case entry_fault s n of
        Some e \<Rightarrow> Inl (Io e)
      | None \<Rightarrow>
          (case decoded K n of
             None \<Rightarrow> accounts_loop K s ns held
           | Some h \<Rightarrow>
               if list_ex (\<lambda>h'. addr h' = addr h) held
               then Inl (Corrupt (to_string (addr h) @ lit '' is held both with and without a password''))
               else accounts_loop K s ns (held @ [h])))"
  by (auto simp: decoded_def split: option.splits fname.splits)

lemma accounts_loop_Inr:
  "accounts_loop K s ns held = Inr hs \<Longrightarrow> distinct (map addr held) \<Longrightarrow>
     hs = held @ List.map_filter (decoded K) ns \<and> distinct (map addr hs)"
proof (induction ns arbitrary: held)
  case Nil
  then show ?case by (simp add: List.map_filter_simps)
next
  case (Cons n ns)
  from Cons.prems show ?case
    by (auto simp: accounts_loop_Cons map_filter_Cons list_ex_addr
        simp del: accounts_loop.simps split: option.splits if_splits dest!: Cons.IH)
qed

lemma accounts_loop_complete:
  "(\<forall>n \<in> set ns. entry_fault s n = None) \<Longrightarrow>
     distinct (map addr (held @ List.map_filter (decoded K) ns)) \<Longrightarrow>
     accounts_loop K s ns held = Inr (held @ List.map_filter (decoded K) ns)"
proof (induction ns arbitrary: held)
  case Nil
  then show ?case by (simp add: List.map_filter_simps)
next
  case (Cons n ns)
  then show ?case
    by (cases "decoded K n")
      (auto simp: accounts_loop_Cons map_filter_Cons list_ex_addr simp del: accounts_loop.simps)
qed

text \<open>A key file of the account is in the directory.\<close>

definition key_file :: "keys \<Rightarrow> fs \<Rightarrow> AccountAddr \<Rightarrow> bool \<Rightarrow> bool" where
  "key_file K s a prot \<longleftrightarrow>
     node_at (Utf8 (file_name a prot)) s \<noteq> None \<and> addr_parse K (to_string a) = Some a"

lemma node_at_names: "node_at n s \<noteq> None \<longleftrightarrow> n \<in> set (map fst (nodes s))"
  by (force simp: node_at_def map_of_eq_None_iff)

lemma in_map_filter_decoded:
  assumes "addr_laws K"
  shows "StoredAccount a p \<in> set (List.map_filter (decoded K) ns) \<longleftrightarrow>
     Utf8 (file_name a p) \<in> set ns \<and> addr_parse K (to_string a) = Some a"
proof -
  have "y \<in> set (List.map_filter f ns) \<longleftrightarrow> (\<exists>n \<in> set ns. f n = Some y)"
    for y :: StoredAccount and f :: "fname \<Rightarrow> StoredAccount option"
    by (force simp: List.map_filter_def)
  then show ?thesis by (auto simp: decoded_Some [OF assms])
qed

lemma set_sort_key_iff [simp]: "set (sort_key f xs) = set xs"
  by simp

lemma vault_accounts_Inr:
  assumes "vault_accounts V s = Inr hs"
  shows "distinct (map addr hs)" and "sorted (map addr hs)"
    and "addr_laws (vkeys V) \<Longrightarrow> StoredAccount a p \<in> set hs \<longleftrightarrow> made s \<and> key_file (vkeys V) s a p"
proof -
  consider (empty) "hs = []" "\<not> made s"
    | (listed) held where "made s" "accounts_loop (vkeys V) s (map fst (nodes s)) [] = Inr held"
        "hs = sort_key (\<lambda>h. to_string (addr h)) held"
    using assms
    by (auto simp: vault_accounts_def read_dir_def split: sum.splits if_splits option.splits)
  then have "distinct (map addr hs) \<and> sorted (map addr hs) \<and>
      (addr_laws (vkeys V) \<longrightarrow> StoredAccount a p \<in> set hs \<longleftrightarrow> made s \<and> key_file (vkeys V) s a p)"
  proof cases
    case empty
    then show ?thesis by (simp add: key_file_def)
  next
    case listed
    from accounts_loop_Inr [OF listed(2)]
    have h: "held = List.map_filter (decoded (vkeys V)) (map fst (nodes s))"
      and d: "distinct (map addr held)" by auto
    have "mset (map addr hs) = mset (map addr held)"
      using listed(3) by simp
    then have d': "distinct (map addr hs)" using d by (metis mset_eq_imp_distinct_iff)
    have "sorted (map (\<lambda>h. to_string (addr h)) hs)" using listed(3) by simp
    then have s': "sorted (map addr hs)"
      by (simp add: sorted_map less_eq_AccountAddr_def)
    show ?thesis
      using d' s' h listed(1,3) in_map_filter_decoded [of "vkeys V" a p] node_at_names
      by (auto simp: key_file_def)
  qed
  then show "distinct (map addr hs)" and "sorted (map addr hs)"
    and "addr_laws (vkeys V) \<Longrightarrow> StoredAccount a p \<in> set hs \<longleftrightarrow> made s \<and> key_file (vkeys V) s a p"
    by blast+
qed

text \<open>
  The listing is a function of the key files: a directory with the same key files, that
  can be listed, lists the same accounts.
\<close>

lemma distinct_addr_unique:
  assumes "distinct (map addr xs)" and "sorted (map addr xs)"
    and "distinct (map addr ys)" and "sorted (map addr ys)" and "set xs = set ys"
  shows "xs = ys"
proof -
  have m: "map addr xs = map addr ys"
    using assms by (metis list.set_map sorted_distinct_set_unique)
  have inj: "inj_on addr (set xs \<union> set ys)"
    using assms(1,5) by (simp add: distinct_map)
  show ?thesis by (rule iffD1 [OF inj_on_map_eq_map [OF inj] m])
qed

definition readable :: "fs \<Rightarrow> bool" where
  "readable s \<longleftrightarrow> list_fault s = None \<and> (\<forall>n. entry_fault s n = None) \<and> (\<forall>n. read_fault s n = None)"

lemma readable_environs: "environs s' = environs s \<Longrightarrow> readable s \<Longrightarrow> readable s'"
  by (simp add: readable_def environs_def)

end
