(* ===== verification/Vault_Facts.thy ===== *)
theory Vault_Facts
  imports Vault_Names
begin

text \<open>
  The vault's operations under every schedule of failing system calls: which entries of
  the directory each can change, what a create that returned left on disk, and that a
  failed create or forget left every key file as it was.
\<close>

section \<open>The vault's invariant\<close>

text \<open>
  The directory can be read, no name appears twice in it, and no account has both a sealed
  and an open file.
\<close>

definition vault_ok :: "keys \<Rightarrow> fs \<Rightarrow> bool" where
  "vault_ok K s \<longleftrightarrow> readable s \<and> wf_fs s \<and> (\<forall>a. \<not> (key_file K s a True \<and> key_file K s a False))
     \<and> (made s \<or> (\<forall>a p. \<not> key_file K s a p))"

lemma key_file_unique:
  "vault_ok K s \<Longrightarrow> key_file K s a p \<Longrightarrow> key_file K s a q \<Longrightarrow> p = q"
  unfolding vault_ok_def by (cases p; cases q) auto

lemma map_filter_decoded_distinct:
  assumes "addr_laws K" and "distinct ns"
    and "\<And>a. \<not> (Utf8 (file_name a True) \<in> set ns \<and> Utf8 (file_name a False) \<in> set ns
                 \<and> addr_parse K (to_string a) = Some a)"
  shows "distinct (map addr (List.map_filter (decoded K) ns))"
  using assms(2,3)
proof (induction ns)
  case Nil
  then show ?case by (simp add: List.map_filter_simps)
next
  case (Cons n ns)
  have IH: "distinct (map addr (List.map_filter (decoded K) ns))"
    using Cons.prems by (intro Cons.IH) auto
  show ?case
  proof (cases "decoded K n")
    case None
    with IH show ?thesis by (simp add: map_filter_Cons)
  next
    case (Some h)
    obtain a p where h: "h = StoredAccount a p" by (cases h)
    from Some h have n: "n = Utf8 (file_name a p)" and v: "addr_parse K (to_string a) = Some a"
      by (auto simp: decoded_Some [OF assms(1)])
    have "a \<notin> addr ` set (List.map_filter (decoded K) ns)"
    proof
      assume "a \<in> addr ` set (List.map_filter (decoded K) ns)"
      then obtain q where "StoredAccount a q \<in> set (List.map_filter (decoded K) ns)"
        by (metis StoredAccount.collapse imageE)
      then have q: "Utf8 (file_name a q) \<in> set ns"
        by (simp add: in_map_filter_decoded [OF assms(1)])
      moreover have "Utf8 (file_name a p) \<notin> set ns" using Cons.prems(1) n by simp
      ultimately have "q \<noteq> p" by (cases q; cases p) simp_all
      then show False using Cons.prems(2) [of a] q n v by (cases p; cases q) auto
    qed
    with IH Some h show ?thesis by (simp add: map_filter_Cons)
  qed
qed

lemma vault_accounts_total:
  assumes "addr_laws (vkeys V)" and "vault_ok (vkeys V) s"
  shows "\<exists>hs. vault_accounts V s = Inr hs"
proof (cases "made s")
  case False
  then show ?thesis by (simp add: vault_accounts_def read_dir_def)
next
  case True
  have r: "list_fault s = None" "\<forall>n. entry_fault s n = None" and w: "distinct (map fst (nodes s))"
    using assms(2) by (simp_all add: vault_ok_def readable_def wf_fs_def)
  have "\<not> (Utf8 (file_name a True) \<in> set (map fst (nodes s)) \<and> Utf8 (file_name a False) \<in> set (map fst (nodes s))
         \<and> addr_parse (vkeys V) (to_string a) = Some a)" for a
    using assms(2) True unfolding vault_ok_def key_file_def node_at_names by blast
  with w have "distinct (map addr (List.map_filter (decoded (vkeys V)) (map fst (nodes s))))"
    by (intro map_filter_decoded_distinct [OF assms(1)])
  then have "accounts_loop (vkeys V) s (map fst (nodes s)) [] =
      Inr (List.map_filter (decoded (vkeys V)) (map fst (nodes s)))"
    using r accounts_loop_complete [of "map fst (nodes s)" s "[]" "vkeys V"] by simp
  then show ?thesis using r True by (simp add: vault_accounts_def read_dir_def)
qed

lemma vault_accounts_mem:
  assumes "addr_laws (vkeys V)" and "vault_ok (vkeys V) s" and "vault_accounts V s = Inr hs"
  shows "h \<in> set hs \<longleftrightarrow> key_file (vkeys V) s (addr h) (protected h)"
  using vault_accounts_Inr(3) [OF assms(3,1), of "addr h" "protected h"] assms(2)
  by (auto simp: vault_ok_def)

lemma vault_accounts_addrs:
  assumes "addr_laws (vkeys V)" and "vault_ok (vkeys V) s" and "vault_accounts V s = Inr hs"
  shows "a \<in> addr ` set hs \<longleftrightarrow> (\<exists>p. key_file (vkeys V) s a p)"
proof
  assume "a \<in> addr ` set hs"
  then obtain h where "h \<in> set hs" "a = addr h" by blast
  then show "\<exists>p. key_file (vkeys V) s a p" using vault_accounts_mem [OF assms] by blast
next
  assume "\<exists>p. key_file (vkeys V) s a p"
  then obtain p where "key_file (vkeys V) s a p" by blast
  then have "StoredAccount a p \<in> set hs" using vault_accounts_mem [OF assms] by simp
  then show "a \<in> addr ` set hs" by force
qed

text \<open>The listing is a function of which key files there are.\<close>

lemma vault_accounts_same:
  assumes "addr_laws (vkeys V)" and "vault_accounts V s = Inr hs" and "vault_ok (vkeys V) s'"
    and "vault_ok (vkeys V) s" and "\<And>a p. key_file (vkeys V) s' a p = key_file (vkeys V) s a p"
  shows "vault_accounts V s' = Inr hs"
proof -
  obtain hs' where hs': "vault_accounts V s' = Inr hs'"
    using vault_accounts_total [OF assms(1,3)] by blast
  have "set hs' = set hs"
    using vault_accounts_mem [OF assms(1,3) hs'] vault_accounts_mem [OF assms(1,4,2)] assms(5) by blast
  then have "hs' = hs"
    using vault_accounts_Inr(1,2) [OF hs'] vault_accounts_Inr(1,2) [OF assms(2)]
    by (intro distinct_addr_unique)
  with hs' show ?thesis by simp
qed

lemma find_held_Inr:
  assumes "addr_laws (vkeys V)"
    and "vault_ok (vkeys V) s" and "find_held V a s = Inr h"
  shows "addr h = a \<and> key_file (vkeys V) s a (protected h)"
proof -
  obtain hs where hs: "vault_accounts V s = Inr hs" and f: "find (\<lambda>h. addr h = a) hs = Some h"
    using assms(3) by (auto simp: find_held_def bind_res_Inr split: option.splits)
  have "h \<in> set hs" and a: "addr h = a" using find_SomeD [OF f] by simp_all
  then have "key_file (vkeys V) s (addr h) (protected h)"
    using vault_accounts_mem [OF assms(1,2) hs] by blast
  with a show ?thesis by simp
qed

lemma find_held_complete:
  assumes "addr_laws (vkeys V)" and "vault_ok (vkeys V) s" and "key_file (vkeys V) s a p"
  shows "find_held V a s = Inr (StoredAccount a p)"
proof -
  obtain hs where hs: "vault_accounts V s = Inr hs"
    using vault_accounts_total [OF assms(1,2)] by blast
  have m: "StoredAccount a p \<in> set hs"
    using vault_accounts_mem [OF assms(1,2) hs] assms(3) by simp
  have "find (\<lambda>h. addr h = a) hs \<noteq> None"
    using m by (auto simp: find_None_iff)
  then obtain h where h: "find (\<lambda>h. addr h = a) hs = Some h" by blast
  then have "h \<in> set hs" "addr h = a" using find_SomeD [OF h] by simp_all
  then have "key_file (vkeys V) s a (protected h)"
    using vault_accounts_mem [OF assms(1,2) hs] by metis
  then have "protected h = p" using key_file_unique [OF assms(2)] assms(3) by blast
  with \<open>addr h = a\<close> have "h = StoredAccount a p" by (cases h) auto
  with hs h show ?thesis by (simp add: find_held_def)
qed

section \<open>What each step leaves alone\<close>

lemma lock_keeps [keeps_intros]: "Utf8 LOCK_FILE \<in> N \<Longrightarrow> keeps (frame N) lock"
  unfolding lock_def
  by (intro keeps_intros transp_frame) (auto simp: keeps_def split: sum.splits)

lemma drop_stage_frame [intro]: "Utf8 d \<in> N \<Longrightarrow> frame N s (drop_stage d s)"
  unfolding drop_stage_def using keeps_entry_calls(3) [of d N] by (auto simp: keeps_def)

lemma stage_create_keeps [keeps_intros]: "Utf8 d \<in> N \<Longrightarrow> keeps (frame N) (stage_create d)"
proof -
  assume d: "Utf8 d \<in> N"
  have "keeps (frame N) (\<lambda>s. case set_permissions d (octal 7 0 0) s of
         (Inl e, s') \<Rightarrow> (Inl e, drop_stage d s') | (Inr u, s') \<Rightarrow> (Inr u, s'))"
    unfolding keeps_def
    using keepsD [OF keeps_entry_calls(1) [OF d]] frame_trans drop_stage_frame [OF d]
    by (auto split: prod.splits sum.splits) blast+
  then show ?thesis unfolding stage_create_def
    by (intro keeps_intros transp_frame d)
qed

lemma seal_keeps [keeps_intros]: "Utf8 d \<in> N \<Longrightarrow> keeps (frame N) (seal V d key pw ent)"
  unfolding seal_def by (auto intro!: keeps_intros split: sum.splits)

lemma write_open_keeps [keeps_intros]: "Utf8 d \<in> N \<Longrightarrow> keeps (frame N) (write_open V d a key)"
  unfolding write_open_def by (intro keeps_intros)

lemma promote_keeps [keeps_intros]:
  "Utf8 d \<in> N \<Longrightarrow> Utf8 dest \<in> N \<Longrightarrow> keeps (frame N) (promote d dest)"
  unfolding promote_def by (intro keeps_intros transp_frame)

lemma io_keeps [keeps_intros]: "keeps R m \<Longrightarrow> keeps R (io m)"
  unfolding io_def by (rule keeps_intros)

lemma io_Inr [simp]: "io m s = (Inr r, s') \<longleftrightarrow> m s = (Inr r, s')"
  by (auto simp: io_def map_err_op_def split: prod.splits)

lemma io_Inl: "io m s = (Inl e, s') \<longleftrightarrow> (\<exists>e0. m s = (Inl e0, s') \<and> e = Io e0)"
  by (auto simp: io_def map_err_op_def map_err_Inl split: prod.splits)

subsection \<open>Promotion\<close>

lemma rename_out_Inl: "rename_out d n m s = (Inl e, s') \<Longrightarrow> frame {} s s'"
  by (auto simp: rename_out_def sys_call_def Let_def untouched_def split: option.splits node.splits if_splits)

lemma promote_Inl:
  assumes "promote d dest s = (Inl e, s')"
  shows "frame {Utf8 d} s s'"
proof -
  have p: "keeps (frame {Utf8 d}) (set_permissions_in d STAGED_FILE (octal 6 0 0))"
    "keeps (frame {Utf8 d}) (sync_in d STAGED_FILE)"
    by (intro keeps_intros; simp)+
  show ?thesis
    using assms unfolding promote_def and_then_Inl and_then_Inr ignoring_def
    by (auto dest!: keepsD [OF p(1)] keepsD [OF p(2)] rename_out_Inl
        intro: frame_trans frame_mono)
qed

lemma set_permissions_in_Inr:
  "set_permissions_in d n m s = (Inr u, s') \<Longrightarrow>
     \<exists>f. file_in d n s = Some f \<and> file_in d n s' = Some (f\<lparr>fmode := m\<rparr>)"
  by (auto simp: set_permissions_in_def file_in_def put_in_def dest!: sys_call_Inr
      split: option.splits node.splits)

lemma sync_in_Inr: "sync_in d n s = (Inr u, s') \<Longrightarrow> file_in d n s' = file_in d n s"
  by (auto simp: sync_in_def file_in_def dest!: sys_call_Inr split: option.splits)

lemma rename_out_Inr:
  "rename_out d n m s = (Inr u, s') \<Longrightarrow>
     \<exists>f. file_in d n s = Some f \<and> node_at (Utf8 m) s' = Some (File f)"
  by (auto simp: rename_out_def file_in_def dest!: sys_call_Inr split: option.splits node.splits if_splits)

lemma write_in_Inr:
  "write_in d n text s = (Inr u, s') \<Longrightarrow> \<exists>f. file_in d n s' = Some f \<and> data f = Utf8Text text"
  by (auto simp: write_in_def file_in_def put_in_def is_folder_def file_with_def dest!: sys_call_Inr
      split: option.splits node.splits if_splits)

lemma promote_Inr:
  assumes "promote d dest s = (Inr u, s')"
  shows "\<exists>f. file_in d STAGED_FILE s = Some f \<and> node_at (Utf8 dest) s' = Some (File (f\<lparr>fmode := octal 6 0 0\<rparr>))"
proof -
  obtain s1 s2 s3 where 1: "set_permissions_in d STAGED_FILE (octal 6 0 0) s = (Inr (), s1)"
    and 2: "sync_in d STAGED_FILE s1 = (Inr (), s2)"
    and 3: "rename_out d STAGED_FILE dest s2 = (Inr (), s3)" and 4: "s' = snd (sync_dir s3)"
    using assms unfolding promote_def and_then_Inr ignoring_def by auto
  have "node_at (Utf8 dest) s' = node_at (Utf8 dest) s3"
    using 4 keeps_directory_calls(3) [of "{}"] by (metis keeps_def frame_node empty_iff)
  with set_permissions_in_Inr [OF 1] sync_in_Inr [OF 2] rename_out_Inr [OF 3] show ?thesis
    by auto
qed

section \<open>Create\<close>

text \<open>
  What a create may touch, however it ends; and the file an account's key goes into is
  touched by a create that returned only.
\<close>

lemma create_staged_keeps:
  assumes "Utf8 (stage_dir a) \<in> N" and "Utf8 LOCK_FILE \<in> N"
    and "Utf8 (file_name a (pw \<noteq> None)) \<in> N"
  shows "keeps (frame N) (create_staged V a key pw ent)"
  unfolding create_staged_def
  using assms by (auto intro!: keeps_intros split: option.splits)

lemma create_staged_Inl:
  assumes "create_staged V a key pw ent s = (Inl e, s')"
  shows "frame {Utf8 (stage_dir a), Utf8 LOCK_FILE} s s'"
proof -
  let ?N = "{Utf8 (stage_dir a), Utf8 LOCK_FILE}"
  have w: "keeps (frame ?N) (case pw of Some p \<Rightarrow> seal V (stage_dir a) key p ent
              | None \<Rightarrow> write_open V (stage_dir a) a key)"
    by (auto intro!: keeps_intros split: option.splits)
  have l: "keeps (frame ?N) lock" by (intro keeps_intros) simp
  show ?thesis
    using assms unfolding create_staged_def and_then_Inl io_Inr io_Inl of_read_def
    by (auto simp: fail_def ok_def and_then_Inl io_Inl split: if_splits
        dest!: keepsD [OF w] keepsD [OF l] promote_Inl intro: frame_trans frame_mono)
qed

lemma create_Inl_frame:
  assumes "vault_create V key pw ent s = (Inl e, s')"
  shows "frame {Utf8 (stage_dir (addr_of (vkeys V) key)), Utf8 LOCK_FILE} s s'"
proof -
  let ?d = "stage_dir (addr_of (vkeys V) key)"
  let ?N = "{Utf8 ?d, Utf8 LOCK_FILE}"
  have k: "keeps (frame ?N) create_dir_all" "keeps (frame ?N) (set_dir_mode (octal 7 0 0))"
    "keeps (frame ?N) (stage_create ?d)"
    by (intro keeps_intros; simp)+
  have d: "frame ?N t (drop_stage ?d t)" for t by auto
  show ?thesis
  proof (cases "pw = Some []")
    case True
    with assms show ?thesis by (simp add: vault_create_def fail_def)
  next
    case False
    then show ?thesis
      using assms unfolding vault_create_def Let_def and_then_Inl io_Inl io_Inr with_drop_eq
      by (auto simp: and_then_Inl io_Inl with_drop_eq dest!: keepsD [OF k(1)] keepsD [OF k(2)] keepsD [OF k(3)]
          create_staged_Inl intro: frame_trans [OF _ d] frame_trans)
  qed
qed

text \<open>The text of the file a create writes.\<close>

definition vault_text :: "vault_crates \<Rightarrow> SigningKey \<Rightarrow> rstr option \<Rightarrow> nat \<Rightarrow> rstr \<Rightarrow> bool" where
  "vault_text V key pw ent text \<longleftrightarrow>
     (case pw of Some p \<Rightarrow> encrypt_key V ent key p = Inr text
      | None \<Rightarrow> text = write_open_document V (addr_of (vkeys V) key) key)"

lemma seal_Inr:
  "seal V d key p ent s = (Inr u, s') \<Longrightarrow>
     \<exists>text f. encrypt_key V ent key p = Inr text \<and> file_in d STAGED_FILE s' = Some f \<and> data f = Utf8Text text"
  by (auto simp: seal_def fail_def map_err_op_def dest!: write_in_Inr split: sum.splits prod.splits)

lemma create_staged_Inr:
  assumes "create_staged V a key pw ent s = (Inr b, s')" and "a = addr_of (vkeys V) key"
  obtains hs s2 f body where "b = a" and "vault_accounts V s2 = Inr hs" and "a \<notin> addr ` set hs"
    and "frame {Utf8 (stage_dir a), Utf8 LOCK_FILE} s s2"
    and "node_at (Utf8 (file_name a (pw \<noteq> None))) s' = Some (File f)"
    and "data f = Utf8Text body" and "fmode f = octal 6 0 0" and "vault_text V key pw ent body"
    and "frame {Utf8 (stage_dir a), Utf8 LOCK_FILE, Utf8 (file_name a (pw \<noteq> None))} s s'"
proof -
  let ?d = "stage_dir a"
  let ?N = "{Utf8 ?d, Utf8 LOCK_FILE}"
  let ?w = "case pw of Some p \<Rightarrow> seal V ?d key p ent | None \<Rightarrow> write_open V ?d a key"
  obtain s1 s2 hs where 1: "?w s = (Inr (), s1)" and 2: "lock s1 = (Inr (), s2)"
    and hs: "vault_accounts V s2 = Inr hs" and free: "a \<notin> addr ` set hs"
    and 3: "promote ?d (file_name a (pw \<noteq> None)) s2 = (Inr (), s')" and b: "b = a"
    using assms(1) unfolding create_staged_def and_then_Inr io_Inr of_read_def
    by (auto simp: fail_def ok_def and_then_Inr list_ex_addr split: if_splits)
  have w: "keeps (frame ?N) ?w" by (auto intro!: keeps_intros split: option.splits)
  have l: "keeps (frame ?N) lock" "keeps (frame {Utf8 LOCK_FILE}) lock" by (intro keeps_intros; simp)+
  have f12: "frame ?N s s2" using keepsD [OF w 1] keepsD [OF l(1) 2] by (rule frame_trans)
  obtain body f where f: "file_in ?d STAGED_FILE s1 = Some f" "data f = Utf8Text body"
    and t: "vault_text V key pw ent body"
    using 1 assms(2) by (auto simp: vault_text_def write_open_def dest!: seal_Inr write_in_Inr split: option.splits)
  have "file_in ?d STAGED_FILE s2 = Some f"
    using file_in_frame [OF keepsD [OF l(2) 2]] stage_not_lock f(1) by simp
  with promote_Inr [OF 3] f(2)
  have n: "node_at (Utf8 (file_name a (pw \<noteq> None))) s' = Some (File (f\<lparr>fmode := octal 6 0 0\<rparr>))"
    by simp
  have "keeps (frame {Utf8 ?d, Utf8 LOCK_FILE, Utf8 (file_name a (pw \<noteq> None))})
      (create_staged V a key pw ent)" by (rule create_staged_keeps) simp_all
  from keepsD [OF this assms(1)] show ?thesis
    using that [OF b hs free f12 n _ _ t] f(2) by simp
qed

lemma create_dir_all_made: "create_dir_all s = (Inr u, s') \<Longrightarrow> made s'"
  by (auto simp: create_dir_all_def dest!: sys_call_Inr)

lemma drop_stage_file:
  "node_at n s = Some (File f) \<Longrightarrow> node_at n (drop_stage d s) = Some (File f)"
  by (cases "n = Utf8 d")
    (auto simp: drop_stage_def remove_dir_all_def sys_call_def Let_def untouched_def
      split: option.splits node.splits)

lemma create_Inr:
  assumes "vault_create V key pw ent s = (Inr b, s')" and "a = addr_of (vkeys V) key"
  obtains hs s2 f body where "b = a" and "pw \<noteq> Some []"
    and "vault_accounts V s2 = Inr hs" and "a \<notin> addr ` set hs" and "made s2"
    and "frame {Utf8 (stage_dir a), Utf8 LOCK_FILE} s s2"
    and "node_at (Utf8 (file_name a (pw \<noteq> None))) s' = Some (File f)"
    and "data f = Utf8Text body" and "fmode f = octal 6 0 0" and "vault_text V key pw ent body"
    and "frame {Utf8 (stage_dir a), Utf8 LOCK_FILE, Utf8 (file_name a (pw \<noteq> None))} s s'"
    and "made s'"
proof -
  let ?d = "stage_dir a"
  let ?N = "{Utf8 ?d, Utf8 LOCK_FILE}"
  let ?M = "{Utf8 ?d, Utf8 LOCK_FILE, Utf8 (file_name a (pw \<noteq> None))}"
  obtain s1 s2 s3 s4 where 1: "create_dir_all s = (Inr (), s1)"
    and 2: "set_dir_mode (octal 7 0 0) s1 = (Inr (), s2)" and 3: "stage_create ?d s2 = (Inr (), s3)"
    and 4: "create_staged V a key pw ent s3 = (Inr b, s4)" and 5: "s' = drop_stage ?d s4"
    and p: "pw \<noteq> Some []"
    using assms unfolding vault_create_def Let_def
    by (auto simp: and_then_Inr with_drop_eq fail_def split: if_splits)
  have k: "keeps (frame {}) create_dir_all" "keeps (frame {}) (set_dir_mode (octal 7 0 0))"
    "keeps (frame {Utf8 ?d}) (stage_create ?d)" by (intro keeps_intros; simp)+
  have f13: "frame {Utf8 ?d} s1 s3" and f01: "frame {} s s1"
    using keepsD [OF k(1) 1] keepsD [OF k(2) 2] keepsD [OF k(3) 3]
    by (auto intro: frame_trans frame_mono)
  have m3: "made s3" using create_dir_all_made [OF 1] frame_made [OF f13] by blast
  have f03: "frame ?N s s3" using frame_trans [OF frame_mono [OF f01] frame_mono [OF f13], of ?N] by simp
  from create_staged_Inr [OF 4 assms(2)] obtain hs t f body where
    r: "b = a" "vault_accounts V t = Inr hs" "a \<notin> addr ` set hs" "frame ?N s3 t"
      "node_at (Utf8 (file_name a (pw \<noteq> None))) s4 = Some (File f)" "data f = Utf8Text body"
      "fmode f = octal 6 0 0" "vault_text V key pw ent body" "frame ?M s3 s4" by metis
  have f45: "frame {Utf8 ?d} s4 s'" using 5 by auto
  have n: "node_at (Utf8 (file_name a (pw \<noteq> None))) s' = Some (File f)"
    unfolding 5 by (rule drop_stage_file [OF r(5)])
  have f05: "frame ?M s s'"
    using frame_mono [OF f03, of ?M] r(9) frame_mono [OF f45, of ?M] by (auto intro: frame_trans)
  have "made s'" using m3 frame_made [OF r(9)] frame_made [OF f45] by blast
  moreover have "made t" using m3 frame_made [OF r(4)] by blast
  ultimately show ?thesis
    using that [OF r(1) p r(2,3) _ frame_trans [OF f03 r(4)] n r(6,7,8) f05] by blast
qed

lemma key_file_frame:
  assumes "addr_laws K" and "frame {Utf8 (stage_dir a), Utf8 LOCK_FILE} s s'"
  shows "key_file K s' b p = key_file K s b p"
  using frame_node [OF assms(2), of "Utf8 (file_name b p)"] stage_not_key_file [OF assms(1), of b a p]
    lock_not_key_file [of b p]
  by (auto simp: key_file_def) metis+

lemma vault_ok_frame:
  assumes "vault_ok K s" and "frame N s s'" and "\<And>a p. key_file K s' a p = key_file K s a p"
  shows "vault_ok K s'"
  using assms readable_environs [OF frame_environs [OF assms(2)]] frame_wf [OF assms(2)]
    frame_made [OF assms(2)]
  by (auto simp: vault_ok_def)

text \<open>A create that failed changed no key file; one that returned added exactly one.\<close>

lemma create_failed:
  assumes "addr_laws (vkeys V)" and "vault_ok (vkeys V) s" and "vault_create V key pw ent s = (Inl e, s')"
  shows "vault_ok (vkeys V) s'" and "vault_accounts V s' = vault_accounts V s"
    and "key_file (vkeys V) s' b p = key_file (vkeys V) s b p"
proof -
  note f = create_Inl_frame [OF assms(3)]
  have k: "key_file (vkeys V) s' b p = key_file (vkeys V) s b p" for b p
    by (rule key_file_frame [OF assms(1) f])
  show v: "vault_ok (vkeys V) s'" by (rule vault_ok_frame [OF assms(2) f k])
  obtain hs where "vault_accounts V s = Inr hs" using vault_accounts_total [OF assms(1,2)] by blast
  with vault_accounts_same [OF assms(1) this v assms(2) k]
  show "vault_accounts V s' = vault_accounts V s" by simp
  show "key_file (vkeys V) s' b p = key_file (vkeys V) s b p" by (rule k)
qed

text \<open>
  An account's file put where there was none: the accounts held are those held before and
  this one, and no account is held twice.
\<close>

lemma key_file_added:
  assumes "addr_laws K" and "addr_parse K (to_string a) = Some a"
    and "frame {Utf8 (stage_dir a), Utf8 LOCK_FILE, Utf8 (file_name a q)} s s'"
    and "node_at (Utf8 (file_name a q)) s' = Some (File f)"
  shows "key_file K s' b p \<longleftrightarrow> key_file K s b p \<or> (b = a \<and> p = q)"
proof -
  have "key_file K s' b p = key_file K s b p" if d: "(b, p) \<noteq> (a, q)"
  proof (cases "addr_parse K (to_string b) = Some b")
    case True
    have "file_name b p \<noteq> file_name a q"
      using file_name_inj [OF assms(1) True assms(2), of p q] d by blast
    then have "node_at (Utf8 (file_name b p)) s' = node_at (Utf8 (file_name b p)) s"
      using stage_not_key_file [OF assms(1) True] lock_not_key_file [of b p]
      by (intro frame_node [OF assms(3)]) (metis fname.inject(1) insertE singletonD)
    then show ?thesis by (simp add: key_file_def)
  qed (simp add: key_file_def)
  moreover have "key_file K s' a q" using assms(2,4) by (simp add: key_file_def)
  ultimately show ?thesis by (cases "(b, p) = (a, q)") blast+
qed

lemma vault_ok_added:
  assumes "vault_ok K s" and "frame N s s'" and "made s'" and "\<And>p. \<not> key_file K s a p"
    and "\<And>b p. key_file K s' b p \<longleftrightarrow> key_file K s b p \<or> (b = a \<and> p = q)"
  shows "vault_ok K s'"
proof -
  have "\<not> (key_file K s' b True \<and> key_file K s' b False)" for b
    using assms(1,4,5) unfolding vault_ok_def by metis
  then show ?thesis
    using readable_environs [OF frame_environs [OF assms(2)]] frame_wf [OF assms(2)] assms(1,3)
    by (auto simp: vault_ok_def)
qed

lemma create_returned:
  assumes "addr_laws (vkeys V)" and "vault_ok (vkeys V) s" and "length key = 32"
    and "vault_create V key pw ent s = (Inr a, s')"
  shows "vault_ok (vkeys V) s'" and "a = addr_of (vkeys V) key" and "pw \<noteq> Some []"
    and "\<not> key_file (vkeys V) s a p"
    and "key_file (vkeys V) s' b q \<longleftrightarrow> key_file (vkeys V) s b q \<or> (b = a \<and> q = (pw \<noteq> None))"
proof -
  let ?K = "vkeys V" and ?q = "pw \<noteq> None"
  from create_Inr [OF assms(4) refl] obtain hs t f where
    a: "a = addr_of ?K key" and pw: "pw \<noteq> Some []" and hs: "vault_accounts V t = Inr hs"
    and free: "addr_of ?K key \<notin> addr ` set hs" and mt: "made t"
    and ft: "frame {Utf8 (stage_dir (addr_of ?K key)), Utf8 LOCK_FILE} s t"
    and n: "node_at (Utf8 (file_name (addr_of ?K key) ?q)) s' = Some (File f)"
    and fr: "frame {Utf8 (stage_dir (addr_of ?K key)), Utf8 LOCK_FILE, Utf8 (file_name (addr_of ?K key) ?q)} s s'"
    and ms: "made s'" by metis
  have valid: "addr_parse ?K (to_string a) = Some a" using addr_laws_of [OF assms(1,3)] a by simp
  have kt: "key_file ?K t b p = key_file ?K s b p" for b p by (rule key_file_frame [OF assms(1) ft])
  have vt: "vault_ok ?K t" by (rule vault_ok_frame [OF assms(2) ft kt])
  have nofile: "\<not> key_file ?K s a p" for p
    using vault_accounts_addrs [OF assms(1) vt hs, of a] free a kt [of a p] by auto
  have upd: "key_file ?K s' b q \<longleftrightarrow> key_file ?K s b q \<or> (b = a \<and> q = ?q)" for b q
    using key_file_added [OF assms(1) valid fr [folded a] n [folded a]] .
  show "vault_ok ?K s'" by (rule vault_ok_added [OF assms(2) fr ms nofile upd])
  show "a = addr_of ?K key" "pw \<noteq> Some []" "\<not> key_file ?K s a p"
    "key_file ?K s' b q \<longleftrightarrow> key_file ?K s b q \<or> (b = a \<and> q = ?q)"
    by (fact a pw nofile upd)+
qed

end
