(* ===== verification/Vault_Contract.thy ===== *)
theory Vault_Contract
  imports Vault_Facts
begin

text \<open>
  What the rest of the program relies on from the vault: a created key opens with its
  password and with nothing else, an opened key is the account's own, a forget removes one
  account, the lock is waited for a bounded time, and the parameters of a sealed file
  bound the work of opening it. The vault as an interface is the locale \<open>key_store\<close>.
\<close>

section \<open>The lock\<close>

lemma lock_loop_taken:
  "lock_loop attempt late i now deadline = Inr j \<Longrightarrow>
     attempt j = LockTaken \<and> i \<le> j \<and> (\<forall>k. i \<le> k \<and> k < j \<longrightarrow> attempt k = LockWouldBlock)
     \<and> 25 * (j - i) \<le> (deadline - now) + 24"
proof (induction attempt late i now deadline rule: lock_loop.induct)
  case (1 attempt late i now deadline)
  show ?case
  proof (cases "attempt i = LockWouldBlock \<and> now < deadline")
    case True
    then have r: "lock_loop attempt late (Suc i) (now + 25 + late i) deadline = Inr j"
      using "1.prems" by (simp add: lock_loop.simps [of attempt late i])
    note IH = "1.IH" [OF conjunct1 [OF True] conjunct2 [OF True] r]
    have "attempt k = LockWouldBlock" if "i \<le> k" "k < j" for k
      using IH that True by (cases "k = i") auto
    moreover have "25 * (j - i) \<le> (deadline - now) + 24"
    proof -
      have "25 * (j - Suc i) \<le> (deadline - (now + 25 + late i)) + 24" and "Suc i \<le> j"
        and "now < deadline" using IH True by simp_all
      then show ?thesis by arith
    qed
    ultimately show ?thesis using IH by auto
  next
    case False
    then show ?thesis using "1.prems"
      by (auto simp: lock_loop.simps [of attempt late i] split: try_lock_result.splits if_splits)
  qed
qed

lemma lock_loop_busy:
  "(\<forall>k. i \<le> k \<and> 25 * (k - i) \<le> (deadline - now) + 24 \<longrightarrow> attempt k = LockWouldBlock) \<Longrightarrow>
     lock_loop attempt late i now deadline = Inl lock_busy"
proof (induction attempt late i now deadline rule: lock_loop.induct)
  case (1 attempt late i now deadline)
  have b: "attempt i = LockWouldBlock" using "1.prems" by simp
  show ?case
  proof (cases "now < deadline")
    case True
    have "\<forall>k. Suc i \<le> k \<and> 25 * (k - Suc i) \<le> (deadline - (now + 25 + late i)) + 24
        \<longrightarrow> attempt k = LockWouldBlock"
    proof (intro allI impI)
      fix k assume k: "Suc i \<le> k \<and> 25 * (k - Suc i) \<le> (deadline - (now + 25 + late i)) + 24"
      then have "25 * (k - i) \<le> (deadline - now) + 24 \<or> deadline < now + 25"
        by auto
      then show "attempt k = LockWouldBlock"
        using "1.prems" k True by (cases "k = Suc i") auto
    qed
    from "1.IH" [OF b True this] b True show ?thesis
      by (simp add: lock_loop.simps [of attempt late i])
  next
    case False
    with b show ?thesis by (simp add: lock_loop.simps [of attempt late i])
  qed
qed

section \<open>Opening\<close>

lemma vault_open_proof: "vault_open V a pw s = Inr k \<Longrightarrow> addr_of (vkeys V) k = a"
  by (auto simp: vault_open_def bind_res_Inr Let_def split: if_splits)

lemma vault_open_unheld:
  assumes "addr_laws (vkeys V)" and "vault_ok (vkeys V) s" and "\<And>p. \<not> key_file (vkeys V) s a p"
  shows "vault_open V a pw s = Inl NoAccount"
proof -
  obtain hs where hs: "vault_accounts V s = Inr hs" using vault_accounts_total [OF assms(1,2)] by blast
  have "a \<notin> addr ` set hs" using vault_accounts_addrs [OF assms(1,2) hs] assms(3) by blast
  then have "find (\<lambda>h. addr h = a) hs = None" by (auto simp: find_None_iff)
  with hs show ?thesis by (simp add: vault_open_def find_held_def)
qed

lemma vault_open_held:
  assumes "addr_laws (vkeys V)" and "vault_ok (vkeys V) s" and "key_file (vkeys V) s a p"
  shows "vault_open V a pw s =
    bind_res
      (case (p, pw) of
         (True, Some w) \<Rightarrow> open_sealed V (file_name a p) w s
       | (False, None) \<Rightarrow> read_open V (file_name a p) s
       | (True, None) \<Rightarrow> Inl PasswordRequired
       | (False, Some w) \<Rightarrow> Inl PasswordNotRequired) (\<lambda>key.
     if addr_of (vkeys V) key \<noteq> a
     then Inl (Corrupt (lit ''the file named for '' @ to_string a @ lit '' holds another account's key''))
     else Inr key)"
  by (cases p; cases pw) (simp_all add: vault_open_def find_held_complete [OF assms] Let_def)

text \<open>A create that returned left every file of an account held before as it was.\<close>

lemma vault_create_other_files:
  assumes "addr_laws (vkeys V)" and "vault_ok (vkeys V) s" and "length key = 32"
    and "vault_create V key pw ent s = (Inr a, s')" and "key_file (vkeys V) s b p"
  shows "node_at (Utf8 (file_name b p)) s' = node_at (Utf8 (file_name b p)) s"
proof -
  let ?a = "addr_of (vkeys V) key"
  have f: "frame {Utf8 (stage_dir ?a), Utf8 LOCK_FILE, Utf8 (file_name ?a (pw \<noteq> None))} s s'"
    using create_Inr [OF assms(4) refl] by metis
  have v: "addr_parse (vkeys V) (to_string b) = Some b" using assms(5) by (simp add: key_file_def)
  have w: "addr_parse (vkeys V) (to_string ?a) = Some ?a" by (rule addr_laws_of [OF assms(1,3)])
  have "b \<noteq> ?a" using assms(5) create_returned(2,4) [OF assms(1-4)] by blast
  then have "file_name b p \<noteq> file_name ?a (pw \<noteq> None)" using file_name_inj [OF assms(1) v w] by blast
  with frame_node [OF f, of "Utf8 (file_name b p)"] show ?thesis
    using stage_not_key_file [OF assms(1) v, of ?a p] lock_not_key_file [of b p] by auto
qed

text \<open>What the JSON crate and the keystore crate are relied on for.\<close>

definition open_json_law :: "vault_crates \<Rightarrow> bool" where
  "open_json_law V \<longleftrightarrow>
     (\<forall>d. open_parser V (concat (open_writer V d)) =
        Inr \<lparr>rd_logos_account_vault = od_logos_account_vault d, rd_key = Some (od_key d)\<rparr>)"

text \<open>
  The keystore crate writes scrypt at n = 2^13, r = 8, p = 1 (the product the comment on
  \<open>MAX_SCRYPT_WORK\<close> puts at one 32nd of the ceiling), a 32-byte derived key and a 16-byte
  IV in hex, and decrypts what it encrypted under the same password.
\<close>

definition written_params :: "vault_crates \<Rightarrow> Value \<Rightarrow> bool" where
  "written_params V v \<longleftrightarrow>
     (let crypto = value_index V v (lit ''crypto'');
          kdfparams = value_index V crypto (lit ''kdfparams'');
          iv = value_str V (value_index V (value_index V crypto (lit ''cipherparams'')) (lit ''iv'')) in
      value_is_str V (value_index V crypto (lit ''kdf'')) (lit ''scrypt'')
      \<and> (\<exists>names. value_keys V kdfparams = Some names \<and> set names \<subseteq> set scrypt_names)
      \<and> value_u64 V (value_index V kdfparams (lit ''dklen'')) = Some 32
      \<and> value_u64 V (value_index V kdfparams (lit ''n'')) = Some 8192
      \<and> value_u64 V (value_index V kdfparams (lit ''r'')) = Some 8
      \<and> value_u64 V (value_index V kdfparams (lit ''p'')) = Some 1
      \<and> (\<exists>t. iv = Some t \<and> str_len t = 32))"

definition keystore_law :: "vault_crates \<Rightarrow> bool" where
  "keystore_law V \<longleftrightarrow>
     (\<forall>ent k pw t. length k = 32 \<longrightarrow> encrypt_key V ent k pw = Inr t \<longrightarrow>
        decrypt_key V t pw = Inr k \<and> (\<exists>v. value_parser V t = Inr v \<and> written_params V v))"

lemma written_power: "is_power_of_two 8192"
  by (simp add: is_power_of_two_def list_ex_iff) (rule bexI [of _ 13]; simp)

lemma check_params_written:
  assumes "value_parser V t = Inr v" and "written_params V v"
  shows "check_params V t = Inr ()"
  using assms
  by (auto simp: check_params_def written_params_def Let_def written_power list_all_iff
      MAX_SCRYPT_N_def MAX_SCRYPT_R_def MAX_SCRYPT_P_def MAX_SCRYPT_WORK_def)

text \<open>What a create wrote reads back, wherever it is now.\<close>

lemma written_file_reads:
  assumes "hex_laws (vhex V)" and "open_json_law V" and "keystore_law V" and "length key = 32"
    and "read_to_string n s = Inr body" and "vault_text V key pw ent body"
  shows "(case pw of Some w \<Rightarrow> open_sealed V n w s | None \<Rightarrow> read_open V n s) = Inr key"
proof (cases pw)
  case None
  with assms(6) have "body = write_open_document V (addr_of (vkeys V) key) key" by (simp add: vault_text_def)
  then have "open_parser V body =
      Inr \<lparr>rd_logos_account_vault = 1, rd_key = Some (hex_encode (vhex V) key)\<rparr>"
    using assms(2) by (simp add: open_json_law_def write_open_document_def to_vec_sized_eq)
  moreover have "hex_decode_to_slice (vhex V) (hex_encode (vhex V) key) 32 = Inr key"
    using assms(1,4) unfolding hex_laws_def by metis
  ultimately show ?thesis using assms(5) None by (simp add: read_open_def)
next
  case (Some w)
  with assms(6) have "encrypt_key V ent key w = Inr body" by (simp add: vault_text_def)
  then obtain v where "decrypt_key V body w = Inr key" and "value_parser V body = Inr v"
    and "written_params V v" using assms(3,4) unfolding keystore_law_def by blast
  then show ?thesis using assms(4,5) Some by (simp add: open_sealed_def check_params_written)
qed

text \<open>
  A key file with the text a create writes opens, under the password it was written with,
  to the key it was written from; under another account's name, it is refused.
\<close>

lemma vault_open_written:
  assumes "addr_laws (vkeys V)" and "hex_laws (vhex V)" and "open_json_law V" and "keystore_law V"
    and "vault_ok (vkeys V) s" and "length key = 32" and "key_file (vkeys V) s b (pw \<noteq> None)"
    and "node_at (Utf8 (file_name b (pw \<noteq> None))) s = Some (File f)"
    and "data f = Utf8Text body" and "vault_text V key pw ent body"
  shows "vault_open V b pw s =
    (if addr_of (vkeys V) key \<noteq> b
     then Inl (Corrupt (lit ''the file named for '' @ to_string b @ lit '' holds another account's key''))
     else Inr key)"
proof -
  have "read_to_string (file_name b (pw \<noteq> None)) s = Inr body"
    using assms(5,8,9) by (simp add: read_to_string_def vault_ok_def readable_def)
  from written_file_reads [OF assms(2-4,6) this assms(10)] show ?thesis
    using vault_open_held [OF assms(1,5,7), of pw] by (cases pw) simp_all
qed

lemma written_file_opens:
  assumes "addr_laws (vkeys V)" and "hex_laws (vhex V)" and "open_json_law V" and "keystore_law V"
    and "vault_ok (vkeys V) s" and "length key = 32" and "a = addr_of (vkeys V) key"
    and "node_at (Utf8 (file_name a (pw \<noteq> None))) s = Some (File f)"
    and "data f = Utf8Text body" and "vault_text V key pw ent body"
  shows "vault_open V a pw s = Inr key"
proof -
  have "key_file (vkeys V) s a (pw \<noteq> None)"
    using assms(7,8) addr_laws_of [OF assms(1,6)] by (simp add: key_file_def)
  from vault_open_written [OF assms(1-6) this assms(8-10)] assms(7) show ?thesis by simp
qed

lemma create_open_roundtrip:
  assumes "addr_laws (vkeys V)" and "hex_laws (vhex V)" and "open_json_law V" and "keystore_law V"
    and "vault_ok (vkeys V) s" and "length key = 32"
    and "vault_create V key pw ent s = (Inr a, s')"
  shows "vault_open V a pw s' = Inr key"
proof -
  note ret = create_returned [OF assms(1,5,6,7)]
  from create_Inr [OF assms(7) ret(2)] obtain f body where
    "node_at (Utf8 (file_name a (pw \<noteq> None))) s' = Some (File f)"
    and "data f = Utf8Text body" and "vault_text V key pw ent body" by metis
  with written_file_opens [OF assms(1-4) ret(1) assms(6) ret(2)] show ?thesis by blast
qed

section \<open>Forgetting\<close>

lemma forget_keeps:
  assumes "vault_forget V a s = (r, s')"
  shows "\<exists>p. frame {Utf8 LOCK_FILE, Utf8 (file_name a p)} s s'"
proof (cases "find_held V a s")
  case (Inl e)
  then show ?thesis using assms by (simp add: vault_forget_def and_then_def of_read_def)
next
  case (Inr h)
  have "keeps (frame {Utf8 LOCK_FILE, Utf8 (file_name a (protected h))})
      (and_then (io lock) (\<lambda>_. io (remove_file (file_name a (protected h)))))"
    by (intro keeps_intros; simp)
  moreover have "and_then (io lock) (\<lambda>_. io (remove_file (file_name a (protected h)))) s = (r, s')"
    using Inr assms by (simp add: vault_forget_def and_then_def of_read_def)
  ultimately show ?thesis by (blast dest: keepsD)
qed

lemma remove_file_Inl: "remove_file n s = (Inl e, s') \<Longrightarrow> frame {} s s'"
  by (auto simp: remove_file_def sys_call_def Let_def untouched_def split: option.splits node.splits)

lemma remove_file_Inr: "remove_file n s = (Inr u, s') \<Longrightarrow> node_at (Utf8 n) s' = None"
  by (auto simp: remove_file_def dest!: sys_call_Inr split: option.splits node.splits)

lemma remove_file_was: "remove_file n s = (Inr u, s') \<Longrightarrow> \<exists>f. node_at (Utf8 n) s = Some (File f)"
  by (auto simp: remove_file_def dest!: sys_call_Inr split: option.splits node.splits)

lemma forget_failed:
  assumes "addr_laws (vkeys V)" and "vault_ok (vkeys V) s" and "vault_forget V a s = (Inl e, s')"
  shows "vault_ok (vkeys V) s'" and "vault_accounts V s' = vault_accounts V s"
    and "key_file (vkeys V) s' b p = key_file (vkeys V) s b p"
proof -
  have l: "keeps (frame {Utf8 (stage_dir a), Utf8 LOCK_FILE}) lock" by (intro keeps_intros) simp
  have f: "frame {Utf8 (stage_dir a), Utf8 LOCK_FILE} s s'"
    using assms(3) unfolding vault_forget_def and_then_Inl
    by (auto simp: of_read_def and_then_Inl io_Inl
        dest!: keepsD [OF l] remove_file_Inl intro: frame_trans frame_mono)
  have k: "key_file (vkeys V) s' b p = key_file (vkeys V) s b p" for b p
    by (rule key_file_frame [OF assms(1) f])
  show v: "vault_ok (vkeys V) s'" by (rule vault_ok_frame [OF assms(2) f k])
  obtain hs where "vault_accounts V s = Inr hs" using vault_accounts_total [OF assms(1,2)] by blast
  with vault_accounts_same [OF assms(1) this v assms(2) k]
  show "vault_accounts V s' = vault_accounts V s" by simp
  show "key_file (vkeys V) s' b p = key_file (vkeys V) s b p" by (rule k)
qed

text \<open>An account's file removed: the accounts held are those held before without it.\<close>

lemma key_file_removed:
  assumes "addr_laws K" and "vault_ok K s" and "key_file K s a p"
    and "frame {Utf8 LOCK_FILE, Utf8 (file_name a p)} s s'" and "node_at (Utf8 (file_name a p)) s' = None"
  shows "key_file K s' b q \<longleftrightarrow> key_file K s b q \<and> b \<noteq> a"
proof (cases "key_file K s b q \<and> b = a")
  case True
  then have "q = p" using key_file_unique [OF assms(2)] assms(3) by blast
  then show ?thesis using True assms(5) by (simp add: key_file_def)
next
  case False
  show ?thesis
  proof (cases "addr_parse K (to_string b) = Some b \<and> (b, q) \<noteq> (a, p)")
    case True
    then have "file_name b q \<noteq> file_name a p"
      using file_name_inj [OF assms(1), of b a q p] assms(3) by (auto simp: key_file_def)
    then have "node_at (Utf8 (file_name b q)) s' = node_at (Utf8 (file_name b q)) s"
      using lock_not_key_file [of b q] by (intro frame_node [OF assms(4)]) auto
    then show ?thesis using False by (auto simp: key_file_def)
  next
    case False
    then show ?thesis using assms(3,5) by (auto simp: key_file_def)
  qed
qed

lemma vault_ok_removed:
  assumes "vault_ok K s" and "frame N s s'"
    and "\<And>b q. key_file K s' b q \<Longrightarrow> key_file K s b q"
  shows "vault_ok K s'"
  using assms readable_environs [OF frame_environs [OF assms(2)]] frame_wf [OF assms(2)]
    frame_made [OF assms(2)]
  unfolding vault_ok_def by metis

lemma forget_returned:
  assumes "addr_laws (vkeys V)" and "vault_ok (vkeys V) s" and "vault_forget V a s = (Inr u, s')"
  shows "vault_ok (vkeys V) s'" and "\<exists>p. key_file (vkeys V) s a p"
    and "key_file (vkeys V) s' b q \<longleftrightarrow> key_file (vkeys V) s b q \<and> b \<noteq> a"
proof -
  let ?K = "vkeys V"
  obtain h s1 where h: "find_held V a s = Inr h" and 1: "lock s = (Inr (), s1)"
    and 2: "remove_file (file_name a (protected h)) s1 = (Inr (), s')"
    using assms(3) unfolding vault_forget_def and_then_Inr by (auto simp: of_read_def)
  let ?p = "protected h"
  have kf: "key_file ?K s a ?p" using find_held_Inr [OF assms(1,2) h] by blast
  then show "\<exists>p. key_file ?K s a p" by blast
  have k: "keeps (frame {Utf8 LOCK_FILE}) lock"
    "keeps (frame {Utf8 (file_name a ?p)}) (remove_file (file_name a ?p))"
    by (intro keeps_intros; simp)+
  let ?N = "{Utf8 LOCK_FILE, Utf8 (file_name a ?p)}"
  have f: "frame ?N s s'"
    using frame_mono [OF keepsD [OF k(1) 1], of ?N] frame_mono [OF keepsD [OF k(2) 2], of ?N]
    by (auto intro: frame_trans)
  have upd: "key_file ?K s' b q \<longleftrightarrow> key_file ?K s b q \<and> b \<noteq> a" for b q
    by (rule key_file_removed [OF assms(1,2) kf f remove_file_Inr [OF 2]])
  then show "key_file ?K s' b q \<longleftrightarrow> key_file ?K s b q \<and> b \<noteq> a" .
  show "vault_ok ?K s'" by (rule vault_ok_removed [OF assms(2) f]) (use upd in blast)
qed

text \<open>A forget leaves every other account's file as it was.\<close>

lemma forget_other_files:
  assumes "addr_laws (vkeys V)" and "vault_ok (vkeys V) s" and "vault_forget V a s = (r, s')"
    and "key_file (vkeys V) s b p" and "key_file (vkeys V) s a q" and "b \<noteq> a"
  shows "node_at (Utf8 (file_name b p)) s' = node_at (Utf8 (file_name b p)) s"
proof -
  obtain q' where f: "frame {Utf8 LOCK_FILE, Utf8 (file_name a q')} s s'"
    using forget_keeps [OF assms(3)] by blast
  have "file_name b p \<noteq> file_name a q'"
    using file_name_inj [OF assms(1), of b a p q'] assms(4-6) by (auto simp: key_file_def)
  with frame_node [OF f, of "Utf8 (file_name b p)"] lock_not_key_file [of b p] show ?thesis by auto
qed

end
