(* ===== verification/Failure_Atomic.thy ===== *)
theory Failure_Atomic
  imports Rust_Prelude
begin

text \<open>
  The contract the two stores on disk share: a command either fails and leaves what can be
  seen of the store as it was, or returns and has the one effect it is meant to have. From
  it follows what a whole session of commands, some failing, has done.
\<close>

definition is_ok :: "'e + 'r \<Rightarrow> bool" where
  "is_ok r \<longleftrightarrow> (case r of Inl e \<Rightarrow> False | Inr x \<Rightarrow> True)"

lemma is_ok_simps [simp]: "\<not> is_ok (Inl e)" "is_ok (Inr x)"
  by (simp_all add: is_ok_def)

definition void :: "('s, 'e, 'r) op \<Rightarrow> ('s, 'e, unit) op" where
  "void m = and_then m (\<lambda>_. ok ())"

lemma void_Inl [simp]: "void m s = (Inl e, s') \<longleftrightarrow> m s = (Inl e, s')"
  by (simp add: void_def and_then_Inl ok_def)

lemma void_Inr [simp]: "void m s = (Inr u, s') \<longleftrightarrow> (\<exists>r. m s = (Inr r, s'))"
  by (simp add: void_def and_then_Inr ok_def)

text \<open>A session: the commands in order, the outcome of each, and the state at the end.\<close>

fun session :: "('c \<Rightarrow> ('s, 'e, unit) op) \<Rightarrow> 'c list \<Rightarrow> 's \<Rightarrow> bool list \<times> 's" where
  "session step [] s = ([], s)"
| "session step (c # cs) s =
     (case step c s of (r, s1) \<Rightarrow>
        (case session step cs s1 of (oks, s2) \<Rightarrow> (is_ok r # oks, s2)))"

text \<open>What the commands that returned should have done, in order.\<close>

definition effects :: "('c \<Rightarrow> 'v \<Rightarrow> 'v) \<Rightarrow> ('c \<times> bool) list \<Rightarrow> 'v \<Rightarrow> 'v" where
  "effects eff log v = fold (\<lambda>(c, done) w. if done then eff c w else w) log v"

lemma effects_simps [simp]:
  "effects eff [] v = v"
  "effects eff ((c, done) # log) v = effects eff log (if done then eff c v else v)"
  by (simp_all add: effects_def)

locale failure_atomic =
  fixes good :: "'s \<Rightarrow> bool"
    and view :: "'s \<Rightarrow> 'v"
    and step :: "'c \<Rightarrow> ('s, 'e, unit) op"
    and eff :: "'c \<Rightarrow> 'v \<Rightarrow> 'v"
    and legal :: "'c \<Rightarrow> bool"
  assumes step_failed: "good s \<Longrightarrow> legal c \<Longrightarrow> step c s = (Inl e, s') \<Longrightarrow> good s' \<and> view s' = view s"
    and step_done: "good s \<Longrightarrow> legal c \<Longrightarrow> step c s = (Inr u, s') \<Longrightarrow> good s' \<and> view s' = eff c (view s)"
begin

lemma step_outcome:
  assumes "good s" and "legal c" and "step c s = (r, s')"
  shows "good s' \<and> view s' = (if is_ok r then eff c (view s) else view s)"
  using step_failed [OF assms(1,2)] step_done [OF assms(1,2)] assms(3) by (cases r) auto

lemma session_refines:
  "good s \<Longrightarrow> list_all legal cs \<Longrightarrow> session step cs s = (oks, s') \<Longrightarrow>
     good s' \<and> length oks = length cs \<and> view s' = effects eff (zip cs oks) (view s)"
proof (induction cs arbitrary: s oks)
  case Nil
  then show ?case by simp
next
  case (Cons c cs)
  obtain r s1 oks' where 1: "step c s = (r, s1)" and 2: "session step cs s1 = (oks', s')"
    and o: "oks = is_ok r # oks'"
    using Cons.prems(3) by (auto split: prod.splits)
  have 3: "good s1 \<and> view s1 = (if is_ok r then eff c (view s) else view s)"
    using step_outcome [OF _ _ 1] Cons.prems(1,2) by simp
  then have "good s' \<and> length oks' = length cs \<and> view s' = effects eff (zip cs oks') (view s1)"
    using Cons.IH [OF _ _ 2] Cons.prems(2) by simp
  with 3 o show ?case by simp
qed

text \<open>A session in which every command failed changed nothing.\<close>

lemma session_all_failed:
  assumes "good s" and "list_all legal cs" and "session step cs s = (oks, s')" and "True \<notin> set oks"
  shows "view s' = view s"
proof -
  have "effects eff (zip cs oks) v = v" for v
    using assms(4)
  proof (induction cs arbitrary: oks v)
    case Nil
    then show ?case by simp
  next
    case (Cons c cs)
    then show ?case by (cases oks) auto
  qed
  with session_refines [OF assms(1-3)] show ?thesis by simp
qed

end

end
