(* ===== verification/Key_Store.thy ===== *)
theory Key_Store
  imports Vault_Contract Failure_Atomic
begin

text \<open>
  The vault as the account manager sees it: a finite map from addresses to "sealed or
  not", with an insertion that never replaces and a removal. Both can fail at any system
  call, and then the map is what it was.
\<close>

datatype key_command = Insert SigningKey "rstr option" nat | Forget AccountAddr

fun key_step ::
  "(SigningKey \<Rightarrow> rstr option \<Rightarrow> nat \<Rightarrow> ('s, 'e, AccountAddr) op) \<Rightarrow> (AccountAddr \<Rightarrow> ('s, 'e, unit) op) \<Rightarrow>
   key_command \<Rightarrow> ('s, 'e, unit) op" where
  "key_step ins rem (Insert k pw n) = void (ins k pw n)"
| "key_step ins rem (Forget a) = rem a"

fun key_effect :: "(SigningKey \<Rightarrow> AccountAddr) \<Rightarrow> key_command \<Rightarrow> (AccountAddr \<rightharpoonup> bool) \<Rightarrow> (AccountAddr \<rightharpoonup> bool)" where
  "key_effect ka (Insert k pw n) m = m(ka k \<mapsto> pw \<noteq> None)"
| "key_effect ka (Forget a) m = m(a := None)"

fun key_legal :: "key_command \<Rightarrow> bool" where
  "key_legal (Insert k pw n) \<longleftrightarrow> length k = 32"
| "key_legal (Forget a) \<longleftrightarrow> True"

locale key_store =
  fixes good :: "'s \<Rightarrow> bool"
    and held :: "'s \<Rightarrow> AccountAddr \<Rightarrow> bool option"
    and insert_key :: "SigningKey \<Rightarrow> rstr option \<Rightarrow> nat \<Rightarrow> ('s, 'e, AccountAddr) op"
    and remove_key :: "AccountAddr \<Rightarrow> ('s, 'e, unit) op"
    and key_addr :: "SigningKey \<Rightarrow> AccountAddr"
  assumes insert_failed: "good s \<Longrightarrow> length k = 32 \<Longrightarrow> insert_key k pw n s = (Inl e, s') \<Longrightarrow>
      good s' \<and> held s' = held s"
    and insert_done: "good s \<Longrightarrow> length k = 32 \<Longrightarrow> insert_key k pw n s = (Inr a, s') \<Longrightarrow>
      good s' \<and> a = key_addr k \<and> held s a = None \<and> held s' = (held s)(a \<mapsto> pw \<noteq> None)"
    and remove_failed: "good s \<Longrightarrow> remove_key a s = (Inl e, s') \<Longrightarrow> good s' \<and> held s' = held s"
    and remove_done: "good s \<Longrightarrow> remove_key a s = (Inr u, s') \<Longrightarrow>
      good s' \<and> held s a \<noteq> None \<and> held s' = (held s)(a := None)"
begin

lemma insert_never_replaces:
  "good s \<Longrightarrow> length k = 32 \<Longrightarrow> held s (key_addr k) \<noteq> None \<Longrightarrow> \<not> is_ok (fst (insert_key k pw n s))"
  using insert_done by (cases "insert_key k pw n s"; cases "fst (insert_key k pw n s)") fastforce+

end

text \<open>A key store is failure atomic.\<close>

sublocale key_store \<subseteq> keyed: failure_atomic good held "key_step insert_key remove_key" "key_effect key_addr" key_legal
proof (unfold_locales, goal_cases)
  case (1 s c e s')
  then show ?case by (cases c) (auto dest: insert_failed remove_failed)
next
  case (2 s c u s')
  then show ?case by (cases c) (auto dest: insert_done remove_done)
qed

section \<open>The vault is a key store\<close>

definition vault_held :: "keys \<Rightarrow> fs \<Rightarrow> AccountAddr \<Rightarrow> bool option" where
  "vault_held K s a =
     (if key_file K s a True then Some True else if key_file K s a False then Some False else None)"

lemma vault_held_Some:
  "vault_ok K s \<Longrightarrow> vault_held K s a = Some p \<longleftrightarrow> key_file K s a p"
  using key_file_unique [of K s a True False] by (cases p) (auto simp: vault_held_def)

lemma vault_held_None: "vault_held K s a = None \<longleftrightarrow> (\<forall>p. \<not> key_file K s a p)"
  by (auto simp: vault_held_def) (metis (full_types))

lemma vault_held_accounts:
  assumes "addr_laws (vkeys V)" and "vault_ok (vkeys V) s" and "vault_accounts V s = Inr hs"
  shows "vault_held (vkeys V) s a = Some p \<longleftrightarrow> StoredAccount a p \<in> set hs"
  using vault_accounts_mem [OF assms, of "StoredAccount a p"] vault_held_Some [OF assms(2)] by simp

lemma vault_held_upd:
  assumes "\<And>a p. key_file K s' a p \<longleftrightarrow> Q a p" and "vault_ok K s'"
    and "\<And>a p. m a = Some p \<longleftrightarrow> Q a p"
  shows "vault_held K s' = m"
proof
  fix a
  show "vault_held K s' a = m a"
    using assms(1,3) vault_held_Some [OF assms(2), of a]
    by (metis not_None_eq)
qed

interpretation vault: key_store
  "\<lambda>s. addr_laws (vkeys V) \<and> vault_ok (vkeys V) s" "vault_held (vkeys V)"
  "vault_create V" "vault_forget V" "addr_of (vkeys V)"
  for V
proof (unfold_locales, goal_cases)
  case (1 s k pw n e s')
  then show ?case using create_failed [of V s k pw n e s'] by (auto simp: vault_held_def fun_eq_iff)
next
  case (2 s k pw n a s')
  then have s: "addr_laws (vkeys V)" "vault_ok (vkeys V) s" by simp_all
  note r = create_returned [OF s 2(2,3)]
  have "vault_held (vkeys V) s' = (vault_held (vkeys V) s)(a \<mapsto> pw \<noteq> None)"
    using r(4,5) vault_held_Some [OF s(2)]
    by (intro vault_held_upd [OF r(5) r(1)]) auto
  then show ?case using s r(1,2,4) by (simp add: vault_held_None)
next
  case (3 s a e s')
  then show ?case using forget_failed [of V s a e s'] by (auto simp: vault_held_def fun_eq_iff)
next
  case (4 s a u s')
  then have s: "addr_laws (vkeys V)" "vault_ok (vkeys V) s" by simp_all
  note r = forget_returned [OF s 4(2)]
  have "vault_held (vkeys V) s' = (vault_held (vkeys V) s)(a := None)"
    using r(3) vault_held_Some [OF s(2)]
    by (intro vault_held_upd [OF r(3) r(1)]) auto
  then show ?case using s r(1,2) vault_held_None by blast
qed

end
