(* ===== verification/Observed.thy ===== *)
theory Observed
  imports Vault_Contract
begin

text \<open>
  \<open>observed.rs\<close>: the list of accounts the app reads and holds no key for, one JSON document
  beside the vault's files, written whole under another name and renamed into place.
\<close>

section \<open>Definitions\<close>

definition OBSERVED_FILE :: rstr where "OBSERVED_FILE = lit ''observed.json''"
definition OBSERVED_STAGED :: rstr where "OBSERVED_STAGED = lit ''.observed.json.new''"
definition OBSERVED_VERSION :: nat where "OBSERVED_VERSION = 1"

datatype ObservedError = ListCorrupt rstr | ListIo io_error

record Document =
  logos_account_observed :: nat
  addresses :: "rstr list"

record observed_crates =
  okeys :: keys
  doc_writer :: "Document \<Rightarrow> rstr"            \<comment> \<open>\<open>serde_json::to_vec\<close>\<close>
  doc_parser :: "rstr \<Rightarrow> rstr + Document"     \<comment> \<open>\<open>serde_json::from_str\<close>, or the error's text\<close>

fun parse_all :: "keys \<Rightarrow> rstr list \<Rightarrow> ObservedError + AccountAddr list" where
  "parse_all K [] = Inr []"
| "parse_all K (t # ts) =
     (case addr_parse K t of
        None \<Rightarrow> Inl (ListCorrupt (t @ lit '' is not an address''))
      | Some a \<Rightarrow> bind_res (parse_all K ts) (\<lambda>obs. Inr (a # obs)))"

definition observed_list :: "observed_crates \<Rightarrow> fs \<Rightarrow> ObservedError + AccountAddr list" where
  "observed_list B s =
     (case read_to_string OBSERVED_FILE s of
        Inl e \<Rightarrow> if e = NotFound then Inr [] else Inl (ListIo e)
      | Inr text \<Rightarrow>
          bind_res (map_err ListCorrupt (doc_parser B text)) (\<lambda>document.
            if logos_account_observed document \<noteq> OBSERVED_VERSION
            then Inl (ListCorrupt (lit ''not a list this version writes''))
            else bind_res (parse_all (okeys B) (addresses document)) (\<lambda>obs.
              Inr (remdups_adj (sort_key to_string obs)))))"

definition observed_write :: "observed_crates \<Rightarrow> AccountAddr list \<Rightarrow> (fs, ObservedError, unit) op" where
  "observed_write B observed =
     (let document = doc_writer B
        \<lparr>logos_account_observed = OBSERVED_VERSION, addresses = sort (map to_string observed)\<rparr> in
      map_err_op ListIo (
        and_then create_dir_all (\<lambda>_.
        and_then (set_dir_mode (octal 7 0 0)) (\<lambda>_.
        and_then (write_file OBSERVED_STAGED document) (\<lambda>_.
        and_then (set_permissions OBSERVED_STAGED (octal 6 0 0)) (\<lambda>_.
        and_then (sync_file OBSERVED_STAGED) (\<lambda>_.
        and_then (rename OBSERVED_STAGED OBSERVED_FILE) (\<lambda>_.
        ignoring sync_dir))))))))"

definition observed_add :: "observed_crates \<Rightarrow> AccountAddr \<Rightarrow> (fs, ObservedError, bool) op" where
  "observed_add B a =
     and_then (of_read (observed_list B)) (\<lambda>observed.
       if a \<in> set observed then ok False
       else and_then (observed_write B (observed @ [a])) (\<lambda>_. ok True))"

definition observed_remove :: "observed_crates \<Rightarrow> AccountAddr \<Rightarrow> (fs, ObservedError, bool) op" where
  "observed_remove B a =
     and_then (of_read (observed_list B)) (\<lambda>observed.
       let kept = filter (\<lambda>held. held \<noteq> a) observed in
       if length kept = length observed then ok False
       else and_then (observed_write B kept) (\<lambda>_. ok True))"

section \<open>The list\<close>

definition doc_law :: "observed_crates \<Rightarrow> bool" where
  "doc_law B \<longleftrightarrow> (\<forall>d. doc_parser B (doc_writer B d) = Inr d)"

definition valid_addr :: "keys \<Rightarrow> AccountAddr \<Rightarrow> bool" where
  "valid_addr K a \<longleftrightarrow> addr_parse K (to_string a) = Some a"

lemma parse_all_Inr:
  "addr_laws K \<Longrightarrow> parse_all K ts = Inr obs \<Longrightarrow> map to_string obs = ts \<and> list_all (valid_addr K) obs"
proof (induction ts arbitrary: obs)
  case Nil
  then show ?case by simp
next
  case (Cons t ts)
  then show ?case
    by (auto simp: bind_res_Inr valid_addr_def split: option.splits) (simp_all add: addr_laws_parse)
qed

lemma parse_all_valid: "list_all (valid_addr K) obs \<Longrightarrow> parse_all K (map to_string obs) = Inr obs"
  by (induction obs) (auto simp: valid_addr_def)

lemma sorted_to_string: "sorted (map to_string obs) \<longleftrightarrow> sorted obs"
  by (simp add: sorted_map less_eq_AccountAddr_def [abs_def])

lemma sort_key_to_string: "sort_key to_string obs = sort obs"
  by (rule properties_for_sort [symmetric]) (simp_all add: sorted_to_string [symmetric])

lemma sort_map_to_string: "sort (map to_string obs) = map to_string (sort obs)"
  by (rule properties_for_sort) (simp_all add: sorted_to_string)

lemma observed_list_Inr:
  assumes "addr_laws (okeys B)" and "observed_list B s = Inr obs"
  shows "sorted obs" and "distinct obs" and "list_all (valid_addr (okeys B)) obs"
proof -
  consider "obs = []" | xs ts where "obs = remdups_adj (sort xs)" "parse_all (okeys B) ts = Inr xs"
    using assms(2) unfolding observed_list_def sort_key_to_string
    by (auto simp: bind_res_Inr split: sum.splits if_splits)
  then have "sorted obs \<and> distinct obs \<and> list_all (valid_addr (okeys B)) obs"
    using parse_all_Inr [OF assms(1)]
    by cases (auto simp: list_all_iff distinct_dedup)
  then show "sorted obs" "distinct obs" "list_all (valid_addr (okeys B)) obs" by simp_all
qed

lemma sorted_distinct_sort [simp]: "sorted obs \<Longrightarrow> remdups_adj (sort obs) = remdups_adj obs"
  by (simp add: sorted_sort_id)

text \<open>A document this build wrote is read back as the set it was written from.\<close>

lemma observed_list_written:
  assumes "doc_law B" and "readable s" and "list_all (valid_addr (okeys B)) obs"
    and "node_at (Utf8 OBSERVED_FILE) s = Some (File f)"
    and "data f = Utf8Text (doc_writer B \<lparr>logos_account_observed = OBSERVED_VERSION, addresses = sort (map to_string obs)\<rparr>)"
  shows "observed_list B s = Inr (sorted_list_of_set (set obs))"
proof -
  have "list_all (valid_addr (okeys B)) (sort obs)" using assms(3) by (simp add: list_all_iff)
  then have p: "parse_all (okeys B) (map to_string (sort obs)) = Inr (sort obs)"
    by (rule parse_all_valid)
  have "remdups_adj (sort obs) = sorted_list_of_set (set obs)"
    by (intro sorted_distinct_set_unique) (simp_all add: distinct_dedup)
  with p assms show ?thesis
    by (simp add: observed_list_def read_to_string_def readable_def doc_law_def sort_map_to_string
        sort_key_to_string sorted_sort_id)
qed

section \<open>What a write changes\<close>

lemma rename_Inl: "rename n m s = (Inl e, s') \<Longrightarrow> frame {} s s'"
  by (auto simp: rename_def sys_call_def Let_def untouched_def split: option.splits node.splits if_splits)

lemma rename_Inr:
  "rename n m s = (Inr u, s') \<Longrightarrow>
     \<exists>f. node_at (Utf8 n) s = Some (File f) \<and> node_at (Utf8 m) s' = Some (File f)"
  by (auto simp: rename_def dest!: sys_call_Inr split: option.splits node.splits if_splits)

lemma rename_gone: "rename n m s = (Inr u, s') \<Longrightarrow> n \<noteq> m \<Longrightarrow> node_at (Utf8 n) s' = None"
  by (auto simp: rename_def dest!: sys_call_Inr split: option.splits node.splits if_splits)

lemma write_file_Inr:
  "write_file n t s = (Inr u, s') \<Longrightarrow> \<exists>f. node_at (Utf8 n) s' = Some (File f) \<and> data f = Utf8Text t"
  by (auto simp: write_file_def put_file_def file_with_def dest!: sys_call_Inr
      split: option.splits node.splits if_splits)

lemma set_permissions_Inr:
  "set_permissions n m s = (Inr u, s') \<Longrightarrow> node_at (Utf8 n) s = Some (File f) \<Longrightarrow>
     node_at (Utf8 n) s' = Some (File (f\<lparr>fmode := m\<rparr>))"
  by (auto simp: set_permissions_def dest!: sys_call_Inr split: option.splits)

lemma sync_file_Inr: "sync_file n s = (Inr u, s') \<Longrightarrow> node_at m s' = node_at m s"
  by (auto simp: sync_file_def dest!: sys_call_Inr split: option.splits node.splits)

lemma staged_not_observed [simp]:
  "OBSERVED_STAGED \<noteq> OBSERVED_FILE" "OBSERVED_FILE \<noteq> OBSERVED_STAGED"
  by (simp_all add: OBSERVED_STAGED_def OBSERVED_FILE_def lit_def)

lemma observed_write_keeps [keeps_intros]:
  "Utf8 OBSERVED_STAGED \<in> N \<Longrightarrow> Utf8 OBSERVED_FILE \<in> N \<Longrightarrow> keeps (frame N) (observed_write B xs)"
  unfolding observed_write_def Let_def by (intro keeps_intros transp_frame; simp)

text \<open>A write that failed, at whichever call, left the list under its real name as it was.\<close>

lemma observed_write_Inl:
  assumes "observed_write B xs s = (Inl e, s')"
  shows "frame {Utf8 OBSERVED_STAGED} s s'"
proof -
  let ?N = "{Utf8 OBSERVED_STAGED}"
  have k: "keeps (frame ?N) create_dir_all" "keeps (frame ?N) (set_dir_mode (octal 7 0 0))"
    "keeps (frame ?N) (write_file OBSERVED_STAGED t)"
    "keeps (frame ?N) (set_permissions OBSERVED_STAGED (octal 6 0 0))"
    "keeps (frame ?N) (sync_file OBSERVED_STAGED)" for t
    by (intro keeps_intros; simp)+
  have r: "fails_within (frame ?N) (rename OBSERVED_STAGED OBSERVED_FILE)"
    using frame_mono [OF rename_Inl] by (auto simp: fails_within_def)
  have "fails_within (frame ?N) (observed_write B xs)"
    unfolding observed_write_def Let_def
    by (intro fails_within_map_err_op fails_within_and_then transp_frame k fails_within_last [OF r]) simp
  then show ?thesis using assms by (rule fails_withinD)
qed

lemma observed_write_Inr:
  assumes "observed_write B xs s = (Inr u, s')"
  shows "\<exists>f. node_at (Utf8 OBSERVED_FILE) s' = Some (File f) \<and> fmode f = octal 6 0 0
     \<and> data f = Utf8Text (doc_writer B \<lparr>logos_account_observed = OBSERVED_VERSION, addresses = sort (map to_string xs)\<rparr>)"
proof -
  let ?t = "doc_writer B \<lparr>logos_account_observed = OBSERVED_VERSION, addresses = sort (map to_string xs)\<rparr>"
  obtain s2 s3 s4 s5 s6 where 3: "write_file OBSERVED_STAGED ?t s2 = (Inr (), s3)"
    and 4: "set_permissions OBSERVED_STAGED (octal 6 0 0) s3 = (Inr (), s4)"
    and 5: "sync_file OBSERVED_STAGED s4 = (Inr (), s5)"
    and 6: "rename OBSERVED_STAGED OBSERVED_FILE s5 = (Inr (), s6)" and 7: "s' = snd (sync_dir s6)"
    using assms unfolding observed_write_def Let_def map_err_op_Inr and_then_Inr ignoring_def by auto
  obtain f where f: "node_at (Utf8 OBSERVED_STAGED) s3 = Some (File f)" "data f = Utf8Text ?t"
    using write_file_Inr [OF 3] by blast
  have "node_at (Utf8 OBSERVED_STAGED) s5 = Some (File (f\<lparr>fmode := octal 6 0 0\<rparr>))"
    using set_permissions_Inr [OF 4 f(1)] sync_file_Inr [OF 5] by simp
  then have "node_at (Utf8 OBSERVED_FILE) s6 = Some (File (f\<lparr>fmode := octal 6 0 0\<rparr>))"
    using rename_Inr [OF 6] by auto
  moreover have "node_at (Utf8 OBSERVED_FILE) s' = node_at (Utf8 OBSERVED_FILE) s6"
    using 7 keeps_directory_calls(3) [of "{}"] by (metis keeps_def frame_node empty_iff)
  ultimately show ?thesis using f(2) by auto
qed

lemma observed_list_frame:
  "frame N s s' \<Longrightarrow> Utf8 OBSERVED_FILE \<notin> N \<Longrightarrow> observed_list B s' = observed_list B s"
  using read_to_string_frame [of N s s' OBSERVED_FILE] by (simp add: observed_list_def)

section \<open>The observed list and the vault's files are apart\<close>

lemma observed_not_key_file:
  assumes "addr_laws K" and "addr_parse K (to_string a) = Some a"
  shows "OBSERVED_FILE \<noteq> file_name a p" and "OBSERVED_STAGED \<noteq> file_name a p"
proof -
  have "length (to_string a) = 64" using addr_laws_length [OF assms] .
  then have l: "length (file_name a p) \<ge> 64" by (simp add: file_name_def)
  have "length OBSERVED_FILE = 13" by (simp add: OBSERVED_FILE_def lit_def)
  then show "OBSERVED_FILE \<noteq> file_name a p" using l by auto
  have "length OBSERVED_STAGED = 18" by (simp add: OBSERVED_STAGED_def lit_def)
  then show "OBSERVED_STAGED \<noteq> file_name a p" using l by auto
qed

lemma observed_names_apart:
  "OBSERVED_FILE \<noteq> LOCK_FILE" "OBSERVED_FILE \<noteq> stage_dir a" 
  by (simp_all add: OBSERVED_FILE_def LOCK_FILE_def stage_dir_def lit_def)

lemma key_file_observed_frame:
  assumes "addr_laws K" and "frame {Utf8 OBSERVED_STAGED, Utf8 OBSERVED_FILE} s s'"
  shows "key_file K s' a p = key_file K s a p"
  using frame_node [OF assms(2), of "Utf8 (file_name a p)"] observed_not_key_file [OF assms(1)]
  by (auto simp: key_file_def) metis+

end
