(* ===== verification/Address_Book.thy ===== *)
theory Address_Book
  imports Observed Failure_Atomic
begin

text \<open>
  The observed list as an interface: a set of addresses, listed in address order, that
  grows and shrinks by one at a time and answers whether it changed.
\<close>

datatype book_command = Observe AccountAddr | Unobserve AccountAddr

fun book_step :: "(AccountAddr \<Rightarrow> ('s, 'e, bool) op) \<Rightarrow> (AccountAddr \<Rightarrow> ('s, 'e, bool) op) \<Rightarrow>
    book_command \<Rightarrow> ('s, 'e, unit) op" where
  "book_step add rem (Observe a) = void (add a)"
| "book_step add rem (Unobserve a) = void (rem a)"

fun book_effect :: "book_command \<Rightarrow> AccountAddr set \<Rightarrow> AccountAddr set" where
  "book_effect (Observe a) S = insert a S"
| "book_effect (Unobserve a) S = S - {a}"

fun book_legal :: "(AccountAddr \<Rightarrow> bool) \<Rightarrow> book_command \<Rightarrow> bool" where
  "book_legal valid (Observe a) \<longleftrightarrow> valid a"
| "book_legal valid (Unobserve a) \<longleftrightarrow> True"

definition listed :: "('s \<Rightarrow> 'e + AccountAddr list) \<Rightarrow> 's \<Rightarrow> AccountAddr set" where
  "listed listing s = (case listing s of Inl e \<Rightarrow> {} | Inr xs \<Rightarrow> set xs)"

locale address_book =
  fixes good :: "'s \<Rightarrow> bool"
    and listing :: "'s \<Rightarrow> 'e + AccountAddr list"
    and add :: "AccountAddr \<Rightarrow> ('s, 'e, bool) op"
    and remove :: "AccountAddr \<Rightarrow> ('s, 'e, bool) op"
    and valid :: "AccountAddr \<Rightarrow> bool"
  assumes listing_total: "good s \<Longrightarrow> listing s = Inr (sorted_list_of_set (listed listing s))"
    and listing_finite: "good s \<Longrightarrow> finite (listed listing s)"
    and add_failed: "good s \<Longrightarrow> add a s = (Inl e, s') \<Longrightarrow> good s' \<and> listing s' = listing s"
    and add_done: "good s \<Longrightarrow> valid a \<Longrightarrow> add a s = (Inr b, s') \<Longrightarrow>
      good s' \<and> listed listing s' = insert a (listed listing s) \<and> b = (a \<notin> listed listing s)"
    and remove_failed: "good s \<Longrightarrow> remove a s = (Inl e, s') \<Longrightarrow> good s' \<and> listing s' = listing s"
    and remove_done: "good s \<Longrightarrow> remove a s = (Inr b, s') \<Longrightarrow>
      good s' \<and> listed listing s' = listed listing s - {a} \<and> b = (a \<in> listed listing s)"
begin

lemma add_again:
  assumes "good s" and "valid a" and "add a s = (Inr b, s1)" and "add a s1 = (Inr c, s2)"
  shows "\<not> c \<and> listing s2 = listing s1"
proof -
  note 1 = add_done [OF assms(1-3)]
  then have g1: "good s1" by blast
  note 2 = add_done [OF g1 assms(2,4)]
  have "listed listing s2 = listed listing s1" using 1 2 by auto
  then show ?thesis using 1 2 listing_total [OF g1] listing_total [of s2] by auto
qed

lemma add_then_remove:
  assumes "good s" and "valid a" and "add a s = (Inr True, s1)" and "remove a s1 = (Inr c, s2)"
  shows "c \<and> listing s2 = listing s"
proof -
  note 1 = add_done [OF assms(1-3)]
  then have g1: "good s1" by blast
  note 2 = remove_done [OF g1 assms(4)]
  have "listed listing s2 = listed listing s" using 1 2 by auto
  then show ?thesis using 1 2 listing_total [OF assms(1)] listing_total [of s2] by auto
qed

end

sublocale address_book \<subseteq> booked: failure_atomic good "listed listing" "book_step add remove" book_effect "book_legal valid"
proof (unfold_locales, goal_cases)
  case (1 s c e s')
  have "good s' \<and> listing s' = listing s"
    using 1(3) add_failed [OF 1(1)] remove_failed [OF 1(1)] by (cases c) simp_all
  then show ?case by (simp add: listed_def)
next
  case (2 s c u s')
  show ?case
  proof (cases c)
    case (Observe a)
    with 2 obtain b where "add a s = (Inr b, s')" and "valid a" by auto
    with add_done [OF 2(1)] Observe show ?thesis by simp
  next
    case (Unobserve a)
    with 2 obtain b where "remove a s = (Inr b, s')" by auto
    with remove_done [OF 2(1)] Unobserve show ?thesis by simp
  qed
qed

section \<open>The observed list is an address book\<close>

definition observed_ok :: "observed_crates \<Rightarrow> fs \<Rightarrow> bool" where
  "observed_ok B s \<longleftrightarrow>
     addr_laws (okeys B) \<and> doc_law B \<and> readable s \<and> (\<exists>xs. observed_list B s = Inr xs)"

lemma observed_total:
  assumes "observed_ok B s"
  obtains xs where "observed_list B s = Inr xs" and "sorted xs" and "distinct xs"
    and "list_all (valid_addr (okeys B)) xs" and "listed (observed_list B) s = set xs"
    and "xs = sorted_list_of_set (set xs)"
proof -
  from assms obtain xs where x: "observed_list B s = Inr xs" and l: "addr_laws (okeys B)"
    by (auto simp: observed_ok_def)
  note i = observed_list_Inr [OF l x]
  have "xs = sorted_list_of_set (set xs)" using i(1,2)
    by (simp add: sorted_list_of_set.idem_if_sorted_distinct)
  with x i that show ?thesis by (simp add: listed_def)
qed

lemma observed_ok_frame:
  assumes "observed_ok B s" and "frame N s s'" and "\<exists>xs. observed_list B s' = Inr xs"
  shows "observed_ok B s'"
  using assms readable_environs [OF frame_environs [OF assms(2)]] by (simp add: observed_ok_def)

lemma observed_write_outcome:
  assumes "observed_ok B s" and "list_all (valid_addr (okeys B)) xs"
  shows "observed_write B xs s = (Inl e, s') \<Longrightarrow> observed_ok B s' \<and> observed_list B s' = observed_list B s"
    and "observed_write B xs s = (Inr u, s') \<Longrightarrow>
           observed_ok B s' \<and> observed_list B s' = Inr (sorted_list_of_set (set xs))"
proof -
  assume w: "observed_write B xs s = (Inl e, s')"
  note f = observed_write_Inl [OF w]
  have "observed_list B s' = observed_list B s" by (rule observed_list_frame [OF f]) simp
  then show "observed_ok B s' \<and> observed_list B s' = observed_list B s"
    using assms(1) observed_ok_frame [OF assms(1) f] by (simp add: observed_ok_def)
next
  assume w: "observed_write B xs s = (Inr u, s')"
  have f: "frame {Utf8 OBSERVED_STAGED, Utf8 OBSERVED_FILE} s s'"
    using keepsD [OF observed_write_keeps w] by simp
  have r: "readable s'" using assms(1) readable_environs [OF frame_environs [OF f]] by (simp add: observed_ok_def)
  have "observed_list B s' = Inr (sorted_list_of_set (set xs))"
    using observed_write_Inr [OF w] observed_list_written [OF _ r assms(2)] assms(1)
    by (auto simp: observed_ok_def)
  then show "observed_ok B s' \<and> observed_list B s' = Inr (sorted_list_of_set (set xs))"
    using observed_ok_frame [OF assms(1) f] by blast
qed

lemma observed_add_cases:
  assumes "observed_ok B s" and "observed_list B s = Inr xs"
  shows "observed_add B a s =
    (if a \<in> set xs then (Inr False, s)
     else case observed_write B (xs @ [a]) s of (Inl e, s') \<Rightarrow> (Inl e, s') | (Inr u, s') \<Rightarrow> (Inr True, s'))"
  using assms(2) by (auto simp: observed_add_def and_then_def of_read_def ok_def split: prod.splits sum.splits)

lemma filter_length_eq: "length (filter (\<lambda>x. x \<noteq> a) xs) = length xs \<longleftrightarrow> a \<notin> set xs"
proof (cases "a \<in> set xs")
  case True
  then show ?thesis using length_filter_less [of a xs "\<lambda>x. x \<noteq> a"] by simp
next
  case False
  then have "filter (\<lambda>x. x \<noteq> a) xs = xs" by (auto simp: filter_id_conv)
  with False show ?thesis by simp
qed

lemma observed_remove_cases:
  assumes "observed_ok B s" and "observed_list B s = Inr xs"
  shows "observed_remove B a s =
    (if a \<notin> set xs then (Inr False, s)
     else case observed_write B (filter (\<lambda>x. x \<noteq> a) xs) s of (Inl e, s') \<Rightarrow> (Inl e, s') | (Inr u, s') \<Rightarrow> (Inr True, s'))"
  using assms(2)
  by (auto simp: observed_remove_def and_then_def of_read_def ok_def Let_def filter_length_eq
      split: prod.splits sum.splits)

interpretation observed: address_book
  "observed_ok B" "observed_list B" "observed_add B" "observed_remove B" "valid_addr (okeys B)"
  for B
proof (unfold_locales, goal_cases)
  case (1 s)
  then show ?case by (metis observed_total)
next
  case (2 s)
  then show ?case by (metis observed_total List.finite_set)
next
  case (3 s a e s')
  then show ?case
  proof (cases "valid_addr (okeys B) a")
    case True
    from 3(1) obtain xs where x: "observed_list B s = Inr xs" "list_all (valid_addr (okeys B)) xs"
      by (metis observed_total)
    with True 3 observed_write_outcome(1) [OF 3(1), of "xs @ [a]" e s'] show ?thesis
      by (auto simp: observed_add_cases [OF 3(1) x(1)] split: if_splits prod.splits sum.splits)
  next
    case False
    from 3(1) obtain xs where x: "observed_list B s = Inr xs" by (metis observed_total)
    with 3(2) have w: "observed_write B (xs @ [a]) s = (Inl e, s')"
      by (auto simp: observed_add_cases [OF 3(1) x] split: if_splits prod.splits sum.splits)
    note f = observed_write_Inl [OF w]
    have "observed_list B s' = observed_list B s" by (rule observed_list_frame [OF f]) simp
    then show ?thesis using observed_ok_frame [OF 3(1) f] x by simp
  qed
next
  case (4 s a b s')
  from 4(1) obtain xs where x: "observed_list B s = Inr xs" "list_all (valid_addr (okeys B)) xs"
    "listed (observed_list B) s = set xs" by (metis observed_total)
  with 4 observed_write_outcome(2) [OF 4(1), of "xs @ [a]" _ s'] show ?case
    by (auto simp: observed_add_cases [OF 4(1) x(1)] listed_def set_insort_key split: if_splits prod.splits sum.splits)
next
  case (5 s a e s')
  from 5(1) obtain xs where x: "observed_list B s = Inr xs" "list_all (valid_addr (okeys B)) xs"
    by (metis observed_total)
  have "list_all (valid_addr (okeys B)) (filter (\<lambda>x. x \<noteq> a) xs)" using x(2) by (auto simp: list_all_iff)
  with x 5 observed_write_outcome(1) [OF 5(1), of "filter (\<lambda>x. x \<noteq> a) xs" e s'] show ?case
    by (auto simp: observed_remove_cases [OF 5(1) x(1)] split: if_splits prod.splits sum.splits)
next
  case (6 s a b s')
  from 6(1) obtain xs where x: "observed_list B s = Inr xs" "list_all (valid_addr (okeys B)) xs"
    "listed (observed_list B) s = set xs" by (metis observed_total)
  have "list_all (valid_addr (okeys B)) (filter (\<lambda>x. x \<noteq> a) xs)" using x(2) by (auto simp: list_all_iff)
  with x 6 observed_write_outcome(2) [OF 6(1), of "filter (\<lambda>x. x \<noteq> a) xs" _ s'] show ?case
    by (auto simp: observed_remove_cases [OF 6(1) x(1)] listed_def split: if_splits prod.splits sum.splits)
qed

section \<open>Neither store touches the other's files\<close>

lemma create_observed_list:
  assumes "addr_laws (vkeys V)" and "length key = 32"
  shows "observed_list B (snd (vault_create V key pw ent s)) = observed_list B s"
proof -
  let ?a = "addr_of (vkeys V) key"
  have v: "addr_parse (vkeys V) (to_string ?a) = Some ?a" by (rule addr_laws_of [OF assms])
  obtain r s' where c: "vault_create V key pw ent s = (r, s')" by fastforce
  have "\<exists>N. frame N s s' \<and> Utf8 OBSERVED_FILE \<notin> N"
  proof (cases r)
    case (Inl e)
    with create_Inl_frame [of V key pw ent s e s'] c observed_names_apart show ?thesis by force
  next
    case (Inr b)
    have "frame {Utf8 (stage_dir ?a), Utf8 LOCK_FILE, Utf8 (file_name ?a (pw \<noteq> None))} s s'"
      using create_Inr [OF c [unfolded Inr] refl] by metis
    with observed_names_apart observed_not_key_file(1) [OF assms(1) v] show ?thesis by force
  qed
  then show ?thesis using c observed_list_frame by auto
qed

lemma forget_observed_list:
  assumes "addr_laws (vkeys V)" and "vault_ok (vkeys V) s"
  shows "observed_list B (snd (vault_forget V a s)) = observed_list B s"
proof (cases "\<exists>p. key_file (vkeys V) s a p")
  case True
  then have v: "addr_parse (vkeys V) (to_string a) = Some a" by (auto simp: key_file_def)
  obtain r s' where c: "vault_forget V a s = (r, s')" by fastforce
  obtain p where "frame {Utf8 LOCK_FILE, Utf8 (file_name a p)} s s'" using forget_keeps [OF c] by blast
  then show ?thesis
    using observed_list_frame [of _ s s' B] observed_names_apart(1) observed_not_key_file(1) [OF assms(1) v, of p] c
    by auto
next
  case False
  then have "find_held V a s = Inl NoAccount \<or> (\<exists>e. find_held V a s = Inl e)"
    using find_held_Inr [OF assms] by (cases "find_held V a s") auto
  then show ?thesis by (auto simp: vault_forget_def and_then_def of_read_def)
qed

lemma observed_calls_frame:
  "frame {Utf8 OBSERVED_STAGED, Utf8 OBSERVED_FILE} s (snd (observed_add B a s))"
  "frame {Utf8 OBSERVED_STAGED, Utf8 OBSERVED_FILE} s (snd (observed_remove B a s))"
proof -
  let ?N = "{Utf8 OBSERVED_STAGED, Utf8 OBSERVED_FILE}"
  have w: "keeps (frame ?N) (observed_write B xs)" for xs by (rule observed_write_keeps) simp_all
  note rules = keeps_if keeps_and_then [OF transp_frame] keeps_of_read [OF reflp_frame] keeps_ok [OF reflp_frame]
  have "keeps (frame ?N) (observed_add B a)" "keeps (frame ?N) (observed_remove B a)"
    unfolding observed_add_def observed_remove_def Let_def by (intro rules w)+
  then show "frame ?N s (snd (observed_add B a s))" "frame ?N s (snd (observed_remove B a s))"
    by (simp_all only: keeps_def)
qed

lemma observed_calls_vault:
  assumes "addr_laws (vkeys V)" and "okeys B = vkeys V" and "vault_ok (vkeys V) s"
  shows "vault_accounts V (snd (observed_add B a s)) = vault_accounts V s
    \<and> vault_accounts V (snd (observed_remove B a s)) = vault_accounts V s"
proof -
  have same: "vault_accounts V s' = vault_accounts V s"
    if f: "frame {Utf8 OBSERVED_STAGED, Utf8 OBSERVED_FILE} s s'" for s'
  proof -
    note k = key_file_observed_frame [OF assms(1) f]
    obtain hs where hs: "vault_accounts V s = Inr hs" using vault_accounts_total [OF assms(1,3)] by blast
    show ?thesis
      using vault_accounts_same [OF assms(1) hs vault_ok_frame [OF assms(3) f k] assms(3) k] hs by simp
  qed
  show ?thesis by (intro conjI same observed_calls_frame)
qed

end
