(* ===== verification/Vault_Limits.thy ===== *)
theory Vault_Limits
  imports Key_Store
begin

text \<open>
  Two bounds: the scrypt work a vault file may ask for, with the 64-bit product shown not
  to wrap, and the success of a create on a healthy disk (no failing call, a lock that
  comes free, an account not held), so that the theorems about a create that returned are
  about something.
\<close>

section \<open>The work a sealed file may ask for\<close>

definition file_param :: "vault_crates \<Rightarrow> Value \<Rightarrow> rstr \<Rightarrow> u64 option" where
  "file_param V v name =
     value_u64 V (value_index V (value_index V (value_index V v (lit ''crypto'')) (lit ''kdfparams'')) name)"

lemma unat_push_bit_1: "k < 64 \<Longrightarrow> unat (push_bit k (1 :: u64)) = 2 ^ k"
proof -
  assume "k < 64"
  then have "(2::nat) ^ k < 2 ^ 64" by (rule power_strict_increasing) simp
  then have "take_bit 64 (push_bit k (1::nat)) = 2 ^ k"
    by (simp add: take_bit_eq_mod push_bit_eq_mult)
  moreover have "unat (push_bit k (1::u64)) = take_bit 64 (push_bit k (unat (1::u64)))"
    by (simp only: unsigned_push_bit_eq) simp
  ultimately show ?thesis by simp
qed

lemma is_power_of_two_unat: "is_power_of_two n \<longleftrightarrow> (\<exists>k < 64. unat n = 2 ^ k)"
proof -
  have "n = push_bit k 1 \<longleftrightarrow> unat n = 2 ^ k" if "k < 64" for k
    using unat_push_bit_1 [OF that] by (metis word_unat_eq_iff)
  then show ?thesis by (auto simp: is_power_of_two_def list_ex_iff)
qed

lemma scrypt_ceilings:
  "unat MAX_SCRYPT_N = 2 ^ 18" "unat MAX_SCRYPT_R = 16" "unat MAX_SCRYPT_P = 16"
  "unat MAX_SCRYPT_WORK = 2 ^ 21"
  by (simp_all add: MAX_SCRYPT_N_def MAX_SCRYPT_R_def MAX_SCRYPT_P_def MAX_SCRYPT_WORK_def)

lemma unat_product3:
  fixes n r p :: u64
  assumes "unat n \<le> 2 ^ 18" and "unat r \<le> 16" and "unat p \<le> 16"
  shows "unat (n * r * p) = unat n * unat r * unat p"
proof -
  have nr: "unat n * unat r \<le> 2 ^ 18 * 16" using assms(1,2) by (rule mult_le_mono)
  then have "unat (n * r) = unat n * unat r" by (simp add: unat_word_ariths)
  moreover have "unat n * unat r * unat p \<le> 2 ^ 18 * 16 * 16" using nr assms(3) by (rule mult_le_mono)
  ultimately show ?thesis by (simp add: unat_word_ariths)
qed

definition iv_length :: "vault_crates \<Rightarrow> Value \<Rightarrow> nat" where
  "iv_length V v =
     (case value_str V (value_index V (value_index V (value_index V v (lit ''crypto'')) (lit ''cipherparams'')) (lit ''iv'')) of
        None \<Rightarrow> 0 | Some iv \<Rightarrow> str_len iv)"

text \<open>The file names scrypt, gives it no parameter it lacks, and asks for AES's sizes.\<close>

definition scrypt_file :: "vault_crates \<Rightarrow> Value \<Rightarrow> bool" where
  "scrypt_file V v \<longleftrightarrow>
     value_is_str V (value_index V (value_index V v (lit ''crypto'')) (lit ''kdf'')) (lit ''scrypt'')
     \<and> (\<exists>names. value_keys V (value_index V (value_index V v (lit ''crypto'')) (lit ''kdfparams'')) = Some names
           \<and> set names \<subseteq> set scrypt_names)
     \<and> file_param V v (lit ''dklen'') = Some 32 \<and> iv_length V v div 2 = 16"

lemma check_params_word_iff:
  "check_params V json = Inr () \<longleftrightarrow>
     (\<exists>v n r p. value_parser V json = Inr v \<and> scrypt_file V v
        \<and> file_param V v (lit ''n'') = Some n \<and> file_param V v (lit ''r'') = Some r \<and> file_param V v (lit ''p'') = Some p
        \<and> is_power_of_two n \<and> n \<le> MAX_SCRYPT_N \<and> r \<le> MAX_SCRYPT_R \<and> p \<le> MAX_SCRYPT_P
        \<and> n * r * p \<le> MAX_SCRYPT_WORK)"
  (is "?L \<longleftrightarrow> ?R")
proof
  assume ?L
  then show ?R
    unfolding check_params_def bind_res_Inr map_err_Inr Let_def file_param_def scrypt_file_def iv_length_def
    by (auto split: if_splits option.splits simp: not_less list_all_iff)
next
  assume ?R
  then show ?L
    unfolding scrypt_file_def file_param_def iv_length_def
    by (auto simp: check_params_def Let_def list_all_iff not_less [symmetric])
qed

lemma accepted_work_iff:
  fixes n r p :: u64
  shows "is_power_of_two n \<and> n \<le> MAX_SCRYPT_N \<and> r \<le> MAX_SCRYPT_R \<and> p \<le> MAX_SCRYPT_P
        \<and> n * r * p \<le> MAX_SCRYPT_WORK
    \<longleftrightarrow> (\<exists>k \<le> 18. unat n = 2 ^ k) \<and> unat r \<le> 16 \<and> unat p \<le> 16 \<and> unat n * unat r * unat p \<le> 2 ^ 21"
  (is "?L \<longleftrightarrow> ?R")
proof
  assume ?L
  then have b: "unat n \<le> 2 ^ 18" "unat r \<le> 16" "unat p \<le> 16" "unat (n * r * p) \<le> 2 ^ 21"
    and pow: "is_power_of_two n"
    by (simp_all add: word_le_nat_alt scrypt_ceilings)
  obtain k where k: "unat n = 2 ^ k" using pow is_power_of_two_unat by blast
  have "(2::nat) ^ k \<le> 2 ^ 18" using b(1) k by simp
  then have "k \<le> 18" by (rule power_le_imp_le_exp [rotated]) simp
  then show ?R using k b unat_product3 [OF b(1,2,3)] by auto
next
  assume R: ?R
  then obtain k where k: "k \<le> 18" "unat n = 2 ^ k" by blast
  then have n: "unat n \<le> 2 ^ 18" by (simp only: power_increasing)
  have "is_power_of_two n" using k is_power_of_two_unat [of n] by auto
  then show ?L using R n unat_product3 [OF n] by (simp add: word_le_nat_alt scrypt_ceilings)
qed

lemma check_params_iff:
  "check_params V json = Inr () \<longleftrightarrow>
     (\<exists>v n r p k. value_parser V json = Inr v \<and> scrypt_file V v
        \<and> file_param V v (lit ''n'') = Some n \<and> file_param V v (lit ''r'') = Some r \<and> file_param V v (lit ''p'') = Some p
        \<and> k \<le> 18 \<and> unat n = 2 ^ k \<and> unat r \<le> 16 \<and> unat p \<le> 16 \<and> unat n * unat r * unat p \<le> 2 ^ 21)"
  unfolding check_params_word_iff accepted_work_iff by blast

section \<open>A create on a healthy disk\<close>

definition never_fails :: "fs \<Rightarrow> bool" where
  "never_fails s \<longleftrightarrow> (\<forall>t. fault s t = None)"

lemma never_fails_frame: "frame N s s' \<Longrightarrow> never_fails s \<Longrightarrow> never_fails s'"
  using environs_eqD(4) frame_environs by (metis never_fails_def)

lemma sys_call_healthy:
  "never_fails s \<Longrightarrow> sys_call half act s = act (s\<lparr>ticks := Suc (ticks s)\<rparr>)"
  by (simp add: sys_call_no_fault never_fails_def)

lemma create_dir_all_healthy: "never_fails s \<Longrightarrow> \<exists>s'. create_dir_all s = (Inr (), s') \<and> made s'"
  by (simp add: create_dir_all_def sys_call_healthy)

lemma set_dir_mode_healthy: "never_fails s \<Longrightarrow> made s \<Longrightarrow> \<exists>s'. set_dir_mode m s = (Inr (), s')"
  by (simp add: set_dir_mode_def sys_call_healthy)

lemma remove_dir_all_healthy:
  "never_fails s \<Longrightarrow> node_at (Utf8 d) s = None \<or> is_folder (node_at (Utf8 d) s) \<Longrightarrow>
     node_at (Utf8 d) (snd (remove_dir_all d s)) = None"
  by (auto simp: remove_dir_all_def sys_call_healthy is_folder_def split: option.splits node.splits)

lemma stage_create_healthy:
  assumes "never_fails s" and "made s"
    and "node_at (Utf8 d) s = None \<or> is_folder (node_at (Utf8 d) s)"
  shows "\<exists>s'. stage_create d s = (Inr (), s') \<and> is_folder (node_at (Utf8 d) s')"
proof -
  let ?s1 = "snd (remove_dir_all d s)"
  have f: "frame {Utf8 d} s ?s1" using keeps_entry_calls(3) [of d "{Utf8 d}"] by (simp add: keeps_def)
  have 1: "never_fails ?s1" "made ?s1" "node_at (Utf8 d) ?s1 = None"
    using never_fails_frame [OF f assms(1)] frame_made [OF f assms(2)] remove_dir_all_healthy [OF assms(1,3)]
    by simp_all
  let ?s2 = "set_node (Utf8 d) (Folder [] (new_mode ?s1)) (?s1\<lparr>ticks := Suc (ticks ?s1)\<rparr>)"
  have 2: "create_dir d ?s1 = (Inr (), ?s2)"
    using 1 by (simp add: create_dir_def sys_call_healthy)
  have "never_fails ?s2" using 1(1) by (simp add: never_fails_def set_node_def)
  then have "\<exists>s3. set_permissions d (octal 7 0 0) ?s2 = (Inr (), s3) \<and> is_folder (node_at (Utf8 d) s3)"
    by (simp add: set_permissions_def sys_call_healthy is_folder_def)
  then show ?thesis
    using 2 by (auto simp: stage_create_def and_then_def ignoring_def)
qed

lemma write_in_healthy:
  "never_fails s \<Longrightarrow> is_folder (node_at (Utf8 d) s) \<Longrightarrow> \<exists>s'. write_in d n t s = (Inr (), s')"
  by (simp add: write_in_def sys_call_healthy)

lemma lock_healthy:
  assumes "never_fails s" and "made s" and "\<not> is_folder (node_at (Utf8 LOCK_FILE) s)"
    and "\<exists>i. lock_loop (try_lock s) (overslept s) 0 0 LOCK_WAIT = Inr i"
  shows "\<exists>s'. lock s = (Inr (), s')"
proof -
  obtain s1 where 1: "open_or_create LOCK_FILE s = (Inr (), s1)"
    using assms(1-3) by (auto simp: open_or_create_def sys_call_healthy is_folder_def split: option.splits node.splits)
  have "keeps (frame {Utf8 LOCK_FILE}) (open_or_create LOCK_FILE)" by (intro keeps_intros) simp
  from frame_environs [OF keepsD [OF this 1]] have "try_lock s1 = try_lock s" "overslept s1 = overslept s"
    by (simp_all add: environs_def)
  with 1 assms(4) show ?thesis by (auto simp: lock_def and_then_def)
qed

lemma promote_healthy:
  assumes "never_fails s" and "file_in d STAGED_FILE s = Some f"
    and "\<not> is_folder (node_at (Utf8 dest) s)" and "d \<noteq> dest"
  shows "\<exists>s'. promote d dest s = (Inr (), s')"
proof -
  let ?m = "octal 6 0 0"
  have k: "keeps (frame {Utf8 d}) (set_permissions_in d STAGED_FILE ?m)"
    "keeps (frame {Utf8 d}) (sync_in d STAGED_FILE)" by (intro keeps_intros; simp)+
  obtain s1 where 1: "set_permissions_in d STAGED_FILE ?m s = (Inr (), s1)"
    using assms(1,2) by (simp add: set_permissions_in_def sys_call_healthy file_in_def)
  note f1 = keepsD [OF k(1) 1]
  have i1: "file_in d STAGED_FILE s1 = Some (f\<lparr>fmode := ?m\<rparr>)"
    using set_permissions_in_Inr [OF 1] assms(2) by auto
  obtain s2 where 2: "sync_in d STAGED_FILE s1 = (Inr (), s2)"
    using never_fails_frame [OF f1 assms(1)] i1 by (simp add: sync_in_def sys_call_healthy file_in_def)
  note f2 = keepsD [OF k(2) 2]
  have i2: "file_in d STAGED_FILE s2 = Some (f\<lparr>fmode := ?m\<rparr>)"
    using sync_in_Inr [OF 2] i1 by simp
  have "\<not> is_folder (node_at (Utf8 dest) s2)"
    using assms(3,4) frame_node [OF f1, of "Utf8 dest"] frame_node [OF f2, of "Utf8 dest"] by simp
  then obtain s3 where 3: "rename_out d STAGED_FILE dest s2 = (Inr (), s3)"
    using never_fails_frame [OF f2 never_fails_frame [OF f1 assms(1)]] i2
    by (auto simp: rename_out_def sys_call_healthy file_in_def split: option.splits node.splits)
  show ?thesis using 1 2 3 by (auto simp: promote_def and_then_def ignoring_def)
qed

text \<open>The conditions a create needs of the disk.\<close>

definition healthy_for :: "fs \<Rightarrow> AccountAddr \<Rightarrow> bool" where
  "healthy_for s a \<longleftrightarrow>
     never_fails s \<and> (\<exists>i. lock_loop (try_lock s) (overslept s) 0 0 LOCK_WAIT = Inr i)
     \<and> (node_at (Utf8 (stage_dir a)) s = None \<or> is_folder (node_at (Utf8 (stage_dir a)) s))
     \<and> \<not> is_folder (node_at (Utf8 LOCK_FILE) s)"

text \<open>What a create does once it holds the lock.\<close>

definition create_checked :: "vault_crates \<Rightarrow> AccountAddr \<Rightarrow> bool \<Rightarrow> (fs, VaultError, AccountAddr) op" where
  "create_checked V a q =
     and_then (of_read (vault_accounts V)) (\<lambda>held.
       if list_ex (\<lambda>h. addr h = a) held then fail (AccountExists a)
       else and_then (io (promote (stage_dir a) (file_name a q))) (\<lambda>_. ok a))"

text \<open>On such a disk a create gets that far, with its file staged and every key file as it was.\<close>

lemma create_reaches_check:
  assumes "addr_laws (vkeys V)" and "vault_ok (vkeys V) s" and "length key = 32" and "pw \<noteq> Some []"
    and "\<And>w. pw = Some w \<Longrightarrow> \<exists>t. encrypt_key V ent key w = Inr t"
    and "healthy_for s (addr_of (vkeys V) key)" and "a = addr_of (vkeys V) key"
  obtains s5 f where "vault_create V key pw ent s = with_drop (drop_stage (stage_dir a)) (create_checked V a (pw \<noteq> None)) s5"
    and "frame {Utf8 (stage_dir a), Utf8 LOCK_FILE} s s5" and "file_in (stage_dir a) STAGED_FILE s5 = Some f"
    and "vault_ok (vkeys V) s5" and "\<And>b p. key_file (vkeys V) s5 b p = key_file (vkeys V) s b p"
proof -
  let ?K = "vkeys V" and ?a = "addr_of (vkeys V) key"
  let ?d = "stage_dir ?a"
  let ?N = "{Utf8 ?d, Utf8 LOCK_FILE}"
  have ks: "keeps (frame {Utf8 ?d}) (stage_create ?d)" "keeps (frame {Utf8 LOCK_FILE}) lock"
    "keeps (frame {}) create_dir_all" "keeps (frame {}) (set_dir_mode (octal 7 0 0))"
    by (intro keeps_intros; simp)+
  have nf: "never_fails s" using assms(6) by (simp add: healthy_for_def)
  obtain s1 where 1: "create_dir_all s = (Inr (), s1)" and m1: "made s1"
    using create_dir_all_healthy [OF nf] by blast
  note f1 = keepsD [OF ks(3) 1]
  obtain s2 where 2: "set_dir_mode (octal 7 0 0) s1 = (Inr (), s2)"
    using set_dir_mode_healthy [OF never_fails_frame [OF f1 nf] m1] by blast
  note f2 = frame_trans [OF f1 keepsD [OF ks(4) 2]]
  have m2: "made s2" using frame_made [OF keepsD [OF ks(4) 2] m1] .
  have "node_at (Utf8 ?d) s2 = None \<or> is_folder (node_at (Utf8 ?d) s2)"
    using assms(6) frame_node [OF f2, of "Utf8 ?d"] by (simp add: healthy_for_def)
  with stage_create_healthy [OF never_fails_frame [OF f2 nf] m2]
  obtain s3 where 3: "stage_create ?d s2 = (Inr (), s3)" and d3: "is_folder (node_at (Utf8 ?d) s3)"
    by blast
  have f3: "frame {Utf8 ?d} s s3" using f2 keepsD [OF ks(1) 3] by (meson frame_mono frame_trans empty_subsetI)
  let ?w = "case pw of Some p \<Rightarrow> seal V ?d key p ent | None \<Rightarrow> write_open V ?d ?a key"
  have nf3: "never_fails s3" using never_fails_frame [OF f3 nf] .
  have "\<exists>s4. ?w s3 = (Inr (), s4)"
    using write_in_healthy [OF nf3 d3, of STAGED_FILE] assms(5)
    by (auto simp: write_open_def seal_def map_err_op_def split: option.splits) (metis (no_types, lifting) map_err_simps(2) old.prod.case old.sum.simps(6))
  then obtain s4 where 4: "?w s3 = (Inr (), s4)" by blast
  have kw: "keeps (frame {Utf8 ?d}) ?w" by (auto intro!: keeps_intros split: option.splits)
  note f4 = frame_trans [OF f3 keepsD [OF kw 4]]
  have m4: "made s4" using m2 frame_made [OF keepsD [OF ks(1) 3]] frame_made [OF keepsD [OF kw 4]] by blast
  obtain f where fi4: "file_in ?d STAGED_FILE s4 = Some f"
    using 4 by (auto simp: write_open_def dest!: write_in_Inr seal_Inr split: option.splits)
  have lk4: "\<not> is_folder (node_at (Utf8 LOCK_FILE) s4)" "\<exists>i. lock_loop (try_lock s4) (overslept s4) 0 0 LOCK_WAIT = Inr i"
    using assms(6) frame_node [OF f4, of "Utf8 LOCK_FILE"] stage_not_lock [of ?a] frame_environs [OF f4]
    by (auto simp: healthy_for_def environs_def)
  obtain s5 where 5: "lock s4 = (Inr (), s5)"
    using lock_healthy [OF never_fails_frame [OF f4 nf] m4 lk4] by blast
  have f5: "frame ?N s s5"
    using frame_mono [OF f4, of ?N] frame_mono [OF keepsD [OF ks(2) 5], of ?N] by (auto intro: frame_trans)
  have k5: "key_file ?K s5 b p = key_file ?K s b p" for b p by (rule key_file_frame [OF assms(1) f5])
  have v5: "vault_ok ?K s5" by (rule vault_ok_frame [OF assms(2) f5 k5])
  have fi5: "file_in ?d STAGED_FILE s5 = Some f"
    using fi4 file_in_frame [OF keepsD [OF ks(2) 5]] stage_not_lock by simp
  have "create_staged V ?a key pw ent s3 = create_checked V ?a (pw \<noteq> None) s5"
    unfolding create_staged_def create_checked_def using 4 5 by (simp add: and_then_def io_def map_err_op_def)
  then have "vault_create V key pw ent s = with_drop (drop_stage ?d) (create_checked V ?a (pw \<noteq> None)) s5"
    unfolding vault_create_def Let_def
    using assms(4) 1 2 3 by (simp add: and_then_def io_def map_err_op_def with_drop_def)
  from that [unfolded assms(7), OF this f5 fi5 v5 k5] show ?thesis .
qed

lemma create_succeeds:
  assumes "addr_laws (vkeys V)" and "vault_ok (vkeys V) s" and "length key = 32" and "pw \<noteq> Some []"
    and "\<And>w. pw = Some w \<Longrightarrow> \<exists>t. encrypt_key V ent key w = Inr t"
    and "healthy_for s (addr_of (vkeys V) key)"
    and "vault_held (vkeys V) s (addr_of (vkeys V) key) = None"
  shows "\<exists>s'. vault_create V key pw ent s = (Inr (addr_of (vkeys V) key), s')"
proof -
  let ?K = "vkeys V" and ?a = "addr_of (vkeys V) key" and ?q = "pw \<noteq> None"
  let ?d = "stage_dir ?a"
  obtain s5 f where c: "vault_create V key pw ent s = with_drop (drop_stage ?d) (create_checked V ?a ?q) s5"
    and f5: "frame {Utf8 ?d, Utf8 LOCK_FILE} s s5" and fi5: "file_in ?d STAGED_FILE s5 = Some f"
    and v5: "vault_ok ?K s5" and k5: "\<And>b p. key_file ?K s5 b p = key_file ?K s b p"
    using create_reaches_check [OF assms(1-6) refl] by metis
  obtain hs where hs: "vault_accounts V s5 = Inr hs" using vault_accounts_total [OF assms(1) v5] by blast
  have free: "?a \<notin> addr ` set hs"
    using vault_accounts_addrs [OF assms(1) v5 hs] k5 assms(7) by (simp add: vault_held_None)
  have valid: "addr_parse ?K (to_string ?a) = Some ?a" by (rule addr_laws_of [OF assms(1,3)])
  have dest: "node_at (Utf8 (file_name ?a ?q)) s5 = None"
    using k5 [of ?a ?q] assms(7) valid by (simp add: vault_held_None key_file_def)
  have "never_fails s5" using never_fails_frame [OF f5] assms(6) by (simp add: healthy_for_def)
  then obtain s6 where 6: "promote ?d (file_name ?a ?q) s5 = (Inr (), s6)"
    using promote_healthy [of s5 ?d _ "file_name ?a ?q"] fi5 dest stage_not_key_file [OF assms(1) valid]
    by (auto simp: is_folder_def)
  have "create_checked V ?a ?q s5 = (Inr ?a, s6)"
    unfolding create_checked_def and_then_Inr io_Inr of_read_def
    using hs free 6 by (auto simp: list_ex_addr and_then_Inr ok_def)
  then show ?thesis unfolding c by (simp add: with_drop_eq)
qed

lemma create_refused:
  assumes "addr_laws (vkeys V)" and "vault_ok (vkeys V) s" and "length key = 32" and "pw \<noteq> Some []"
    and "\<And>w. pw = Some w \<Longrightarrow> \<exists>t. encrypt_key V ent key w = Inr t"
    and "healthy_for s (addr_of (vkeys V) key)"
    and "vault_held (vkeys V) s (addr_of (vkeys V) key) \<noteq> None"
  shows "fst (vault_create V key pw ent s) = Inl (AccountExists (addr_of (vkeys V) key))"
proof -
  let ?K = "vkeys V" and ?a = "addr_of (vkeys V) key" and ?q = "pw \<noteq> None"
  obtain s5 where c: "vault_create V key pw ent s = with_drop (drop_stage (stage_dir ?a)) (create_checked V ?a ?q) s5"
    and v5: "vault_ok ?K s5" and k5: "\<And>b p. key_file ?K s5 b p = key_file ?K s b p"
    using create_reaches_check [OF assms(1-6) refl] by metis
  obtain hs where hs: "vault_accounts V s5 = Inr hs" using vault_accounts_total [OF assms(1) v5] by blast
  have "?a \<in> addr ` set hs"
    using vault_accounts_addrs [OF assms(1) v5 hs, of ?a] k5 assms(7) by (auto simp: vault_held_None)
  then show ?thesis unfolding c create_checked_def
    by (simp add: with_drop_def and_then_def of_read_def hs list_ex_addr fail_def)
qed

end
