(* ===== verification/Sample_Crates.thy ===== *)
theory Sample_Crates
  imports Key_Store Address_Book Vault_Limits
begin

text \<open>
  One concrete instance of the crates the vault and the observed list are built on, with the
  laws the theorems ask of them, and disks to run them on. The witnesses of the properties
  evaluate the model on it. Nothing in the model depends on this theory.
\<close>

section \<open>Hex\<close>

definition nibble :: "nat \<Rightarrow> rchar" where
  "nibble n = (if n < 10 then 48 + n else 87 + n)"

definition of_nibble :: "rchar \<Rightarrow> nat option" where
  "of_nibble c = (if 48 \<le> c \<and> c \<le> 57 then Some (c - 48) else if 97 \<le> c \<and> c \<le> 102 then Some (c - 87) else None)"

fun to_hex :: "bytes \<Rightarrow> rstr" where
  "to_hex [] = []"
| "to_hex (b # bs) = nibble (unat b div 16) # nibble (unat b mod 16) # to_hex bs"

fun of_hex :: "rstr \<Rightarrow> FromHexError + bytes" where
  "of_hex [] = Inr []"
| "of_hex [c] = Inl OtherHexError"
| "of_hex (c # d # t) =
     (case (of_nibble c, of_nibble d) of
        (Some h, Some l) \<Rightarrow> bind_res (of_hex t) (\<lambda>bs. Inr (of_nat (16 * h + l) # bs))
      | _ \<Rightarrow> Inl InvalidHexCharacter)"

definition sample_hex :: hex where
  "sample_hex = \<lparr>hex_encode = to_hex, hex_decode = of_hex,
     hex_decode_to_slice = (\<lambda>t n. if length t \<noteq> 2 * n then Inl OtherHexError else of_hex t)\<rparr>"

lemma of_nibble_nibble [simp]: "n < 16 \<Longrightarrow> of_nibble (nibble n) = Some n"
  by (auto simp: of_nibble_def nibble_def)

lemma of_hex_to_hex [simp]: "of_hex (to_hex b) = Inr b"
proof (induction b)
  case Nil
  then show ?case by simp
next
  case (Cons x xs)
  have "unat x < 256" using unsigned_less [of x] by simp
  then show ?case using Cons by simp
qed

lemma length_to_hex [simp]: "length (to_hex b) = 2 * length b"
  by (induction b) auto

lemma of_hex_length: "of_hex t = Inr b \<Longrightarrow> length t = 2 * length b"
  by (induction t arbitrary: b rule: of_hex.induct) (auto simp: bind_res_Inr split: option.splits)

lemma hex_digits_eq: "hex_digits = {48..57} \<union> {97..102}"
proof (rule set_eqI)
  fix c :: nat
  have "set (lit ''0123456789abcdef'') = {48, 49, 50, 51, 52, 53, 54, 55, 56, 57, 97, 98, 99, 100, 101, 102}"
    by (simp add: lit_def)
  then show "c \<in> hex_digits \<longleftrightarrow> c \<in> {48..57} \<union> {97..102}"
    unfolding hex_digits_def by (simp only: Un_iff insert_iff atLeastAtMost_iff empty_iff) arith
qed

lemma nibble_digit [simp]: "n < 16 \<Longrightarrow> nibble n \<in> hex_digits"
  by (auto simp: hex_digits_eq nibble_def)

lemma to_hex_digits: "set (to_hex b) \<subseteq> hex_digits"
proof (induction b)
  case Nil
  then show ?case by simp
next
  case (Cons x xs)
  have "unat x < 256" using unsigned_less [of x] by simp
  then show ?case using Cons by simp
qed

lemma sample_hex_laws: "hex_laws sample_hex"
  by (auto simp: hex_laws_def sample_hex_def to_hex_digits [THEN subsetD] dest: of_hex_length split: if_splits)

section \<open>Keys\<close>

definition is_hex_digit :: "rchar \<Rightarrow> bool" where
  "is_hex_digit c \<longleftrightarrow> (48 \<le> c \<and> c \<le> 57) \<or> (97 \<le> c \<and> c \<le> 102)"

definition sample_keys :: keys where
  "sample_keys = \<lparr>
     addr_of = (\<lambda>k. AccountAddr (to_hex k)),
     addr_parse = (\<lambda>t. if length t = 64 \<and> list_all is_hex_digit t then Some (AccountAddr t) else None),
     vk_canonical = (\<lambda>b. b \<noteq> replicate 32 255),
     generate = (\<lambda>n. (replicate 32 (of_nat n), Suc n))\<rparr>"

lemma is_hex_digit_eq: "is_hex_digit c \<longleftrightarrow> c \<in> hex_digits"
  by (auto simp: is_hex_digit_def hex_digits_eq)

lemma sample_addr_laws: "addr_laws sample_keys"
  using to_hex_digits
  by (auto simp: addr_laws_def sample_keys_def list_all_iff is_hex_digit_eq split: if_splits)

lemma sample_generate_law: "generate_law sample_keys"
  by (simp add: generate_law_def sample_keys_def)

section \<open>JSON and the keystore\<close>

text \<open>
  A sealed file's text opens with the scrypt cost's exponent, r and p, which the parsed
  value reports, and carries the password and the key.
\<close>

definition sealed_value :: "nat \<Rightarrow> nat \<Rightarrow> nat \<Rightarrow> Value" where
  "sealed_value k r p = Object
     [(lit ''crypto'', Object
        [(lit ''kdf'', String (lit ''scrypt'')),
         (lit ''kdfparams'', Object
            [(lit ''dklen'', Number (PosInt 32)), (lit ''n'', Number (PosInt (2 ^ k))),
             (lit ''r'', Number (PosInt r)), (lit ''p'', Number (PosInt p)),
             (lit ''salt'', String [])]),
         (lit ''cipherparams'', Object [(lit ''iv'', String (replicate 32 48))])])]"

fun sample_value_parser :: "rstr \<Rightarrow> rstr + Value" where
  "sample_value_parser (k # r # p # t) = Inr (sealed_value k r p)"
| "sample_value_parser t = Inl (lit ''EOF while parsing a value'')"

fun sample_index :: "Value \<Rightarrow> rstr \<Rightarrow> Value" where
  "sample_index (Object kvs) name = (case map_of kvs name of Some v \<Rightarrow> v | None \<Rightarrow> Null)"
| "sample_index v name = Null"

fun sample_str :: "Value \<Rightarrow> rstr option" where
  "sample_str (String t) = Some t"
| "sample_str v = None"

fun sample_keys_of :: "Value \<Rightarrow> rstr list option" where
  "sample_keys_of (Object kvs) = Some (map fst kvs)"
| "sample_keys_of v = None"

fun sample_u64 :: "Value \<Rightarrow> u64 option" where
  "sample_u64 (Number (PosInt n)) = (if n < 2 ^ 64 then Some (of_nat n) else None)"
| "sample_u64 v = None"

fun sample_open_parser :: "rstr \<Rightarrow> rstr + ReadOpenDocument" where
  "sample_open_parser (v # k) = Inr \<lparr>rd_logos_account_vault = v, rd_key = Some k\<rparr>"
| "sample_open_parser t = Inl (lit ''EOF while parsing a value'')"

definition sample_encrypt :: "nat \<Rightarrow> bytes \<Rightarrow> rstr \<Rightarrow> rstr + rstr" where
  "sample_encrypt ent k pw = Inr ([13, 8, 1, length pw] @ pw @ map unat k)"

fun sample_decrypt :: "rstr \<Rightarrow> rstr \<Rightarrow> KeystoreError + bytes" where
  "sample_decrypt (n # r # p # l # t) pw =
     (if take l t = pw then Inr (map of_nat (drop l t)) else Inl MacMismatch)"
| "sample_decrypt t pw = Inl (OtherKeystoreError (lit ''not a keystore''))"

definition sample_vault :: vault_crates where
  "sample_vault = \<lparr>
     vkeys = sample_keys, vhex = sample_hex,
     open_writer = (\<lambda>d. [[od_logos_account_vault d], od_key d]),
     open_parser = sample_open_parser,
     value_parser = sample_value_parser, value_index = sample_index,
     value_is_str = (\<lambda>v t. sample_str v = Some t), value_keys = sample_keys_of,
     value_u64 = sample_u64, value_str = sample_str,
     encrypt_key = sample_encrypt, keystore_io_text = (\<lambda>e. lit ''IO error''),
     decrypt_key = sample_decrypt\<rparr>"

lemma sample_vault_sel [simp]: "vkeys sample_vault = sample_keys" "vhex sample_vault = sample_hex"
  by (simp_all add: sample_vault_def)

lemma sample_open_json_law: "open_json_law sample_vault"
  by (simp add: open_json_law_def sample_vault_def)

lemma unat_bytes [simp]: "map (of_nat \<circ> unat) k = (k :: bytes)"
  by (simp add: comp_def)

lemma sample_keystore_law: "keystore_law sample_vault"
  unfolding keystore_law_def written_params_def
  by (auto simp: sample_vault_def sample_encrypt_def sealed_value_def Let_def scrypt_names_def
      lit_def str_len_def utf8_len_def sum_list_replicate)

section \<open>The observed list's document\<close>

fun sample_texts :: "rstr \<Rightarrow> rstr list" where
  "sample_texts [] = []"
| "sample_texts (n # t) = take n t # sample_texts (drop n t)"

fun sample_doc_parser :: "rstr \<Rightarrow> rstr + Document" where
  "sample_doc_parser (v # t) = Inr \<lparr>logos_account_observed = v, addresses = sample_texts t\<rparr>"
| "sample_doc_parser t = Inl (lit ''EOF while parsing a value'')"

definition sample_observed :: observed_crates where
  "sample_observed = \<lparr>okeys = sample_keys,
     doc_writer = (\<lambda>d. logos_account_observed d # concat (map (\<lambda>t. length t # t) (addresses d))),
     doc_parser = sample_doc_parser\<rparr>"

lemma sample_observed_sel [simp]: "okeys sample_observed = sample_keys"
  by (simp add: sample_observed_def)

lemma sample_texts_concat [simp]: "sample_texts (concat (map (\<lambda>t. length t # t) ts)) = ts"
  by (induction ts) auto

lemma sample_doc_law: "doc_law sample_observed"
  by (simp add: doc_law_def sample_observed_def)

section \<open>Disks\<close>

text \<open>A directory not made yet, on a disk that never fails, with the lock free.\<close>

definition new_disk :: fs where
  "new_disk = \<lparr>made = False, dmode = 0, nodes = [], new_mode = octal 6 4 4, ticks = 0,
     fault = (\<lambda>t. None), torn = (\<lambda>t. None), list_fault = None, entry_fault = (\<lambda>n. None),
     read_fault = (\<lambda>n. None), try_lock = (\<lambda>i. LockTaken), overslept = (\<lambda>i. 0)\<rparr>"

text \<open>The same disk, failing every writing call from the \<open>n\<close>th on.\<close>

definition dying_disk :: "nat \<Rightarrow> fs" where
  "dying_disk n = new_disk\<lparr>fault := (\<lambda>t. if t < n then None else Some (IoOther (lit ''No space left on device''))),
     torn := (\<lambda>t. Some 3)\<rparr>"

lemma disks_readable [simp]: "readable new_disk" "readable (dying_disk n)"
  by (simp_all add: readable_def new_disk_def dying_disk_def)

lemma disks_empty [simp]: "node_at n new_disk = None" "node_at n (dying_disk k) = None"
  by (simp_all add: node_at_def new_disk_def dying_disk_def)

lemma disks_vault_ok [simp]: "vault_ok K new_disk" "vault_ok K (dying_disk n)"
  by (simp_all add: vault_ok_def key_file_def wf_fs_def) (simp_all add: new_disk_def dying_disk_def)

lemma disks_unread [simp]: "read_fault new_disk n = None" "read_fault (dying_disk k) n = None"
  by (simp_all add: new_disk_def dying_disk_def)

lemma disks_observed_ok [simp]:
  "observed_ok sample_observed new_disk" "observed_ok sample_observed (dying_disk n)"
  by (simp_all add: observed_ok_def sample_addr_laws sample_doc_law observed_list_def read_to_string_def)

definition one_key :: SigningKey where
  "one_key = replicate 32 1"

definition two_key :: SigningKey where
  "two_key = replicate 32 2"

lemma sample_key_lengths [simp]: "length one_key = 32" "length two_key = 32"
  by (simp_all add: one_key_def two_key_def)

definition sample_password :: rstr where
  "sample_password = lit ''pw''"

text \<open>The disk after one key was taken, in the clear and sealed.\<close>

definition open_disk :: fs where
  "open_disk = snd (vault_create sample_vault one_key None 0 new_disk)"

definition sealed_disk :: fs where
  "sealed_disk = snd (vault_create sample_vault two_key (Some sample_password) 0 new_disk)"

lemma new_disk_healthy [simp]: "healthy_for new_disk a"
proof -
  have "lock_loop (try_lock new_disk) l 0 0 LOCK_WAIT = Inr 0" for l
    by (subst lock_loop.simps) (simp add: new_disk_def)
  moreover have "never_fails new_disk" by (simp add: never_fails_def new_disk_def)
  ultimately show ?thesis by (auto simp: healthy_for_def is_folder_def)
qed

lemma new_disk_held [simp]: "vault_held K new_disk a = None"
  by (simp add: vault_held_def key_file_def)

lemma sample_encrypt_key [simp]: "encrypt_key sample_vault = sample_encrypt"
  by (simp add: sample_vault_def)

lemma open_disk_created:
  "vault_create sample_vault one_key None 0 new_disk = (Inr (addr_of sample_keys one_key), open_disk)"
  using create_succeeds [of sample_vault new_disk one_key None 0] by (auto simp: sample_addr_laws open_disk_def)

lemma sealed_disk_created:
  "vault_create sample_vault two_key (Some sample_password) 0 new_disk = (Inr (addr_of sample_keys two_key), sealed_disk)"
  using create_succeeds [of sample_vault new_disk two_key "Some sample_password" 0]
  by (auto simp: sample_addr_laws sealed_disk_def sample_encrypt_def sample_password_def lit_def)

lemma sample_disks_ok:
  "vault_ok sample_keys open_disk" "vault_ok sample_keys sealed_disk"
  using create_returned(1) [OF _ _ _ open_disk_created] create_returned(1) [OF _ _ _ sealed_disk_created]
  by (simp_all add: sample_addr_laws)

lemma sample_disks_held:
  "key_file sample_keys open_disk (addr_of sample_keys one_key) False"
  "key_file sample_keys sealed_disk (addr_of sample_keys two_key) True"
  using create_returned(5) [OF _ _ _ open_disk_created] create_returned(5) [OF _ _ _ sealed_disk_created]
  by (simp_all add: sample_addr_laws)

end
