(* ===== verification/Vault_Properties.thy ===== *)
theory Vault_Properties
  imports Sample_Crates
begin

text \<open>
  What single operations of the vault promise on a directory whose system calls fail by any
  schedule, with a witness for each on the sample crates.
\<close>

text \<open>
  C10: An account that was created opens, under the password it was created with (or none),
  to exactly the key it was created from, and its file has the one name its address gives it
  and mode 0600.
\<close>

theorem vault_create_then_open:
  assumes "addr_laws (vkeys V)" and "hex_laws (vhex V)" and "open_json_law V" and "keystore_law V"
    and "vault_ok (vkeys V) s" and "length key = 32" and "vault_create V key pw ent s = (Inr a, s')"
  shows "a = addr_of (vkeys V) key \<and> vault_open V a pw s' = Inr key
    \<and> (\<exists>f. node_at (Utf8 (file_name a (pw \<noteq> None))) s' = Some (File f) \<and> fmode f = octal 6 0 0)"
  using create_open_roundtrip [OF assms] create_returned(2) [OF assms(1,5,6,7)]
    create_Inr [OF assms(7) refl] by metis

theorem vault_create_then_open_witness:
  "vault_open sample_vault (addr_of sample_keys two_key) (Some sample_password) sealed_disk = Inr two_key"
  using vault_create_then_open
    [OF _ _ sample_open_json_law sample_keystore_law _ _ sealed_disk_created]
  by (simp add: sample_addr_laws sample_hex_laws)

text \<open>
  A create never touches another account's file and never replaces one: whatever it
  answers, every file of an account the vault already holds is byte for byte what it was,
  and when the account is held already it fails.  When it fails, at whichever call, the
  listing is what it was.
\<close>

theorem vault_create_never_replaces:
  assumes "addr_laws (vkeys V)" and "vault_ok (vkeys V) s" and "length key = 32"
    and "vault_create V key pw ent s = (r, s')"
  shows "(\<forall>b p. key_file (vkeys V) s b p \<longrightarrow> node_at (Utf8 (file_name b p)) s' = node_at (Utf8 (file_name b p)) s)
    \<and> (vault_held (vkeys V) s (addr_of (vkeys V) key) \<noteq> None \<longrightarrow> \<not> is_ok r)
    \<and> (\<not> is_ok r \<longrightarrow> vault_accounts V s' = vault_accounts V s)"
proof (cases r)
  case (Inl e)
  note f = create_Inl_frame [OF assms(4) [unfolded Inl]]
  have "node_at (Utf8 (file_name b p)) s' = node_at (Utf8 (file_name b p)) s" if "key_file (vkeys V) s b p" for b p
    using that frame_node [OF f, of "Utf8 (file_name b p)"] stage_not_key_file [OF assms(1), of b _ p]
      lock_not_key_file [of b p] by (auto simp: key_file_def) metis+
  then show ?thesis using create_failed(2) [OF assms(1,2) assms(4) [unfolded Inl]] Inl by simp
next
  case (Inr a)
  note c = assms(4) [unfolded Inr]
  note r = create_returned [OF assms(1-3) c]
  have "node_at (Utf8 (file_name b p)) s' = node_at (Utf8 (file_name b p)) s" if "key_file (vkeys V) s b p" for b p
    using vault_create_other_files [OF assms(1-3) c that] .
  then show ?thesis using Inr r(2,4) by (simp add: vault_held_None)
qed

theorem vault_create_never_replaces_witness:
  "\<not> is_ok (fst (vault_create sample_vault one_key (Some sample_password) 0 open_disk))
   \<and> vault_accounts sample_vault (snd (vault_create sample_vault one_key (Some sample_password) 0 open_disk))
       = vault_accounts sample_vault open_disk"
proof -
  note h = vault_held_Some [OF sample_disks_ok(1), THEN iffD2, OF sample_disks_held(1)]
  from vault_create_never_replaces [of sample_vault open_disk one_key, OF _ _ _ prod.collapse [symmetric],
      where pw = "Some sample_password" and ent = 0]
  show ?thesis by (simp add: sample_addr_laws sample_disks_ok h)
qed

text \<open>
  A forget that returns removes the one account it names, which nothing opens any more,
  and leaves every other account's file as it was; one that fails changes no account.
\<close>

theorem vault_forget_exact:
  assumes "addr_laws (vkeys V)" and "vault_ok (vkeys V) s" and "vault_forget V a s = (r, s')"
  shows "(is_ok r \<longrightarrow> vault_held (vkeys V) s a \<noteq> None \<and> vault_open V a pw s' = Inl NoAccount)
    \<and> (\<forall>b p. key_file (vkeys V) s b p \<and> (b \<noteq> a \<or> \<not> is_ok r) \<longrightarrow> key_file (vkeys V) s' b p)
    \<and> (\<forall>b p. key_file (vkeys V) s b p \<and> key_file (vkeys V) s a q \<and> b \<noteq> a \<longrightarrow>
          node_at (Utf8 (file_name b p)) s' = node_at (Utf8 (file_name b p)) s)"
proof -
  have n: "node_at (Utf8 (file_name b p)) s' = node_at (Utf8 (file_name b p)) s"
    if k: "key_file (vkeys V) s b p" and a: "key_file (vkeys V) s a q" and d: "b \<noteq> a" for b p
    by (rule forget_other_files [OF assms k a d])
  show ?thesis
  proof (cases r)
    case (Inl e)
    with forget_failed [OF assms(1,2)] assms(3) n show ?thesis by auto
  next
    case (Inr u)
    note r = forget_returned [OF assms(1,2) assms(3) [unfolded Inr]]
    have "vault_open V a pw s' = Inl NoAccount"
      by (rule vault_open_unheld [OF assms(1) r(1)]) (use r(3) in blast)
    then show ?thesis using r n Inr by (auto simp: vault_held_None)
  qed
qed

theorem vault_forget_exact_witness:
  "vault_open sample_vault (addr_of sample_keys one_key) None (snd (vault_forget sample_vault (addr_of sample_keys one_key) open_disk))
     = Inl NoAccount"
proof -
  have ok: "is_ok (fst (vault_forget sample_vault (addr_of sample_keys one_key) open_disk))" by code_simp
  from vault_forget_exact [of sample_vault open_disk, OF _ _ prod.collapse [symmetric], where pw = None] ok
  show ?thesis by (simp add: sample_addr_laws sample_disks_ok)
qed

text \<open>
  A listing that returns is in address order, names no account twice, and holds exactly
  the accounts with a key file, each with the protection its file's name says.
\<close>

theorem vault_accounts_listing:
  assumes "addr_laws (vkeys V)" and "vault_accounts V s = Inr hs"
  shows "sorted (map addr hs) \<and> distinct (map addr hs)
    \<and> (StoredAccount a p \<in> set hs \<longleftrightarrow> made s \<and> key_file (vkeys V) s a p)"
  using vault_accounts_Inr [OF assms(2)] assms(1) by blast

theorem vault_accounts_listing_witness:
  "vault_accounts sample_vault open_disk = Inr [StoredAccount (addr_of sample_keys one_key) False]
   \<and> made open_disk"
proof -
  have e: "vault_accounts sample_vault open_disk = Inr [StoredAccount (addr_of sample_keys one_key) False]"
    by code_simp
  with vault_accounts_listing [OF _ this, of "addr_of sample_keys one_key" False] show ?thesis
    by (simp add: sample_addr_laws)
qed

text \<open>
  C33: A sealed file's key derivation parameters are accepted exactly when they are scrypt's,
  name no parameter scrypt does not have, and stay under every ceiling, the product of the
  three included: it is computed on 64-bit words and never wraps.
\<close>

theorem check_params_accepts_iff:
  "check_params V json = Inr () \<longleftrightarrow>
     (\<exists>v n r p k. value_parser V json = Inr v \<and> scrypt_file V v
        \<and> file_param V v (lit ''n'') = Some n \<and> file_param V v (lit ''r'') = Some r \<and> file_param V v (lit ''p'') = Some p
        \<and> k \<le> 18 \<and> unat n = 2 ^ k \<and> unat r \<le> 16 \<and> unat p \<le> 16 \<and> unat n * unat r * unat p \<le> 2 ^ 21)"
  by (rule check_params_iff)

text \<open>
  Taking the lock ends: it is tried at most 41 times in the second the vault waits,
  each attempt before the last found it held, and a lock that stays held is reported as
  such rather than waited for.
\<close>

theorem lock_loop_bounded:
  "(lock_loop attempt late 0 0 LOCK_WAIT = Inr j \<longrightarrow>
      j \<le> 40 \<and> attempt j = LockTaken \<and> (\<forall>k < j. attempt k = LockWouldBlock))
   \<and> ((\<forall>k \<le> 40. attempt k = LockWouldBlock) \<longrightarrow> lock_loop attempt late 0 0 LOCK_WAIT = Inl lock_busy)"
proof (intro conjI impI)
  assume t: "lock_loop attempt late 0 0 LOCK_WAIT = Inr j"
  from lock_loop_taken [OF t] show "j \<le> 40" "attempt j = LockTaken" "\<forall>k < j. attempt k = LockWouldBlock"
    by (simp_all add: LOCK_WAIT_def)
next
  assume b: "\<forall>k \<le> 40. attempt k = LockWouldBlock"
  show "lock_loop attempt late 0 0 LOCK_WAIT = Inl lock_busy"
    by (rule lock_loop_busy) (use b in \<open>auto simp: LOCK_WAIT_def\<close>)
qed

theorem lock_loop_bounded_witness:
  "lock_loop (\<lambda>i. LockWouldBlock) (\<lambda>i. 0) 0 0 LOCK_WAIT = Inl lock_busy"
  using lock_loop_bounded [of "\<lambda>i. LockWouldBlock" "\<lambda>i. 0"] by simp

end
