(* ===== verification/Vault_Keys.thy ===== *)
theory Vault_Keys
  imports Vault_Limits
begin

text \<open>
  The vault's files, byte for byte, after any session of creates and forgets; and, on a disk
  where no call fails, the answer every create and forget gives.
\<close>

section \<open>The files, byte for byte\<close>

definition text_of :: "vault_crates \<Rightarrow> SigningKey \<Rightarrow> rstr option \<Rightarrow> nat \<Rightarrow> rstr" where
  "text_of V key pw ent =
     (case pw of
        None \<Rightarrow> write_open_document V (addr_of (vkeys V) key) key
      | Some w \<Rightarrow> (case encrypt_key V ent key w of Inr t \<Rightarrow> t | Inl e \<Rightarrow> []))"

definition file_of :: "vault_crates \<Rightarrow> SigningKey \<Rightarrow> rstr option \<Rightarrow> nat \<Rightarrow> node" where
  "file_of V key pw ent = File \<lparr>data = Utf8Text (text_of V key pw ent), fmode = octal 6 0 0\<rparr>"

definition key_files :: "keys \<Rightarrow> fs \<Rightarrow> AccountAddr \<Rightarrow> (bool \<times> node option) option" where
  "key_files K s a = map_option (\<lambda>p. (p, node_at (Utf8 (file_name a p)) s)) (vault_held K s a)"

fun file_effect ::
  "vault_crates \<Rightarrow> key_command \<Rightarrow> (AccountAddr \<rightharpoonup> bool \<times> node option) \<Rightarrow> (AccountAddr \<rightharpoonup> bool \<times> node option)" where
  "file_effect V (Insert k pw n) m = m(addr_of (vkeys V) k \<mapsto> (pw \<noteq> None, Some (file_of V k pw n)))"
| "file_effect V (Forget a) m = m(a := None)"

lemma vault_text_of: "vault_text V key pw ent t \<Longrightarrow> t = text_of V key pw ent"
  by (auto simp: vault_text_def text_of_def split: option.splits)

lemma key_files_Some:
  "vault_ok K s \<Longrightarrow> key_files K s a = Some (p, x) \<longleftrightarrow> key_file K s a p \<and> x = node_at (Utf8 (file_name a p)) s"
  by (auto simp: key_files_def vault_held_Some)

lemma key_files_eqI:
  assumes "vault_held K s' = vault_held K s" and "vault_ok K s"
    and "\<And>a p. key_file K s a p \<Longrightarrow> node_at (Utf8 (file_name a p)) s' = node_at (Utf8 (file_name a p)) s"
  shows "key_files K s' = key_files K s"
proof
  fix a
  show "key_files K s' a = key_files K s a"
  proof (cases "vault_held K s a")
    case (Some p)
    then have "key_file K s a p" using vault_held_Some [OF assms(2)] by simp
    then show ?thesis using Some assms(3) by (simp add: key_files_def assms(1))
  qed (simp add: key_files_def assms(1))
qed

text \<open>What a command that failed, and one that returned, did to the files.\<close>

lemma create_failed_files:
  assumes "addr_laws (vkeys V)" and "vault_ok (vkeys V) s" and "vault_create V key pw ent s = (Inl e, s')"
    and "key_file (vkeys V) s a p"
  shows "node_at (Utf8 (file_name a p)) s' = node_at (Utf8 (file_name a p)) s"
proof -
  have "addr_parse (vkeys V) (to_string a) = Some a" using assms(4) by (simp add: key_file_def)
  then show ?thesis
    using frame_node [OF create_Inl_frame [OF assms(3)], of "Utf8 (file_name a p)"]
      stage_not_key_file [OF assms(1), of a] lock_not_key_file [of a p] by simp metis
qed

lemma create_returned_files:
  assumes "addr_laws (vkeys V)" and "vault_ok (vkeys V) s" and "length key = 32"
    and "vault_create V key pw ent s = (Inr a, s')"
  shows "key_files (vkeys V) s' = file_effect V (Insert key pw ent) (key_files (vkeys V) s)"
proof -
  let ?K = "vkeys V"
  note r = create_returned [OF assms(1-4)]
  from create_Inr [OF assms(4) r(2)] obtain f body where
    n: "node_at (Utf8 (file_name a (pw \<noteq> None))) s' = Some (File f)" and d: "data f = Utf8Text body"
    and m: "fmode f = octal 6 0 0" and t: "vault_text V key pw ent body" by metis
  have "f = \<lparr>data = Utf8Text (text_of V key pw ent), fmode = octal 6 0 0\<rparr>"
    using d m vault_text_of [OF t] by (cases f) simp
  then have f: "node_at (Utf8 (file_name a (pw \<noteq> None))) s' = Some (file_of V key pw ent)"
    using n by (simp add: file_of_def)
  have h: "vault_held ?K s' = (vault_held ?K s)(a \<mapsto> pw \<noteq> None)"
    using vault.insert_done [OF conjI [OF assms(1,2)] assms(3,4)] by simp
  show ?thesis
  proof
    fix b
    show "key_files ?K s' b = file_effect V (Insert key pw ent) (key_files ?K s) b"
    proof (cases "b = a")
      case True
      then show ?thesis using f h r(2) by (simp add: key_files_def)
    next
      case False
      have "node_at (Utf8 (file_name b p)) s' = node_at (Utf8 (file_name b p)) s" if "vault_held ?K s b = Some p" for p
        using vault_create_other_files [OF assms] that vault_held_Some [OF assms(2)] by blast
      then show ?thesis using False h r(2) by (cases "vault_held ?K s b") (simp_all add: key_files_def)
    qed
  qed
qed

lemma forget_failed_files:
  assumes "addr_laws (vkeys V)" and "vault_ok (vkeys V) s" and "vault_forget V a s = (Inl e, s')"
    and "key_file (vkeys V) s b p"
  shows "node_at (Utf8 (file_name b p)) s' = node_at (Utf8 (file_name b p)) s"
proof -
  have l: "keeps (frame {Utf8 LOCK_FILE}) lock" by (intro keeps_intros) simp
  have "frame {Utf8 LOCK_FILE} s s'"
    using assms(3) unfolding vault_forget_def and_then_Inl
    by (auto simp: of_read_def and_then_Inl io_Inl
        dest!: keepsD [OF l] remove_file_Inl intro: frame_trans frame_mono)
  then show ?thesis using lock_not_key_file [of b p] by (simp add: frame_node)
qed

lemma forget_returned_files:
  assumes "addr_laws (vkeys V)" and "vault_ok (vkeys V) s" and "vault_forget V a s = (Inr u, s')"
  shows "key_files (vkeys V) s' = file_effect V (Forget a) (key_files (vkeys V) s)"
proof
  fix b
  let ?K = "vkeys V"
  have h: "vault_held ?K s' = (vault_held ?K s)(a := None)" and held: "vault_held ?K s a \<noteq> None"
    using vault.remove_done [OF conjI [OF assms(1,2)] assms(3)] by simp_all
  obtain q where q: "key_file ?K s a q" using held vault_held_Some [OF assms(2)] by auto
  show "key_files ?K s' b = file_effect V (Forget a) (key_files ?K s) b"
  proof (cases "b = a")
    case True
    then show ?thesis using h by (simp add: key_files_def)
  next
    case False
    have "node_at (Utf8 (file_name b p)) s' = node_at (Utf8 (file_name b p)) s" if "vault_held ?K s b = Some p" for p
      using forget_other_files [OF assms _ q False] that vault_held_Some [OF assms(2)] by blast
    then show ?thesis using False h by (cases "vault_held ?K s b") (simp_all add: key_files_def)
  qed
qed

interpretation vault_texts: failure_atomic
  "\<lambda>s. addr_laws (vkeys V) \<and> vault_ok (vkeys V) s" "key_files (vkeys V)"
  "key_step (vault_create V) (vault_forget V)" "file_effect V" key_legal
  for V
proof (unfold_locales, goal_cases)
  case (1 s c e s')
  then have s: "addr_laws (vkeys V)" "vault_ok (vkeys V) s" by simp_all
  note v = vault.keyed.step_failed [OF 1]
  have "node_at (Utf8 (file_name a p)) s' = node_at (Utf8 (file_name a p)) s" if "key_file (vkeys V) s a p" for a p
    using 1(3) create_failed_files [OF s _ that] forget_failed_files [OF s _ that] by (cases c) auto
  with v key_files_eqI [OF _ s(2)] show ?case by blast
next
  case (2 s c u s')
  then have s: "addr_laws (vkeys V)" "vault_ok (vkeys V) s" by simp_all
  show ?case
    using vault.keyed.step_done [OF 2] 2 create_returned_files [OF s] forget_returned_files [OF s]
    by (cases c) auto
qed

section \<open>A disk that never fails\<close>

text \<open>
  Nothing stands where a create's stage or the lock's file goes, and the lock comes free:
  what every create and forget on such a disk leaves, so that none of them ever fails.
\<close>

definition settled :: "keys \<Rightarrow> fs \<Rightarrow> bool" where
  "settled K s \<longleftrightarrow> (\<forall>a. addr_parse K (to_string a) = Some a \<longrightarrow> healthy_for s a)"

definition clear_way :: "rstr \<Rightarrow> fs \<Rightarrow> bool" where
  "clear_way d s \<longleftrightarrow>
     (node_at (Utf8 d) s = None \<or> is_folder (node_at (Utf8 d) s)) \<and> \<not> is_folder (node_at (Utf8 LOCK_FILE) s)"

definition leaves_clear :: "rstr \<Rightarrow> fs \<Rightarrow> fs \<Rightarrow> bool" where
  "leaves_clear d s s' \<longleftrightarrow> (clear_way d s \<longrightarrow> clear_way d s')"

lemma leaves_clear_trans [simp, intro]: "transp (leaves_clear d)"
  by (auto simp: transp_def leaves_clear_def)

lemma leaves_clear_refl [simp, intro]: "reflp (leaves_clear d)"
  by (simp add: reflp_def leaves_clear_def)

lemma is_folder_simps [simp]:
  "is_folder (Some (Folder es m))" "\<not> is_folder (Some (File f))" "\<not> is_folder None"
  "is_folder (Some (with_mode m x)) = is_folder (Some x)"
  by (cases x; simp add: is_folder_def)+

lemma clear_way_fields [simp]:
  "clear_way d (s\<lparr>ticks := t\<rparr>) = clear_way d s" "clear_way d (s\<lparr>made := b\<rparr>) = clear_way d s"
  "clear_way d (s\<lparr>dmode := m\<rparr>) = clear_way d s"
  by (simp_all add: clear_way_def)

lemma keeps_clear_call:
  assumes "\<And>t s. clear_way d s \<Longrightarrow> clear_way d (half t s)" and "\<And>s. clear_way d s \<Longrightarrow> clear_way d (snd (act s))"
  shows "keeps (leaves_clear d) (sys_call half act)"
  using assms unfolding keeps_def leaves_clear_def
  by (auto simp: sys_call_def Let_def split: option.split)

lemma clear_put_in: "clear_way d s \<Longrightarrow> clear_way d (put_in d n f s)"
  by (auto simp: put_in_def clear_way_def split: option.splits node.splits)

lemma keeps_clear_calls [keeps_intros]:
  assumes "d \<noteq> LOCK_FILE"
  shows "keeps (leaves_clear d) create_dir_all" and "keeps (leaves_clear d) (set_dir_mode m)"
    and "keeps (leaves_clear d) sync_dir" and "keeps (leaves_clear d) (set_permissions d m)"
    and "keeps (leaves_clear d) (create_dir d)" and "keeps (leaves_clear d) (remove_dir_all d)"
    and "keeps (leaves_clear d) (open_or_create LOCK_FILE)" and "keeps (leaves_clear d) (write_in d n t)"
    and "keeps (leaves_clear d) (set_permissions_in d n m)" and "keeps (leaves_clear d) (sync_in d n)"
    and "dest \<noteq> d \<Longrightarrow> dest \<noteq> LOCK_FILE \<Longrightarrow> keeps (leaves_clear d) (rename_out d n dest)"
    and "dest \<noteq> d \<Longrightarrow> dest \<noteq> LOCK_FILE \<Longrightarrow> keeps (leaves_clear d) (remove_file dest)"
  unfolding create_dir_all_def set_dir_mode_def sync_dir_def set_permissions_def create_dir_def
    remove_dir_all_def open_or_create_def write_in_def set_permissions_in_def sync_in_def rename_out_def remove_file_def
  using assms
  by (auto intro!: keeps_clear_call clear_put_in split: option.splits node.splits
      simp: untouched_def) (auto simp: clear_way_def put_file_def split: option.splits node.splits if_splits)

lemma keeps_clear_lock [keeps_intros]:
  "d \<noteq> LOCK_FILE \<Longrightarrow> keeps (leaves_clear d) lock"
  unfolding lock_def
  by (intro keeps_intros leaves_clear_trans) (auto simp: keeps_def leaves_clear_def split: sum.splits)

lemma keeps_clear_drop: "d \<noteq> LOCK_FILE \<Longrightarrow> leaves_clear d s (drop_stage d s)"
  using keeps_clear_calls(6) [of d] by (simp add: keeps_def drop_stage_def)

lemma keeps_clear_stage [keeps_intros]:
  assumes "d \<noteq> LOCK_FILE"
  shows "keeps (leaves_clear d) (stage_create d)"
proof -
  have "keeps (leaves_clear d) (\<lambda>s. case set_permissions d (octal 7 0 0) s of
         (Inl e, s') \<Rightarrow> (Inl e, drop_stage d s') | (Inr u, s') \<Rightarrow> (Inr u, s'))"
    unfolding keeps_def
    using keepsD [OF keeps_clear_calls(4) [OF assms]] transpD [OF leaves_clear_trans] keeps_clear_drop [OF assms]
    by (auto split: prod.splits sum.splits) blast+
  then show ?thesis unfolding stage_create_def by (intro keeps_intros leaves_clear_trans assms)
qed

lemma staged_leaves_clear:
  assumes "addr_laws (vkeys V)" and "length key = 32" and "a = addr_of (vkeys V) key"
  shows "keeps (leaves_clear (stage_dir a)) (create_staged V a key pw ent)"
proof -
  let ?d = "stage_dir a"
  have n: "?d \<noteq> LOCK_FILE" using stage_not_lock by simp
  have v: "addr_parse (vkeys V) (to_string a) = Some a" unfolding assms(3) by (rule addr_laws_of [OF assms(1,2)])
  have f: "file_name a q \<noteq> ?d" "file_name a q \<noteq> LOCK_FILE" for q
    using stage_not_key_file [OF assms(1) v, of a q] lock_not_key_file [of a q] by auto
  have "keeps (leaves_clear ?d) (promote ?d (file_name a (pw \<noteq> None)))"
    unfolding promote_def by (intro keeps_intros leaves_clear_trans n f)
  moreover have "keeps (leaves_clear ?d) (case pw of Some p \<Rightarrow> seal V ?d key p ent | None \<Rightarrow> write_open V ?d a key)"
    by (auto simp: seal_def write_open_def intro!: keeps_intros n split: option.split sum.split)
  ultimately show ?thesis
    unfolding create_staged_def
    by (intro keeps_intros leaves_clear_trans leaves_clear_refl n; assumption?)
qed

lemma create_leaves_clear:
  assumes "addr_laws (vkeys V)" and "length key = 32" and "d = stage_dir (addr_of (vkeys V) key)"
  shows "keeps (leaves_clear d) (vault_create V key pw ent)"
  using staged_leaves_clear [OF assms(1,2) refl, of pw ent] stage_not_lock
  unfolding vault_create_def Let_def assms(3)
  by (intro keeps_intros leaves_clear_trans leaves_clear_refl keeps_clear_drop; assumption?)

lemma stage_dir_inj: "stage_dir a = stage_dir b \<longleftrightarrow> a = b"
  by (auto simp: stage_dir_def AccountAddr.expand)

lemma healthy_for_eq:
  "healthy_for s a \<longleftrightarrow> never_fails s \<and> (\<exists>i. lock_loop (try_lock s) (overslept s) 0 0 LOCK_WAIT = Inr i)
     \<and> clear_way (stage_dir a) s"
  by (simp add: healthy_for_def clear_way_def)

lemma settled_environs:
  assumes "frame N s s'" and "\<And>b. addr_parse K (to_string b) = Some b \<Longrightarrow> leaves_clear (stage_dir b) s s'"
    and "settled K s"
  shows "settled K s'"
  using assms never_fails_frame [OF assms(1)] frame_environs [OF assms(1)]
  by (auto simp: settled_def healthy_for_eq leaves_clear_def environs_def)

lemma create_settled:
  assumes "addr_laws (vkeys V)" and "length key = 32" and "settled (vkeys V) s"
    and "vault_create V key pw ent s = (r, s')"
  shows "settled (vkeys V) s'"
proof -
  let ?a = "addr_of (vkeys V) key"
  let ?N = "{Utf8 (stage_dir ?a), Utf8 LOCK_FILE, Utf8 (file_name ?a (pw \<noteq> None))}"
  have f: "frame ?N s s'"
  proof (cases r)
    case (Inl e)
    from frame_mono [OF create_Inl_frame [OF assms(4) [unfolded Inl]], of ?N] show ?thesis by blast
  next
    case (Inr b)
    then show ?thesis using create_Inr [OF _ refl] assms(4) by metis
  qed
  have v: "addr_parse (vkeys V) (to_string ?a) = Some ?a" by (rule addr_laws_of [OF assms(1,2)])
  have own: "leaves_clear (stage_dir ?a) s s'"
    by (rule keepsD [OF create_leaves_clear [OF assms(1,2) refl] assms(4)])
  show ?thesis
  proof (rule settled_environs [OF f _ assms(3)])
    fix b
    assume "addr_parse (vkeys V) (to_string b) = Some b"
    show "leaves_clear (stage_dir b) s s'"
    proof (cases "b = ?a")
      case False
      then have "node_at (Utf8 (stage_dir b)) s' = node_at (Utf8 (stage_dir b)) s"
        using stage_not_lock [of b] stage_not_key_file [OF assms(1) v, of b]
        by (intro frame_node [OF f]) (simp add: stage_dir_inj)
      moreover have "clear_way (stage_dir ?a) s" using assms(3) v by (simp add: settled_def healthy_for_eq)
      ultimately show ?thesis using own by (simp add: leaves_clear_def clear_way_def)
    qed (simp add: own)
  qed
qed

lemma forget_settled:
  assumes "addr_laws (vkeys V)" and "vault_ok (vkeys V) s" and "settled (vkeys V) s"
    and "vault_forget V a s = (r, s')"
  shows "settled (vkeys V) s'"
proof (cases "find_held V a s")
  case (Inl e)
  with assms(3,4) show ?thesis by (simp add: vault_forget_def and_then_def of_read_def)
next
  case (Inr h)
  let ?n = "file_name a (protected h)"
  have v: "addr_parse (vkeys V) (to_string a) = Some a"
    using find_held_Inr [OF assms(1,2) Inr] by (simp add: key_file_def)
  have e: "and_then (io lock) (\<lambda>_. io (remove_file ?n)) s = (r, s')"
    using assms(4) Inr by (simp add: vault_forget_def and_then_def of_read_def)
  have n: "?n \<noteq> stage_dir b" "?n \<noteq> LOCK_FILE" for b
    using stage_not_key_file [OF assms(1) v, of b] lock_not_key_file [of a] by metis+
  have "keeps (leaves_clear (stage_dir b)) (and_then (io lock) (\<lambda>_. io (remove_file ?n)))" for b
    by (intro keeps_intros leaves_clear_trans stage_not_lock n)
  from keepsD [OF this e] show ?thesis
    using forget_keeps [OF assms(4)] settled_environs [OF _ _ assms(3)] by blast
qed

text \<open>The answers.\<close>

definition seals :: "vault_crates \<Rightarrow> bool" where
  "seals V \<longleftrightarrow> (\<forall>n key w. length key = 32 \<longrightarrow> (\<exists>t. encrypt_key V n key w = Inr t))"

lemma create_answers:
  assumes "addr_laws (vkeys V)" and "vault_ok (vkeys V) s" and "settled (vkeys V) s" and "seals V"
    and "length key = 32"
  shows "fst (vault_create V key pw ent s) =
    (if pw = Some [] then Inl EmptyPassword
     else if vault_held (vkeys V) s (addr_of (vkeys V) key) = None then Inr (addr_of (vkeys V) key)
     else Inl (AccountExists (addr_of (vkeys V) key)))"
proof (cases "pw = Some []")
  case True
  then show ?thesis by (simp add: vault_create_def fail_def)
next
  case False
  have h: "healthy_for s (addr_of (vkeys V) key)"
    using assms(3) addr_laws_of [OF assms(1,5)] by (simp add: settled_def)
  have t: "\<And>w. pw = Some w \<Longrightarrow> \<exists>t. encrypt_key V ent key w = Inr t"
    using assms(4,5) by (simp add: seals_def)
  show ?thesis
    using False create_succeeds [OF assms(1,2,5) False t h] create_refused [OF assms(1,2,5) False t h]
    by (cases "vault_held (vkeys V) s (addr_of (vkeys V) key)") auto
qed

lemma forget_answers:
  assumes "addr_laws (vkeys V)" and "vault_ok (vkeys V) s" and "settled (vkeys V) s"
    and "\<And>p x. key_files (vkeys V) s a = Some (p, x) \<Longrightarrow> \<not> is_folder x"
  shows "fst (vault_forget V a s) = (if vault_held (vkeys V) s a = None then Inl NoAccount else Inr ())"
proof (cases "vault_held (vkeys V) s a")
  case None
  obtain hs where hs: "vault_accounts V s = Inr hs" using vault_accounts_total [OF assms(1,2)] by blast
  have "a \<notin> addr ` set hs" using vault_accounts_addrs [OF assms(1,2) hs] None by (simp add: vault_held_None)
  then have "find (\<lambda>h. addr h = a) hs = None" by (auto simp: find_None_iff)
  then show ?thesis using None hs by (simp add: vault_forget_def find_held_def and_then_def of_read_def)
next
  case (Some p)
  let ?n = "file_name a p"
  have k: "key_file (vkeys V) s a p" using Some vault_held_Some [OF assms(2)] by simp
  then have v: "addr_parse (vkeys V) (to_string a) = Some a" and ex: "node_at (Utf8 ?n) s \<noteq> None"
    by (simp_all add: key_file_def)
  have h: "healthy_for s a" using assms(3) v by (simp add: settled_def)
  have m: "made s" using assms(2) k by (auto simp: vault_ok_def)
  obtain s1 where 1: "lock s = (Inr (), s1)"
    using lock_healthy [of s] h m by (auto simp: healthy_for_def)
  have "keeps (frame {Utf8 LOCK_FILE}) lock" by (intro keeps_intros) simp
  note f = keepsD [OF this 1]
  have nf: "never_fails s1" using never_fails_frame [OF f] h by (simp add: healthy_for_def)
  have "node_at (Utf8 ?n) s1 = node_at (Utf8 ?n) s" using lock_not_key_file [of a p] by (simp add: frame_node [OF f])
  moreover have "\<not> is_folder (node_at (Utf8 ?n) s)"
    using assms(4) [of p] key_files_Some [OF assms(2)] k by blast
  ultimately have "\<exists>g. node_at (Utf8 ?n) s1 = Some (File g)"
    using ex by (auto simp: is_folder_def split: node.splits)
  then have "fst (remove_file ?n s1) = Inr ()"
    using nf by (auto simp: remove_file_def sys_call_healthy)
  then have "fst (io (remove_file ?n) s1) = Inr ()"
    by (simp add: io_def map_err_op_def case_prod_beta)
  then show ?thesis
    using 1 find_held_complete [OF assms(1,2) k] Some
    by (simp add: vault_forget_def and_then_def of_read_def io_def map_err_op_def)
qed

end
