(* ===== verification/Scenario.thy ===== *)
theory Scenario
  imports Rust_Prelude
begin

text \<open>
  What the repository's own tests are written with: a step that has to return
  (\<open>unwrap\<close>), one that has to fail (\<open>unwrap_err\<close>, \<open>matches!(_, Err(_))\<close>), each with what is
  asked of the value and the state it leads to. A step that panics fails its test.
\<close>

definition unwrap :: "('e + 'a) \<times> 's \<Rightarrow> ('a \<Rightarrow> 's \<Rightarrow> bool) \<Rightarrow> bool" where
  "unwrap x P = (case x of (Inr a, s) \<Rightarrow> P a s | (Inl e, s) \<Rightarrow> False)"

definition unwrap_err :: "('e + 'a) \<times> 's \<Rightarrow> ('e \<Rightarrow> 's \<Rightarrow> bool) \<Rightarrow> bool" where
  "unwrap_err x P = (case x of (Inr a, s) \<Rightarrow> False | (Inl e, s) \<Rightarrow> P e s)"

lemma unwrap_simps [simp]:
  "unwrap (Inr a, s) P = P a s" "unwrap (Inl e, s) P = False"
  "unwrap_err (Inl e, s) Q = Q e s" "unwrap_err (Inr a, s) Q = False"
  by (simp_all add: unwrap_def unwrap_err_def)

lemma unwrap_iff: "unwrap x P \<longleftrightarrow> (\<exists>a s. x = (Inr a, s) \<and> P a s)"
  by (auto simp: unwrap_def split: prod.splits sum.splits)

lemma unwrap_err_iff: "unwrap_err x P \<longleftrightarrow> (\<exists>e s. x = (Inl e, s) \<and> P e s)"
  by (auto simp: unwrap_err_def split: prod.splits sum.splits)

end
