(* ===== verification/Vault_Secrets.thy ===== *)
theory Vault_Secrets
  imports Vault_Keys Scenario
begin

text \<open>
  The vault as a key service: which key opens each account, and under which password, after
  any session; and the interface this makes on a disk that never fails.
\<close>

section \<open>What the files hold\<close>

text \<open>
  Which key each account has, and the password and the entropy it was sealed with. \<open>holds\<close>:
  the vault's files are exactly those a create makes of them.
\<close>

type_synonym secrets = "AccountAddr \<rightharpoonup> SigningKey \<times> rstr option \<times> nat"

definition files_of :: "vault_crates \<Rightarrow> secrets \<Rightarrow> (AccountAddr \<rightharpoonup> bool \<times> node option)" where
  "files_of V M a = map_option (\<lambda>(k, pw, n). (pw \<noteq> None, Some (file_of V k pw n))) (M a)"

definition holds :: "vault_crates \<Rightarrow> secrets \<Rightarrow> fs \<Rightarrow> bool" where
  "holds V M s \<longleftrightarrow>
     vault_ok (vkeys V) s \<and> key_files (vkeys V) s = files_of V M
     \<and> (\<forall>a k pw n. M a = Some (k, pw, n) \<longrightarrow>
          addr_of (vkeys V) k = a \<and> length k = 32 \<and> vault_text V k pw n (text_of V k pw n))"

fun secret_effect :: "keys \<Rightarrow> key_command \<Rightarrow> secrets \<Rightarrow> secrets" where
  "secret_effect K (Insert k pw n) M = M(addr_of K k \<mapsto> (k, pw, n))"
| "secret_effect K (Forget a) M = M(a := None)"

lemma files_of_effect: "files_of V (secret_effect (vkeys V) c M) = file_effect V c (files_of V M)"
  by (cases c) (auto simp: files_of_def)

lemma holds_held: "holds V M s \<Longrightarrow> vault_held (vkeys V) s a = map_option (\<lambda>(k, pw, n). pw \<noteq> None) (M a)"
proof -
  assume "holds V M s"
  then have "key_files (vkeys V) s a = files_of V M a" by (simp add: holds_def)
  then show ?thesis
    by (cases "M a"; cases "vault_held (vkeys V) s a") (auto simp: key_files_def files_of_def)
qed

lemma holds_step:
  assumes "addr_laws (vkeys V)" and "holds V M s" and "key_legal c"
    and "key_step (vault_create V) (vault_forget V) c s = (r, s')"
  shows "holds V (if is_ok r then secret_effect (vkeys V) c M else M) s'"
proof -
  have s: "vault_ok (vkeys V) s" using assms(2) by (simp add: holds_def)
  have o: "vault_ok (vkeys V) s'"
    "key_files (vkeys V) s' = (if is_ok r then file_effect V c (key_files (vkeys V) s) else key_files (vkeys V) s)"
    using vault_texts.step_outcome [OF conjI [OF assms(1) s] assms(3,4)] by simp_all
  have "addr_of (vkeys V) k = a \<and> length k = 32 \<and> vault_text V k pw n (text_of V k pw n)"
    if "is_ok r" and m: "secret_effect (vkeys V) c M a = Some (k, pw, n)" for a k pw n
  proof (cases "M a = Some (k, pw, n)")
    case True
    then show ?thesis using assms(2) by (simp add: holds_def)
  next
    case False
    with m obtain key p e where c: "c = Insert key p e" and e: "(key, p, e) = (k, pw, n)"
      and a: "a = addr_of (vkeys V) key" by (cases c) (auto split: if_splits)
    obtain b where b: "vault_create V k pw n s = (Inr b, s')"
      using assms(4) \<open>is_ok r\<close> c e by (cases r) auto
    from create_Inr [OF b refl] obtain t where "vault_text V k pw n t" by metis
    then show ?thesis using vault_text_of [of V k pw n t] a e c assms(3) by auto
  qed
  then show ?thesis using o assms(2) by (auto simp: holds_def files_of_effect)
qed

lemma holds_session:
  "addr_laws (vkeys V) \<Longrightarrow> holds V M s \<Longrightarrow> list_all key_legal cs \<Longrightarrow>
     session (key_step (vault_create V) (vault_forget V)) cs s = (oks, s') \<Longrightarrow>
     holds V (effects (secret_effect (vkeys V)) (zip cs oks) M) s'"
proof (induction cs arbitrary: M s oks)
  case Nil
  then show ?case by simp
next
  case (Cons c cs)
  obtain r s1 oks' where 1: "key_step (vault_create V) (vault_forget V) c s = (r, s1)"
    and 2: "session (key_step (vault_create V) (vault_forget V)) cs s1 = (oks', s')" and o: "oks = is_ok r # oks'"
    using Cons.prems(4) by (auto split: prod.splits)
  have "holds V (if is_ok r then secret_effect (vkeys V) c M else M) s1"
    using holds_step [OF Cons.prems(1,2) _ 1] Cons.prems(3) by simp
  from Cons.IH [OF Cons.prems(1) this _ 2] Cons.prems(3) o show ?case by simp
qed

text \<open>The answer an open has to give.\<close>

definition open_answer :: "(AccountAddr \<rightharpoonup> SigningKey \<times> rstr option) \<Rightarrow> AccountAddr \<Rightarrow> rstr option \<Rightarrow> VaultError + SigningKey" where
  "open_answer M a password =
     (case M a of
        None \<Rightarrow> Inl NoAccount
      | Some (key, None) \<Rightarrow> if password = None then Inr key else Inl PasswordNotRequired
      | Some (key, Some w) \<Rightarrow>
          (case password of
             None \<Rightarrow> Inl PasswordRequired
           | Some given \<Rightarrow> if given = w then Inr key else Inl WrongPassword))"

text \<open>
  \<open>eth_keystore\<close> authenticates what it decrypts (\<open>MacMismatch\<close>, which \<open>vault.rs\<close> reports as a
  wrong password); whether it tells two given passwords apart is its own.
\<close>

definition tells_apart :: "vault_crates \<Rightarrow> rstr \<Rightarrow> rstr \<Rightarrow> bool" where
  "tells_apart V w given \<longleftrightarrow>
     (\<forall>n k t. length k = 32 \<longrightarrow> encrypt_key V n k w = Inr t \<longrightarrow> decrypt_key V t given = Inl MacMismatch)"

definition told_apart :: "vault_crates \<Rightarrow> (AccountAddr \<rightharpoonup> SigningKey \<times> rstr option) \<Rightarrow> AccountAddr \<Rightarrow> rstr option \<Rightarrow> bool" where
  "told_apart V M a password \<longleftrightarrow>
     (\<forall>key w given. M a = Some (key, Some w) \<longrightarrow> password = Some given \<longrightarrow> given \<noteq> w \<longrightarrow> tells_apart V w given)"

definition sealed_under :: "secrets \<Rightarrow> (AccountAddr \<rightharpoonup> SigningKey \<times> rstr option)" where
  "sealed_under M a = map_option (\<lambda>(k, pw, n). (k, pw)) (M a)"

lemma holds_open:
  assumes "addr_laws (vkeys V)" and "hex_laws (vhex V)" and "open_json_law V" and "keystore_law V"
    and "holds V M s" and "told_apart V (sealed_under M) a password"
  shows "vault_open V a password s = open_answer (sealed_under M) a password"
proof (cases "M a")
  case None
  have ok: "vault_ok (vkeys V) s" using assms(5) by (simp add: holds_def)
  have "vault_open V a password s = Inl NoAccount"
    using holds_held [OF assms(5), of a] None
    by (intro vault_open_unheld [OF assms(1) ok]) (simp add: vault_held_None)
  then show ?thesis using None by (simp add: open_answer_def sealed_under_def)
next
  case (Some m)
  obtain k pw n where m: "m = (k, pw, n)" by (cases m)
  have h: "addr_of (vkeys V) k = a" "length k = 32" "vault_text V k pw n (text_of V k pw n)"
    and ok: "vault_ok (vkeys V) s" and f: "key_files (vkeys V) s a = Some (pw \<noteq> None, Some (file_of V k pw n))"
    using assms(5) Some m by (simp_all add: holds_def files_of_def)
  have kf: "key_file (vkeys V) s a (pw \<noteq> None)"
    and nd: "node_at (Utf8 (file_name a (pw \<noteq> None))) s = Some (file_of V k pw n)"
    using f key_files_Some [OF ok] by metis+
  note right = written_file_opens [OF assms(1-4) ok h(2) h(1) [symmetric] nd [unfolded file_of_def] _ h(3)]
  show ?thesis
  proof (cases "password = pw")
    case True
    then show ?thesis using right Some m by (cases pw) (simp_all add: open_answer_def sealed_under_def)
  next
    case False
    show ?thesis
    proof (cases "\<exists>w given. pw = Some w \<and> password = Some given")
      case True
      then obtain w given where w: "pw = Some w" "password = Some given" by blast
      then have d: "decrypt_key V (text_of V k pw n) given = Inl MacMismatch"
        using assms(6) False h(2,3) Some m
        by (auto simp: told_apart_def tells_apart_def vault_text_def sealed_under_def)
      have "encrypt_key V n k w = Inr (text_of V k pw n)" using h(3) w(1) by (simp add: vault_text_def)
      then obtain v where "value_parser V (text_of V k pw n) = Inr v" and "written_params V v"
        using assms(4) h(2) unfolding keystore_law_def by blast
      note p = check_params_written [OF this]
      have r: "read_to_string (file_name a True) s = Inr (text_of V k pw n)"
        using nd ok w by (simp add: read_to_string_def vault_ok_def readable_def file_of_def)
      have "open_sealed V (file_name a True) given s = Inl WrongPassword"
        by (simp add: open_sealed_def r p d)
      then show ?thesis
        using vault_open_held [OF assms(1) ok kf, of password] w False Some m
        by (simp add: open_answer_def sealed_under_def)
    next
      case False
      with \<open>password \<noteq> pw\<close> show ?thesis
        using vault_open_held [OF assms(1) ok kf, of password] Some m
        by (cases pw; cases password) (simp_all add: open_answer_def sealed_under_def)
    qed
  qed
qed

section \<open>The interface\<close>

text \<open>
  A key service: a map from addresses to keys and passwords, with an insertion that never
  replaces. \<open>at M s\<close> says that \<open>s\<close> is at the map \<open>M\<close>; every command answers, and leads to a
  state at the map it should.
\<close>

definition listing_of :: "(AccountAddr \<rightharpoonup> SigningKey \<times> rstr option) \<Rightarrow> StoredAccount list" where
  "listing_of M = map (\<lambda>a. StoredAccount a (snd (the (M a)) \<noteq> None)) (sorted_list_of_set (dom M))"

text \<open>When a command is carried out, and what is kept after it.\<close>

fun allowed :: "(SigningKey \<Rightarrow> AccountAddr) \<Rightarrow> key_command \<Rightarrow> (AccountAddr \<rightharpoonup> SigningKey \<times> rstr option) \<Rightarrow> bool" where
  "allowed ka (Insert k pw n) M \<longleftrightarrow> pw \<noteq> Some [] \<and> M (ka k) = None"
| "allowed ka (Forget a) M \<longleftrightarrow> M a \<noteq> None"

fun map_after ::
  "(SigningKey \<Rightarrow> AccountAddr) \<Rightarrow> key_command \<Rightarrow> (AccountAddr \<rightharpoonup> SigningKey \<times> rstr option) \<Rightarrow>
   (AccountAddr \<rightharpoonup> SigningKey \<times> rstr option)" where
  "map_after ka (Insert k pw n) M = (if allowed ka (Insert k pw n) M then M(ka k \<mapsto> (k, pw)) else M)"
| "map_after ka (Forget a) M = M(a := None)"

fun outcomes ::
  "(SigningKey \<Rightarrow> AccountAddr) \<Rightarrow> key_command list \<Rightarrow> (AccountAddr \<rightharpoonup> SigningKey \<times> rstr option) \<Rightarrow> bool list" where
  "outcomes ka [] M = []"
| "outcomes ka (c # cs) M = allowed ka c M # outcomes ka cs (map_after ka c M)"

locale key_service =
  fixes at :: "(AccountAddr \<rightharpoonup> SigningKey \<times> rstr option) \<Rightarrow> 's \<Rightarrow> bool"
    and create_key :: "SigningKey \<Rightarrow> rstr option \<Rightarrow> nat \<Rightarrow> ('s, VaultError, AccountAddr) op"
    and forget_key :: "AccountAddr \<Rightarrow> ('s, VaultError, unit) op"
    and open_key :: "AccountAddr \<Rightarrow> rstr option \<Rightarrow> 's \<Rightarrow> VaultError + SigningKey"
    and list_keys :: "'s \<Rightarrow> VaultError + StoredAccount list"
    and key_addr :: "SigningKey \<Rightarrow> AccountAddr"
    and apart :: "(AccountAddr \<rightharpoonup> SigningKey \<times> rstr option) \<Rightarrow> AccountAddr \<Rightarrow> rstr option \<Rightarrow> bool"
  assumes create_new: "at M s \<Longrightarrow> length k = 32 \<Longrightarrow> pw \<noteq> Some [] \<Longrightarrow> M (key_addr k) = None \<Longrightarrow>
      \<exists>s'. create_key k pw n s = (Inr (key_addr k), s') \<and> at (M(key_addr k \<mapsto> (k, pw))) s'"
    and create_held: "at M s \<Longrightarrow> length k = 32 \<Longrightarrow> pw \<noteq> Some [] \<Longrightarrow> M (key_addr k) \<noteq> None \<Longrightarrow>
      \<exists>s'. create_key k pw n s = (Inl (AccountExists (key_addr k)), s') \<and> at M s'"
    and create_unnamed: "at M s \<Longrightarrow> length k = 32 \<Longrightarrow> create_key k (Some []) n s = (Inl EmptyPassword, s)"
    and forget_held: "at M s \<Longrightarrow> M a \<noteq> None \<Longrightarrow> \<exists>s'. forget_key a s = (Inr (), s') \<and> at (M(a := None)) s'"
    and forget_absent: "at M s \<Longrightarrow> M a = None \<Longrightarrow> forget_key a s = (Inl NoAccount, s)"
    and open_answers: "at M s \<Longrightarrow> apart M a pw \<Longrightarrow> open_key a pw s = open_answer M a pw"
    and list_answers: "at M s \<Longrightarrow> list_keys s = Inr (listing_of M)"
begin

lemma create_outcome:
  assumes "at M s" and "length k = 32" and "create_key k pw n s = (r, s')"
  shows "at (if is_ok r then M(key_addr k \<mapsto> (k, pw)) else M) s'"
    and "is_ok r \<longleftrightarrow> pw \<noteq> Some [] \<and> M (key_addr k) = None"
  using create_new [OF assms(1,2), of pw n] create_held [OF assms(1,2), of pw n]
    create_unnamed [OF assms(1,2), of n] assms by (cases "pw = Some []"; cases "M (key_addr k)"; auto)+

lemma forget_outcome:
  assumes "at M s" and "forget_key a s = (r, s')"
  shows "at (M(a := None)) s'" and "is_ok r \<longleftrightarrow> M a \<noteq> None"
proof -
  have "M a = None \<Longrightarrow> M(a := None) = M" by (simp add: fun_upd_idem)
  then show "at (M(a := None)) s'" "is_ok r \<longleftrightarrow> M a \<noteq> None"
    using forget_held [OF assms(1), of a] forget_absent [OF assms(1), of a] assms by (cases "M a"; auto)+
qed

lemma step_runs:
  assumes "at M s" and "key_legal c" and "key_step create_key forget_key c s = (r, s')"
  shows "at (map_after key_addr c M) s' \<and> is_ok r = allowed key_addr c M"
proof (cases c)
  case (Insert k pw n)
  obtain r0 where 1: "create_key k pw n s = (r0, s')" and 2: "is_ok r = is_ok r0"
    using assms(3) Insert by (cases "create_key k pw n s"; cases "fst (create_key k pw n s)")
      (auto simp: void_def and_then_def ok_def)
  have k: "length k = 32" using assms(2) Insert by simp
  show ?thesis using create_outcome [OF assms(1) k 1] 2 Insert by auto
next
  case (Forget a)
  then show ?thesis using forget_outcome [OF assms(1), of a r s'] assms(3) by simp
qed

lemma session_runs:
  "at M s \<Longrightarrow> list_all key_legal cs \<Longrightarrow> session (key_step create_key forget_key) cs s = (oks, s') \<Longrightarrow>
     at (fold (map_after key_addr) cs M) s' \<and> oks = outcomes key_addr cs M"
proof (induction cs arbitrary: M s oks)
  case Nil
  then show ?case by simp
next
  case (Cons c cs)
  obtain r s1 oks' where 1: "key_step create_key forget_key c s = (r, s1)"
    and 2: "session (key_step create_key forget_key) cs s1 = (oks', s')" and o: "oks = is_ok r # oks'"
    using Cons.prems(3) by (auto split: prod.splits)
  note c = step_runs [OF Cons.prems(1) _ 1]
  from Cons.IH [OF _ _ 2, of "map_after key_addr c M"] c Cons.prems(2) o show ?case by simp
qed

text \<open>The rules a scenario is run by: what is expected of an outcome, at the map it leads to.\<close>

lemma unwrap_create:
  assumes "at M s" and "length k = 32" and "pw \<noteq> Some []" and "M (key_addr k) = None"
    and "\<And>s'. at (M(key_addr k \<mapsto> (k, pw))) s' \<Longrightarrow> P (key_addr k) s'"
  shows "unwrap (create_key k pw n s) P"
  using create_new [OF assms(1-4), of n] assms(5) by auto

lemma unwrap_create_two:
  assumes "at M s" and "length k = 32" and "length l = 32" and "pw \<noteq> Some []" and "pw' \<noteq> Some []"
    and "M (key_addr k) = None" and "M (key_addr l) = None" and "key_addr k \<noteq> key_addr l"
    and "\<And>s'. at (M(key_addr k \<mapsto> (k, pw), key_addr l \<mapsto> (l, pw'))) s' \<Longrightarrow> P (key_addr k) (key_addr l) s'"
  shows "unwrap (create_key k pw n s) (\<lambda>a s. unwrap (create_key l pw' n' s) (P a))"
proof (rule unwrap_create [OF assms(1,2,4,6)])
  fix s'
  assume 1: "at (M(key_addr k \<mapsto> (k, pw))) s'"
  show "unwrap (create_key l pw' n' s') (P (key_addr k))"
    by (rule unwrap_create [OF 1 assms(3,5)]) (use assms(7-9) in auto)
qed

lemma unwrap_err_create:
  assumes "at M s" and "length k = 32" and "pw \<noteq> Some []" and "M (key_addr k) \<noteq> None"
    and "\<And>s'. at M s' \<Longrightarrow> P (AccountExists (key_addr k)) s'"
  shows "unwrap_err (create_key k pw n s) P"
  using create_held [OF assms(1-4), of n] assms(5) by auto

lemma unwrap_forget:
  assumes "at M s" and "M a \<noteq> None" and "\<And>s'. at (M(a := None)) s' \<Longrightarrow> P () s'"
  shows "unwrap (forget_key a s) P"
  using forget_held [OF assms(1,2)] assms(3) by auto

end

section \<open>The vault is a key service\<close>

definition vault_laws :: "vault_crates \<Rightarrow> bool" where
  "vault_laws V \<longleftrightarrow> addr_laws (vkeys V) \<and> hex_laws (vhex V) \<and> open_json_law V \<and> keystore_law V \<and> seals V"

definition stocked :: "vault_crates \<Rightarrow> (AccountAddr \<rightharpoonup> SigningKey \<times> rstr option) \<Rightarrow> fs \<Rightarrow> bool" where
  "stocked V M s \<longleftrightarrow> vault_laws V \<and> settled (vkeys V) s \<and> (\<exists>N. holds V N s \<and> M = sealed_under N)"

lemma sealed_under_upd [simp]:
  "sealed_under (N(a \<mapsto> (k, pw, n))) = (sealed_under N)(a \<mapsto> (k, pw))"
  "sealed_under (N(a := None)) = (sealed_under N)(a := None)"
  "sealed_under N a = None \<longleftrightarrow> N a = None"
  by (auto simp: sealed_under_def)

lemma holds_listing:
  assumes "addr_laws (vkeys V)" and "holds V N s"
  shows "vault_accounts V s = Inr (listing_of (sealed_under N))"
proof -
  let ?K = "vkeys V" and ?M = "sealed_under N"
  have ok: "vault_ok ?K s" using assms(2) by (simp add: holds_def)
  obtain hs where hs: "vault_accounts V s = Inr hs" using vault_accounts_total [OF assms(1) ok] by blast
  have d: "a \<in> addr ` set hs \<longleftrightarrow> a \<in> dom ?M" for a
    using vault_accounts_addrs [OF assms(1) ok hs, of a] holds_held [OF assms(2), of a]
      vault_held_None [of ?K s a] by (auto simp: sealed_under_def)
  have p: "protected h = (snd (the (?M (addr h))) \<noteq> None)" if h: "h \<in> set hs" for h
  proof -
    have "vault_held ?K s (addr h) = Some (protected h)"
      using vault_held_accounts [OF assms(1) ok hs, of "addr h" "protected h"] h by simp
    then show ?thesis using holds_held [OF assms(2), of "addr h"]
      by (cases "N (addr h)") (auto simp: sealed_under_def)
  qed
  have "map addr hs = sorted_list_of_set (dom ?M)"
    using vault_accounts_Inr(1,2) [OF hs] d
    by (metis List.finite_set distinct_sorted_list_of_set list.set_map set_sorted_list_of_set sorted_distinct_set_unique
        sorted_sorted_list_of_set subsetI subset_antisym)
  then have "listing_of ?M = map (\<lambda>a. StoredAccount a (snd (the (?M a)) \<noteq> None)) (map addr hs)"
    by (simp add: listing_of_def)
  also have "\<dots> = hs" using p by (auto simp: StoredAccount.expand intro!: map_idI)
  finally show ?thesis using hs by simp
qed

interpretation vault_service: key_service
  "stocked V" "vault_create V" "vault_forget V" "vault_open V" "vault_accounts V" "addr_of (vkeys V)" "told_apart V"
  for V
proof (unfold_locales, goal_cases)
  case (1 M s k pw n)
  then obtain N where N: "holds V N s" "M = sealed_under N" and l: "vault_laws V" and st: "settled (vkeys V) s"
    by (auto simp: stocked_def)
  have laws: "addr_laws (vkeys V)" "seals V" and ok: "vault_ok (vkeys V) s"
    using l N(1) by (simp_all add: vault_laws_def holds_def)
  obtain s' where c: "vault_create V k pw n s = (Inr (addr_of (vkeys V) k), s')"
    using create_answers [OF laws(1) ok st laws(2) 1(2), of pw n] 1(3,4) N holds_held [OF N(1)]
    by (cases "vault_create V k pw n s") auto
  have "key_step (vault_create V) (vault_forget V) (Insert k pw n) s = (Inr (), s')"
    using c by (simp add: void_def and_then_def ok_def)
  from holds_step [OF laws(1) N(1) _ this] 1(2) have "holds V (N(addr_of (vkeys V) k \<mapsto> (k, pw, n))) s'" by simp
  moreover have "settled (vkeys V) s'" by (rule create_settled [OF laws(1) 1(2) st c])
  ultimately show ?case using c l N(2) unfolding stocked_def by (metis sealed_under_upd(1))
next
  case (2 M s k pw n)
  then obtain N where N: "holds V N s" "M = sealed_under N" and l: "vault_laws V" and st: "settled (vkeys V) s"
    by (auto simp: stocked_def)
  have laws: "addr_laws (vkeys V)" "seals V" and ok: "vault_ok (vkeys V) s"
    using l N(1) by (simp_all add: vault_laws_def holds_def)
  obtain s' where c: "vault_create V k pw n s = (Inl (AccountExists (addr_of (vkeys V) k)), s')"
    using create_answers [OF laws(1) ok st laws(2) 2(2), of pw n] 2(3,4) N holds_held [OF N(1)]
    by (cases "vault_create V k pw n s") (auto split: if_splits)
  have "key_step (vault_create V) (vault_forget V) (Insert k pw n) s = (Inl (AccountExists (addr_of (vkeys V) k)), s')"
    using c by (simp add: void_def and_then_def)
  from holds_step [OF laws(1) N(1) _ this] 2(2) have "holds V N s'" by simp
  moreover have "settled (vkeys V) s'" by (rule create_settled [OF laws(1) 2(2) st c])
  ultimately show ?case using c l N(2) unfolding stocked_def by metis
next
  case (3 M s k n)
  then show ?case by (simp add: vault_create_def fail_def)
next
  case (4 M s a)
  then obtain N where N: "holds V N s" "M = sealed_under N" and l: "vault_laws V" and st: "settled (vkeys V) s"
    by (auto simp: stocked_def)
  have laws: "addr_laws (vkeys V)" and ok: "vault_ok (vkeys V) s"
    using l N(1) by (simp_all add: vault_laws_def holds_def)
  have "\<not> is_folder x" if "key_files (vkeys V) s a = Some (p, x)" for p x
    using that N(1) by (auto simp: holds_def files_of_def file_of_def)
  from forget_answers [OF laws ok st this] have "fst (vault_forget V a s) = Inr ()"
    using 4(2) N holds_held [OF N(1)] by auto
  then obtain s' where c: "vault_forget V a s = (Inr (), s')" by (cases "vault_forget V a s") auto
  have "key_step (vault_create V) (vault_forget V) (Forget a) s = (Inr (), s')" using c by simp
  from holds_step [OF laws N(1) _ this] have "holds V (N(a := None)) s'" by simp
  moreover have "settled (vkeys V) s'" by (rule forget_settled [OF laws ok st c])
  ultimately show ?case using c l N(2) unfolding stocked_def by (metis sealed_under_upd(2))
next
  case (5 M s a)
  then obtain N where N: "holds V N s" "M = sealed_under N" and l: "vault_laws V"
    by (auto simp: stocked_def)
  have "vault_accounts V s = Inr (listing_of M)" using holds_listing [OF _ N(1)] l N(2) by (simp add: vault_laws_def)
  moreover have "find (\<lambda>h. addr h = a) (listing_of M) = None"
    using 5(2) by (auto simp: find_None_iff listing_of_def) (metis domD infinite_imp_nonempty list.set(1) option.distinct(1) set_sorted_list_of_set sorted_list_of_set.fold_insort_key.infinite empty_iff)
  ultimately show ?case by (simp add: vault_forget_def find_held_def and_then_def of_read_def)
next
  case (6 M s a pw)
  then show ?case using holds_open by (auto simp: stocked_def vault_laws_def)
next
  case (7 M s)
  then show ?case using holds_listing by (auto simp: stocked_def vault_laws_def)
qed

end
