(* ===== verification/Vault_Disk.thy ===== *)
theory Vault_Disk
  imports Vault_Secrets
begin

text \<open>
  What else is in the vault's directory: after any create on a disk that never fails only the
  key files and the lock, the directory and every key file its owner's alone. And what comes
  of a vault whose files were changed, renamed or copied behind its back.
\<close>

section \<open>Nothing left behind\<close>

definition swept :: "keys \<Rightarrow> fs \<Rightarrow> bool" where
  "swept K s \<longleftrightarrow> (\<forall>n. node_at n s \<noteq> None \<longrightarrow>
     n = Utf8 LOCK_FILE \<or> (\<exists>a p. n = Utf8 (file_name a p) \<and> key_file K s a p))"

lemma drop_stage_gone:
  assumes "never_fails s" and "clear_way d s"
  shows "node_at (Utf8 d) (drop_stage d s) = None"
  using remove_dir_all_healthy [OF assms(1)] assms(2) by (simp add: drop_stage_def clear_way_def)

lemma create_stage_gone:
  assumes "addr_laws (vkeys V)" and "length key = 32" and "settled (vkeys V) s"
    and "vault_create V key pw ent s = (Inr a, s')"
  shows "node_at (Utf8 (stage_dir a)) s' = None"
proof -
  let ?a = "addr_of (vkeys V) key"
  let ?d = "stage_dir ?a"
  have a: "a = ?a" using create_Inr [OF assms(4) refl] by metis
  obtain s1 s2 s3 s4 where 1: "create_dir_all s = (Inr (), s1)" and 2: "set_dir_mode (octal 7 0 0) s1 = (Inr (), s2)"
    and 3: "stage_create ?d s2 = (Inr (), s3)" and 4: "create_staged V ?a key pw ent s3 = (Inr a, s4)"
    and 5: "s' = drop_stage ?d s4"
    using assms(4) unfolding vault_create_def Let_def
    by (auto simp: and_then_Inr with_drop_eq fail_def split: if_splits)
  have v: "addr_parse (vkeys V) (to_string ?a) = Some ?a" by (rule addr_laws_of [OF assms(1,2)])
  have n: "?d \<noteq> LOCK_FILE" using stage_not_lock by simp
  let ?N = "{Utf8 ?d, Utf8 LOCK_FILE, Utf8 (file_name ?a (pw \<noteq> None))}"
  note c = staged_leaves_clear [OF assms(1,2) refl]
  have k: "keeps (leaves_clear ?d) create_dir_all" "keeps (leaves_clear ?d) (set_dir_mode (octal 7 0 0))"
    "keeps (leaves_clear ?d) (stage_create ?d)" by (intro keeps_intros n)+
  have f: "keeps (frame ?N) create_dir_all" "keeps (frame ?N) (set_dir_mode (octal 7 0 0))"
    "keeps (frame ?N) (stage_create ?d)" "keeps (frame ?N) (create_staged V ?a key pw ent)"
    by (intro keeps_intros create_staged_keeps; simp)+
  have h: "never_fails s" "clear_way ?d s" using assms(3) v by (simp_all add: settled_def healthy_for_eq)
  have "never_fails s4"
    using h(1) never_fails_frame keepsD [OF f(1) 1] keepsD [OF f(2) 2] keepsD [OF f(3) 3] keepsD [OF f(4) 4] by metis
  moreover have "clear_way ?d s4"
    using h(2) keepsD [OF k(1) 1] keepsD [OF k(2) 2] keepsD [OF k(3) 3] keepsD [OF c 4] by (simp add: leaves_clear_def)
  ultimately show ?thesis unfolding a 5 by (rule drop_stage_gone)
qed

lemma create_swept:
  assumes "addr_laws (vkeys V)" and "length key = 32" and "vault_ok (vkeys V) s" and "settled (vkeys V) s"
    and "swept (vkeys V) s" and "vault_create V key pw ent s = (Inr a, s')"
  shows "swept (vkeys V) s'"
  unfolding swept_def
proof (intro allI impI)
  fix n
  assume n: "node_at n s' \<noteq> None"
  note r = create_returned [OF assms(1,3,2,6)]
  have f: "frame {Utf8 (stage_dir a), Utf8 LOCK_FILE, Utf8 (file_name a (pw \<noteq> None))} s s'"
    using create_Inr [OF assms(6) r(2)] by metis
  show "n = Utf8 LOCK_FILE \<or> (\<exists>b p. n = Utf8 (file_name b p) \<and> key_file (vkeys V) s' b p)"
  proof (cases "n \<in> {Utf8 LOCK_FILE, Utf8 (file_name a (pw \<noteq> None))}")
    case True
    then show ?thesis using r(5) by blast
  next
    case False
    have "n \<noteq> Utf8 (stage_dir a)" using n create_stage_gone [OF assms(1,2,4,6)] by auto
    then have "node_at n s \<noteq> None" using n False frame_node [OF f, of n] by simp
    then show ?thesis using assms(5) False r(5) unfolding swept_def by blast
  qed
qed

section \<open>The lock's file and the directory's mode\<close>

definition same_mode :: "fs \<Rightarrow> fs \<Rightarrow> bool" where
  "same_mode s s' \<longleftrightarrow> dmode s' = dmode s"

lemma same_mode_trans [simp, intro]: "transp same_mode" "reflp same_mode"
  by (auto simp: transp_def reflp_def same_mode_def)

lemma dmode_updates [simp]:
  "dmode (set_node n x s) = dmode s" "dmode (del_node n s) = dmode s" "dmode (put_in d m f s) = dmode s"
  "dmode (put_file m t s) = dmode s" "dmode (untouched k s) = dmode s"
  by (simp_all add: set_node_def del_node_def put_in_def put_file_def untouched_def split: option.splits node.splits)

lemma keeps_mode_call:
  assumes "\<And>t s. dmode (half t s) = dmode s" and "\<And>s. dmode (snd (act s)) = dmode s"
  shows "keeps same_mode (sys_call half act)"
  using assms unfolding keeps_def same_mode_def by (simp add: sys_call_def Let_def split: option.split)

lemma keeps_mode_calls [keeps_intros]:
  "keeps same_mode sync_dir" "keeps same_mode (set_permissions n m)" "keeps same_mode (create_dir n)"
  "keeps same_mode (remove_dir_all n)" "keeps same_mode (open_or_create n)" "keeps same_mode (write_in n f t)"
  "keeps same_mode (set_permissions_in n f m)" "keeps same_mode (sync_in n f)" "keeps same_mode (rename_out n f t)"
  unfolding sync_dir_def set_permissions_def create_dir_def remove_dir_all_def open_or_create_def write_in_def
    set_permissions_in_def sync_in_def rename_out_def
  by (rule keeps_mode_call; auto split: option.splits node.splits)+

lemma same_mode_drop: "same_mode s (drop_stage d s)"
  using keeps_mode_calls(4) by (simp add: keeps_def drop_stage_def)

lemma keeps_mode_stage [keeps_intros]: "keeps same_mode (stage_create d)"
proof -
  have "keeps same_mode (\<lambda>s. case set_permissions d (octal 7 0 0) s of
         (Inl e, s') \<Rightarrow> (Inl e, drop_stage d s') | (Inr u, s') \<Rightarrow> (Inr u, s'))"
    unfolding keeps_def
    using keepsD [OF keeps_mode_calls(2)] transpD [OF same_mode_trans(1)] same_mode_drop
    by (auto split: prod.splits sum.splits) blast+
  then show ?thesis unfolding stage_create_def by (intro keeps_intros same_mode_trans)
qed

lemma keeps_mode_lock [keeps_intros]: "keeps same_mode lock"
  unfolding lock_def by (intro keeps_intros same_mode_trans) (auto simp: keeps_def same_mode_def split: sum.splits)

lemma create_modes:
  assumes "vault_create V key pw ent s = (Inr a, s')"
  shows "dmode s' = octal 7 0 0" and "node_at (Utf8 LOCK_FILE) s' \<noteq> None"
proof -
  let ?a = "addr_of (vkeys V) key"
  let ?d = "stage_dir ?a"
  obtain s1 s2 s3 s4 where 2: "set_dir_mode (octal 7 0 0) s1 = (Inr (), s2)"
    and 3: "stage_create ?d s2 = (Inr (), s3)" and 4: "create_staged V ?a key pw ent s3 = (Inr a, s4)"
    and 5: "s' = drop_stage ?d s4"
    using assms unfolding vault_create_def Let_def
    by (auto simp: and_then_Inr with_drop_eq fail_def split: if_splits)
  have "keeps same_mode (case pw of Some p \<Rightarrow> seal V ?d key p ent | None \<Rightarrow> write_open V ?d ?a key)"
    by (auto simp: seal_def write_open_def intro!: keeps_intros same_mode_trans split: option.split sum.split)
  moreover have "keeps same_mode (promote ?d n)" for n
    unfolding promote_def by (intro keeps_intros same_mode_trans)
  ultimately have "keeps same_mode (create_staged V ?a key pw ent)"
    unfolding create_staged_def by (intro keeps_intros same_mode_trans; assumption?)
  from keepsD [OF this 4] keepsD [OF keeps_mode_stage 3] same_mode_drop [of s4 ?d] 2
  show "dmode s' = octal 7 0 0"
    by (auto simp: same_mode_def 5 set_dir_mode_def dest!: sys_call_Inr split: if_splits)
  obtain s5 s6 where 6: "lock s5 = (Inr (), s6)" and 7: "promote ?d (file_name ?a (pw \<noteq> None)) s6 = (Inr (), s4)"
    using 4 unfolding create_staged_def and_then_Inr io_Inr of_read_def
    by (auto simp: fail_def ok_def and_then_Inr split: if_splits)
  obtain s7 where o: "open_or_create LOCK_FILE s5 = (Inr (), s7)" and "s6 = s7"
    using 6 by (cases "lock_loop (try_lock (snd (open_or_create LOCK_FILE s5))) (overslept (snd (open_or_create LOCK_FILE s5))) 0 0 LOCK_WAIT")
      (auto simp: lock_def and_then_Inr)
  then have "node_at (Utf8 LOCK_FILE) s6 \<noteq> None"
    by (auto simp: open_or_create_def put_file_def dest!: sys_call_Inr split: option.splits node.splits if_splits)
  moreover have p: "keeps (frame {Utf8 ?d, Utf8 (file_name ?a (pw \<noteq> None))}) (promote ?d (file_name ?a (pw \<noteq> None)))"
    by (intro keeps_intros) simp_all
  ultimately have "node_at (Utf8 LOCK_FILE) s4 \<noteq> None"
    using frame_node [OF keepsD [OF p 7], of "Utf8 LOCK_FILE"] stage_not_lock [of ?a]
      lock_not_key_file [of ?a "pw \<noteq> None"] by simp
  then show "node_at (Utf8 LOCK_FILE) s' \<noteq> None"
    unfolding 5 using drop_stage_frame [of ?d "{Utf8 ?d}" s4] stage_not_lock [of ?a]
    by (metis fname.inject(1) frame_node insertI1 singletonD)
qed

section \<open>Files changed behind the vault's back\<close>

lemma readable_updates [simp]:
  "readable (set_node n x s) = readable s" "readable (del_node n s) = readable s"
  "readable (s\<lparr>ticks := t\<rparr>) = readable s"
  by (simp_all add: readable_def set_node_def del_node_def)

text \<open>A key file with other text in it: the accounts held are what they were.\<close>

lemma vault_ok_set_file:
  assumes "vault_ok K s" and "key_file K s a p"
  shows "vault_ok K (set_node (Utf8 (file_name a p)) (File f) (s\<lparr>ticks := t\<rparr>))"
    and "key_file K (set_node (Utf8 (file_name a p)) (File f) (s\<lparr>ticks := t\<rparr>)) b q = key_file K s b q"
proof -
  let ?s = "set_node (Utf8 (file_name a p)) (File f) (s\<lparr>ticks := t\<rparr>)"
  have k: "key_file K ?s b q = key_file K s b q" for b q using assms(2) by (auto simp: key_file_def)
  then show "key_file K ?s b q = key_file K s b q" .
  then show "vault_ok K ?s" using assms(1) k by (simp add: vault_ok_def)
qed

text \<open>A sealed file whose parameters are refused opens under no password.\<close>

lemma check_params_Inl: "check_params V text \<noteq> Inr () \<Longrightarrow> \<exists>why. check_params V text = Inl (Corrupt why)"
  by (cases "check_params V text")
    (auto simp: check_params_def Let_def bind_res_def map_err_def split: sum.splits option.splits if_splits)

lemma open_refused_params:
  assumes "addr_laws (vkeys V)" and "vault_ok (vkeys V) s" and "key_file (vkeys V) s a True"
    and "node_at (Utf8 (file_name a True)) s = Some (File f)" and "data f = Utf8Text text"
    and "check_params V text \<noteq> Inr ()"
  shows "\<exists>why. vault_open V a (Some w) s = Inl (Corrupt why)"
proof -
  have "read_to_string (file_name a True) s = Inr text"
    using assms(2,4,5) by (simp add: read_to_string_def vault_ok_def readable_def)
  then show ?thesis
    using vault_open_held [OF assms(1-3), of "Some w"] check_params_Inl [OF assms(6)]
    by (auto simp: open_sealed_def)
qed

text \<open>A key file moved to another account's name: that account is held, with a key not its own.\<close>

lemma key_file_moved:
  assumes "addr_laws K" and "addr_parse K (to_string a) = Some a" and "addr_parse K (to_string b) = Some b"
    and "a \<noteq> b" and "key_file K s a p"
    and "s' = set_node (Utf8 (file_name b p)) (File f) (del_node (Utf8 (file_name a p)) (s\<lparr>ticks := t\<rparr>))"
  shows "key_file K s' c q \<longleftrightarrow> (key_file K s c q \<and> (c, q) \<noteq> (a, p)) \<or> (c, q) = (b, p)"
proof (cases "addr_parse K (to_string c) = Some c")
  case True
  have "file_name c q = file_name a p \<longleftrightarrow> (c, q) = (a, p)" "file_name c q = file_name b p \<longleftrightarrow> (c, q) = (b, p)"
    using file_name_inj [OF assms(1) True assms(2)] file_name_inj [OF assms(1) True assms(3)] by auto
  then show ?thesis using True assms(4) by (auto simp: key_file_def assms(6))
next
  case False
  then show ?thesis using assms(3) by (auto simp: key_file_def)
qed

lemma vault_ok_moved:
  assumes "addr_laws K" and "addr_parse K (to_string b) = Some b" and "a \<noteq> b" and "key_file K s a p"
    and "\<And>q. \<not> key_file K s b q" and "vault_ok K s"
    and "s' = set_node (Utf8 (file_name b p)) (File f) (del_node (Utf8 (file_name a p)) (s\<lparr>ticks := t\<rparr>))"
  shows "vault_ok K s'"
proof -
  have a: "addr_parse K (to_string a) = Some a" using assms(4) by (simp add: key_file_def)
  note k = key_file_moved [OF assms(1) a assms(2-4,7)]
  have "\<not> (key_file K s' c True \<and> key_file K s' c False)" for c
    using assms(5,6) unfolding k vault_ok_def by (cases p) auto
  moreover have "made s" using assms(4,6) by (auto simp: vault_ok_def)
  ultimately show ?thesis using assms(6) by (simp add: vault_ok_def) (simp add: assms(7))
qed

lemma rename_runs:
  assumes "never_fails s" and "node_at (Utf8 n) s = Some (File f)" and "node_at (Utf8 m) s = None"
  shows "rename n m s = (Inr (), set_node (Utf8 m) (File f) (del_node (Utf8 n) (s\<lparr>ticks := Suc (ticks s)\<rparr>)))"
  using assms by (auto simp: rename_def sys_call_healthy)

lemma write_file_runs:
  assumes "never_fails s" and "made s" and "node_at (Utf8 n) s = Some (File f)"
  shows "write_file n text s =
    (Inr (), set_node (Utf8 n) (File (f\<lparr>data := Utf8Text text\<rparr>)) (s\<lparr>ticks := Suc (ticks s)\<rparr>))"
  using assms by (simp add: write_file_def sys_call_healthy put_file_def file_with_def)

end
