(* ===== verification/Vault_Tests.thy ===== *)
theory Vault_Tests
  imports Vault_Secrets
begin

text \<open>
  The tests of \<open>vault.rs\<close>, as scenarios of the model: each a predicate of the directory the
  vault is opened on and of the keys that are generated, with the source's name, steps and
  assertions. \<open>Vault_Scenarios\<close> shows that they pass, whatever the crates and the keys are.
\<close>

section \<open>What the tests use\<close>

definition addresses_held :: "vault_crates \<Rightarrow> fs \<Rightarrow> VaultError + AccountAddr list" where
  "addresses_held V d = bind_res (vault_accounts V d) (\<lambda>hs. Inr (map addr hs))"

definition is_corrupt :: "VaultError + 'a \<Rightarrow> bool" where
  "is_corrupt r \<longleftrightarrow> (case r of Inl (Corrupt why) \<Rightarrow> True | _ \<Rightarrow> False)"

text \<open>
  \<open>json[..] = ..\<close>: an entry of an object is set, or added when it is not there; \<open>null\<close>
  becomes an object, and anything else panics (\<open>None\<close>).
\<close>

definition object_of :: "Value \<Rightarrow> (rstr \<times> Value) list option" where
  "object_of v = (case v of Null \<Rightarrow> Some [] | Object kvs \<Rightarrow> Some kvs | _ \<Rightarrow> None)"

definition field_of :: "(rstr \<times> Value) list \<Rightarrow> rstr \<Rightarrow> Value" where
  "field_of kvs n = (case map_of kvs n of Some v \<Rightarrow> v | None \<Rightarrow> Null)"

fun put_value :: "rstr list \<Rightarrow> Value \<Rightarrow> Value \<Rightarrow> Value option" where
  "put_value [] x v = Some x"
| "put_value (n # path) x v = Option.bind (object_of v) (\<lambda>kvs.
     map_option (\<lambda>y. Object (put_entry n y kvs)) (put_value path x (field_of kvs n)))"

text \<open>\<open>tamper\<close>, with the writer of JSON values; what panics in it is an error here.\<close>

definition tamper ::
  "vault_crates \<Rightarrow> (Value \<Rightarrow> rstr) \<Rightarrow> AccountAddr \<Rightarrow> (Value \<Rightarrow> Value option) \<Rightarrow> unit io" where
  "tamper V to_text a edit d =
     (case read_to_string (file_name a True) d of
        Inl e \<Rightarrow> (Inl e, d)
      | Inr text \<Rightarrow>
          (case value_parser V text of
             Inl e \<Rightarrow> (Inl InvalidData, d)
           | Inr json \<Rightarrow>
               (case edit json of
                  None \<Rightarrow> (Inl InvalidData, d)
                | Some json' \<Rightarrow> write_file (file_name a True) (to_text json') d)))"

definition crypto_param :: "rstr \<Rightarrow> rstr list" where
  "crypto_param n = [lit ''crypto'', lit ''kdfparams'', n]"

text \<open>\<open>fs::copy\<close>, \<open>fs::metadata\<close>'s mode, and \<open>into_string\<close> of a name.\<close>

definition copy_file :: "rstr \<Rightarrow> rstr \<Rightarrow> unit io" where
  "copy_file n m = sys_call untouched (\<lambda>s.
     case node_at (Utf8 n) s of
       Some (File f) \<Rightarrow>
         if is_folder (node_at (Utf8 m) s) then (Inl (IoOther (lit ''Is a directory'')), s)
         else (Inr (), set_node (Utf8 m) (File f) s)
     | _ \<Rightarrow> (Inl NotFound, s))"

definition mode_of :: "rstr \<Rightarrow> fs \<Rightarrow> nat option" where
  "mode_of n d = (case node_at (Utf8 n) d of
     None \<Rightarrow> None | Some (File f) \<Rightarrow> Some (fmode f mod 512) | Some (Folder es m) \<Rightarrow> Some (m mod 512))"

definition name_text :: "fname \<Rightarrow> rstr option" where
  "name_text n = (case n of Utf8 t \<Rightarrow> Some t | NotUtf8 k \<Rightarrow> None)"

section \<open>Creating, opening, forgetting\<close>

definition a_vault_that_was_never_created_holds_nothing :: "vault_crates \<Rightarrow> fs \<Rightarrow> SigningKey \<Rightarrow> bool" where
  "a_vault_that_was_never_created_holds_nothing V d key \<longleftrightarrow>
     vault_accounts V d = Inr [] \<and> vault_open V (addr_of (vkeys V) key) (Some (lit ''pw'')) d = Inl NoAccount"

definition a_created_account_opens_with_its_password :: "vault_crates \<Rightarrow> fs \<Rightarrow> SigningKey \<Rightarrow> nat \<Rightarrow> bool" where
  "a_created_account_opens_with_its_password V d key n \<longleftrightarrow>
     unwrap (vault_create V key (Some (lit ''correct horse'')) n d) (\<lambda>a d.
       a = addr_of (vkeys V) key \<and> vault_accounts V d = Inr [StoredAccount a True]
       \<and> vault_open V a (Some (lit ''correct horse'')) d = Inr key)"

definition a_wrong_password_is_refused :: "vault_crates \<Rightarrow> fs \<Rightarrow> SigningKey \<Rightarrow> nat \<Rightarrow> bool" where
  "a_wrong_password_is_refused V d key n \<longleftrightarrow>
     unwrap (vault_create V key (Some (lit ''correct horse'')) n d) (\<lambda>a d.
       vault_open V a (Some (lit ''battery staple'')) d = Inl WrongPassword)"

definition an_empty_password_is_not_a_password :: "vault_crates \<Rightarrow> fs \<Rightarrow> SigningKey \<Rightarrow> nat \<Rightarrow> bool" where
  "an_empty_password_is_not_a_password V d key n \<longleftrightarrow>
     unwrap_err (vault_create V key (Some []) n d) (\<lambda>e d. e = EmptyPassword \<and> addresses_held V d = Inr [])"

definition an_account_without_a_password_opens_without_one :: "vault_crates \<Rightarrow> fs \<Rightarrow> SigningKey \<Rightarrow> nat \<Rightarrow> bool" where
  "an_account_without_a_password_opens_without_one V d key n \<longleftrightarrow>
     unwrap (vault_create V key None n d) (\<lambda>a d.
       vault_accounts V d = Inr [StoredAccount a False] \<and> vault_open V a None d = Inr key)"

definition the_password_must_match_what_the_account_chose ::
  "vault_crates \<Rightarrow> fs \<Rightarrow> SigningKey \<Rightarrow> SigningKey \<Rightarrow> nat \<Rightarrow> bool" where
  "the_password_must_match_what_the_account_chose V d key1 key2 n \<longleftrightarrow>
     unwrap (vault_create V key1 (Some (lit ''pw'')) n d) (\<lambda>sealed d.
     unwrap (vault_create V key2 None n d) (\<lambda>clear d.
       vault_open V sealed None d = Inl PasswordRequired
       \<and> vault_open V clear (Some (lit ''pw'')) d = Inl PasswordNotRequired))"

definition accounts_with_and_without_passwords_live_side_by_side ::
  "vault_crates \<Rightarrow> fs \<Rightarrow> SigningKey \<Rightarrow> SigningKey \<Rightarrow> nat \<Rightarrow> bool" where
  "accounts_with_and_without_passwords_live_side_by_side V d key1 key2 n \<longleftrightarrow>
     unwrap (vault_create V key1 (Some (lit ''pw'')) n d) (\<lambda>_ d.
     unwrap (vault_create V key2 None n d) (\<lambda>_ d.
       addresses_held V d = Inr (sort_key to_string [addr_of (vkeys V) key1, addr_of (vkeys V) key2])
       \<and> vault_open V (addr_of (vkeys V) key1) (Some (lit ''pw'')) d = Inr key1
       \<and> vault_open V (addr_of (vkeys V) key2) None d = Inr key2))"

definition is_held_already :: "VaultError \<Rightarrow> bool" where
  "is_held_already e \<longleftrightarrow> (case e of AccountExists b \<Rightarrow> True | _ \<Rightarrow> False)"

definition re_adding_an_account_is_refused_and_the_held_key_kept ::
  "vault_crates \<Rightarrow> fs \<Rightarrow> SigningKey \<Rightarrow> nat \<Rightarrow> bool" where
  "re_adding_an_account_is_refused_and_the_held_key_kept V d key n \<longleftrightarrow>
     unwrap (vault_create V key (Some (lit ''pw'')) n d) (\<lambda>a d.
     unwrap_err (vault_create V key (Some (lit ''another'')) n d) (\<lambda>e d.
       is_held_already e \<and> vault_open V a (Some (lit ''pw'')) d = Inr key))"

definition forgetting_removes_one_account_and_keeps_the_rest ::
  "vault_crates \<Rightarrow> fs \<Rightarrow> SigningKey \<Rightarrow> SigningKey \<Rightarrow> nat \<Rightarrow> bool" where
  "forgetting_removes_one_account_and_keeps_the_rest V d key1 key2 n \<longleftrightarrow>
     unwrap (vault_create V key1 (Some (lit ''pw'')) n d) (\<lambda>_ d.
     unwrap (vault_create V key2 None n d) (\<lambda>_ d.
     unwrap (vault_forget V (addr_of (vkeys V) key2) d) (\<lambda>_ d.
       addresses_held V d = Inr [addr_of (vkeys V) key1]
       \<and> unwrap_err (vault_forget V (addr_of (vkeys V) key2) d) (\<lambda>e d. e = NoAccount))))"

section \<open>What is on the disk\<close>

definition an_unprotected_file_shows_the_key_it_holds :: "vault_crates \<Rightarrow> fs \<Rightarrow> SigningKey \<Rightarrow> nat \<Rightarrow> bool" where
  "an_unprotected_file_shows_the_key_it_holds V d key n \<longleftrightarrow>
     unwrap (vault_create V key None n d) (\<lambda>a d.
       case read_to_string (file_name a False) d of
         Inl e \<Rightarrow> False
       | Inr text \<Rightarrow> sublist (hex_encode (vhex V) key) text \<and> sublist OPEN_WARNING text)"

definition a_create_leaves_only_the_vault_files_and_the_lock ::
  "vault_crates \<Rightarrow> fs \<Rightarrow> SigningKey \<Rightarrow> SigningKey \<Rightarrow> nat \<Rightarrow> bool" where
  "a_create_leaves_only_the_vault_files_and_the_lock V d key1 key2 n \<longleftrightarrow>
     unwrap (vault_create V key1 (Some (lit ''pw'')) n d) (\<lambda>sealed d.
     unwrap (vault_create V key2 None n d) (\<lambda>clear d.
       case read_dir d of
         Inl e \<Rightarrow> False
       | Inr names \<Rightarrow>
           map_option sort (those (map name_text names))
             = Some (sort [LOCK_FILE, to_string sealed @ SEALED_SUFFIX, to_string clear @ OPEN_SUFFIX])))"

definition every_vault_file_is_readable_by_its_owner_only ::
  "vault_crates \<Rightarrow> fs \<Rightarrow> SigningKey \<Rightarrow> SigningKey \<Rightarrow> nat \<Rightarrow> bool" where
  "every_vault_file_is_readable_by_its_owner_only V d key1 key2 n \<longleftrightarrow>
     unwrap (vault_create V key1 (Some (lit ''pw'')) n d) (\<lambda>sealed d.
     unwrap (vault_create V key2 None n d) (\<lambda>clear d.
       dmode d mod 512 = octal 7 0 0 \<and> mode_of (file_name sealed True) d = Some (octal 6 0 0)
       \<and> mode_of (file_name clear False) d = Some (octal 6 0 0)))"

definition a_file_under_another_accounts_name_is_refused ::
  "vault_crates \<Rightarrow> fs \<Rightarrow> SigningKey \<Rightarrow> SigningKey \<Rightarrow> SigningKey \<Rightarrow> SigningKey \<Rightarrow> nat \<Rightarrow> bool" where
  "a_file_under_another_accounts_name_is_refused V d key1 key2 key3 key4 n \<longleftrightarrow>
     unwrap (vault_create V key1 (Some (lit ''pw'')) n d) (\<lambda>sealed d.
     unwrap (vault_create V key2 None n d) (\<lambda>clear d.
     let other = addr_of (vkeys V) key3 in
     unwrap (rename (file_name sealed True) (to_string other @ SEALED_SUFFIX) d) (\<lambda>_ d.
       is_corrupt (vault_open V other (Some (lit ''pw'')) d)
       \<and> (let another = addr_of (vkeys V) key4 in
          unwrap (rename (file_name clear False) (to_string another @ OPEN_SUFFIX) d) (\<lambda>_ d.
            is_corrupt (vault_open V another None d))))))"

definition oversized_scrypt_parameters_are_refused_before_derivation ::
  "vault_crates \<Rightarrow> (Value \<Rightarrow> rstr) \<Rightarrow> fs \<Rightarrow> SigningKey \<Rightarrow> nat \<Rightarrow> bool" where
  "oversized_scrypt_parameters_are_refused_before_derivation V to_text d key n \<longleftrightarrow>
     unwrap (vault_create V key (Some (lit ''pw'')) n d) (\<lambda>a d.
     unwrap (tamper V to_text a (put_value (crypto_param (lit ''n'')) (Number (PosInt (2 ^ 31)))) d) (\<lambda>_ d.
       is_corrupt (vault_open V a (Some (lit ''pw'')) d)))"

definition scrypt_work_past_the_ceiling_is_refused ::
  "vault_crates \<Rightarrow> (Value \<Rightarrow> rstr) \<Rightarrow> fs \<Rightarrow> SigningKey \<Rightarrow> nat \<Rightarrow> bool" where
  "scrypt_work_past_the_ceiling_is_refused V to_text d key n \<longleftrightarrow>
     unwrap (vault_create V key (Some (lit ''pw'')) n d) (\<lambda>a d.
     unwrap (tamper V to_text a (\<lambda>json.
         Option.bind (put_value (crypto_param (lit ''n'')) (Number (PosInt (2 ^ 16))) json) (\<lambda>json.
         Option.bind (put_value (crypto_param (lit ''r'')) (Number (PosInt 16)) json)
           (put_value (crypto_param (lit ''p'')) (Number (PosInt 4))))) d) (\<lambda>_ d.
       case read_to_string (file_name a True) d of
         Inl e \<Rightarrow> False
       | Inr text \<Rightarrow> is_corrupt (check_params V text)))"

definition pbkdf2_parameters_beside_scrypt_ones_are_refused ::
  "vault_crates \<Rightarrow> (Value \<Rightarrow> rstr) \<Rightarrow> fs \<Rightarrow> SigningKey \<Rightarrow> nat \<Rightarrow> bool" where
  "pbkdf2_parameters_beside_scrypt_ones_are_refused V to_text d key n \<longleftrightarrow>
     unwrap (vault_create V key (Some (lit ''pw'')) n d) (\<lambda>a d.
     unwrap (tamper V to_text a (\<lambda>json.
         Option.bind (put_value (crypto_param (lit ''c'')) (Number (PosInt (2 ^ 32 - 1))) json)
           (put_value (crypto_param (lit ''prf'')) (String (lit ''hmac-sha256'')))) d) (\<lambda>_ d.
       is_corrupt (vault_open V a (Some (lit ''pw'')) d)))"

definition a_copy_beside_a_key_file_is_not_an_account :: "vault_crates \<Rightarrow> fs \<Rightarrow> SigningKey \<Rightarrow> nat \<Rightarrow> bool" where
  "a_copy_beside_a_key_file_is_not_an_account V d key n \<longleftrightarrow>
     unwrap (vault_create V key None n d) (\<lambda>a d.
     unwrap (copy_file (file_name a False) (to_string a @ lit '' (copy)'' @ OPEN_SUFFIX) d) (\<lambda>_ d.
       vault_accounts V d = Inr [StoredAccount a False] \<and> is_ok (vault_open V a None d)))"

definition a_short_iv_is_refused_rather_than_panicking ::
  "vault_crates \<Rightarrow> (Value \<Rightarrow> rstr) \<Rightarrow> fs \<Rightarrow> SigningKey \<Rightarrow> nat \<Rightarrow> bool" where
  "a_short_iv_is_refused_rather_than_panicking V to_text d key n \<longleftrightarrow>
     unwrap (vault_create V key (Some (lit ''pw'')) n d) (\<lambda>a d.
     unwrap (tamper V to_text a
         (put_value [lit ''crypto'', lit ''cipherparams'', lit ''iv''] (String (lit ''00''))) d) (\<lambda>_ d.
       is_corrupt (vault_open V a (Some (lit ''pw'')) d)))"

text \<open>The text \<open>{"logos_account_vault":1}\<close>, whose quotes a literal here cannot hold.\<close>

definition version_only :: rstr where
  "version_only = lit ''{'' @ [34] @ lit ''logos_account_vault'' @ [34] @ lit '':1}''"

definition an_unreadable_open_document_is_refused_rather_than_guessed_at ::
  "vault_crates \<Rightarrow> fs \<Rightarrow> SigningKey \<Rightarrow> nat \<Rightarrow> bool" where
  "an_unreadable_open_document_is_refused_rather_than_guessed_at V d key n \<longleftrightarrow>
     unwrap (vault_create V key None n d) (\<lambda>a d.
     unwrap (write_file (file_name a False) version_only d) (\<lambda>_ d.
       is_corrupt (vault_open V a None d)))"

end
