(* ===== verification/Vault_Tamper.thy ===== *)
theory Vault_Tamper
  imports Vault_Disk Vault_Tests
begin

text \<open>
  Editing a JSON value along a path, as the tests of \<open>vault.rs\<close> tamper with a sealed file,
  and what \<open>check_params\<close> reads of the edited file.
\<close>

section \<open>What the JSON crate says of a value\<close>

text \<open>
  Indexing anything but an object by a name gives \<open>null\<close>; a name an object lacks gives \<open>null\<close>;
  \<open>as_u64\<close> of a non-negative number, \<open>as_str\<close> of a string, and \<open>as_object\<close>'s keys.
\<close>

definition value_laws :: "vault_crates \<Rightarrow> bool" where
  "value_laws V \<longleftrightarrow>
     (\<forall>v n. value_index V v n = (case v of Object kvs \<Rightarrow> field_of kvs n | _ \<Rightarrow> Null))
     \<and> (\<forall>v t. value_is_str V v t \<longleftrightarrow> v = String t)
     \<and> (\<forall>v. value_keys V v = (case v of Object kvs \<Rightarrow> Some (map fst kvs) | _ \<Rightarrow> None))
     \<and> (\<forall>n < 2 ^ 64. value_u64 V (Number (PosInt n)) = Some (of_nat n))
     \<and> (\<forall>v. value_str V v = (case v of String t \<Rightarrow> Some t | _ \<Rightarrow> None))"

definition value_at :: "vault_crates \<Rightarrow> Value \<Rightarrow> rstr list \<Rightarrow> Value" where
  "value_at V v path = foldl (value_index V) v path"

text \<open>The text written for a value reads back as the value does, at every path.\<close>

definition same_reads :: "vault_crates \<Rightarrow> Value \<Rightarrow> Value \<Rightarrow> bool" where
  "same_reads V u v \<longleftrightarrow> (\<forall>p. value_u64 V (value_at V u p) = value_u64 V (value_at V v p)
     \<and> value_str V (value_at V u p) = value_str V (value_at V v p)
     \<and> map_option set (value_keys V (value_at V u p)) = map_option set (value_keys V (value_at V v p)))"

definition reparse_law :: "vault_crates \<Rightarrow> (Value \<Rightarrow> rstr) \<Rightarrow> bool" where
  "reparse_law V to_text \<longleftrightarrow> (\<forall>v. \<exists>u. value_parser V (to_text v) = Inr u \<and> same_reads V u v)"

lemma value_laws_index: "value_laws V \<Longrightarrow> value_index V (Object kvs) n = field_of kvs n"
  by (simp add: value_laws_def)

lemma value_laws_object: "value_laws V \<Longrightarrow> value_index V v n \<noteq> Null \<Longrightarrow> \<exists>kvs. v = Object kvs"
  by (cases v) (auto simp: value_laws_def)

lemma value_laws_str: "value_laws V \<Longrightarrow> value_str V (String t) = Some t"
  by (simp add: value_laws_def)

lemma value_laws_u64: "value_laws V \<Longrightarrow> n < 2 ^ 64 \<Longrightarrow> value_u64 V (Number (PosInt n)) = Some (of_nat n)"
  by (simp add: value_laws_def)

lemma field_of_put [simp]: "field_of (put_entry n y kvs) m = (if m = n then y else field_of kvs m)"
  by (simp add: field_of_def)

lemma object_of_Some: "object_of v = Some kvs \<longleftrightarrow> v = Object kvs \<or> v = Null \<and> kvs = []"
  by (cases v) (auto simp: object_of_def)

lemma value_laws_keys:
  assumes "value_laws V" and "value_index V v n \<noteq> Null"
  shows "\<exists>ks. value_keys V v = Some ks \<and> n \<in> set ks"
proof -
  obtain kvs where v: "v = Object kvs" using value_laws_object [OF assms] by blast
  with assms have "map_of kvs n \<noteq> None"
    by (cases "map_of kvs n") (auto simp: value_laws_index field_of_def)
  then have "n \<in> fst ` set kvs" by (simp add: map_of_eq_None_iff)
  then show ?thesis using v assms(1) by (simp add: value_laws_def)
qed

section \<open>Editing along a path\<close>

lemma put_value_read:
  "value_laws V \<Longrightarrow> put_value p x v = Some v' \<Longrightarrow> value_at V v' p = x"
proof (induction p arbitrary: v v')
  case Nil
  then show ?case by (simp add: value_at_def)
next
  case (Cons n p)
  then obtain kvs y where "put_value p x (field_of kvs n) = Some y" and "v' = Object (put_entry n y kvs)"
    by (auto simp: bind_eq_Some_conv)
  with Cons.IH [OF Cons.prems(1)] show ?case
    by (simp add: value_at_def value_laws_index [OF Cons.prems(1)])
qed

lemma put_value_beside:
  "value_laws V \<Longrightarrow> c \<noteq> d \<Longrightarrow> put_value (q @ [c]) x v = Some v' \<Longrightarrow> value_at V v (q @ [d]) \<noteq> Null \<Longrightarrow>
     value_at V v' (q @ [d]) = value_at V v (q @ [d])"
proof (induction q arbitrary: v v')
  case Nil
  then obtain kvs where "v = Object kvs" using value_laws_object [of V v d] by (auto simp: value_at_def)
  with Nil show ?case by (auto simp: value_at_def object_of_def value_laws_index)
next
  case (Cons n q)
  then obtain kvs y where o: "object_of v = Some kvs" and y: "put_value (q @ [c]) x (field_of kvs n) = Some y"
    and v': "v' = Object (put_entry n y kvs)"
    by (auto simp: bind_eq_Some_conv)
  have e: "value_index V v n = field_of kvs n"
    using o Cons.prems(1) by (auto simp: object_of_Some value_laws_def field_of_def)
  have "value_at V y (q @ [d]) = value_at V (field_of kvs n) (q @ [d])"
    using Cons.IH [OF Cons.prems(1,2) y] Cons.prems(4) e by (simp add: value_at_def)
  then show ?case using e v' Cons.prems(1) by (simp add: value_at_def value_laws_index)
qed

text \<open>When it does not panic: below an object, and again beside what was put.\<close>

lemma put_value_runs:
  "value_laws V \<Longrightarrow> \<exists>kvs. value_at V v q = Object kvs \<Longrightarrow> \<exists>v'. put_value (q @ [c]) x v = Some v'"
proof (induction q arbitrary: v)
  case Nil
  then show ?case by (auto simp: value_at_def object_of_def)
next
  case (Cons n q)
  have "value_at V v (n # q) \<noteq> Null" using Cons.prems(2) by auto
  moreover have "foldl (value_index V) Null p = Null" for p
    using Cons.prems(1) by (induction p) (simp_all add: value_laws_def)
  ultimately have "value_index V v n \<noteq> Null" by (auto simp: value_at_def)
  then obtain kvs where v: "v = Object kvs" using value_laws_object [OF Cons.prems(1)] by blast
  then have "\<exists>y. put_value (q @ [c]) x (field_of kvs n) = Some y"
    using Cons.IH [OF Cons.prems(1), of "field_of kvs n"] Cons.prems
    by (simp add: value_at_def value_laws_index)
  then show ?case using v by (auto simp: object_of_def)
qed

lemma put_value_again:
  "put_value (q @ [c]) x v = Some v' \<Longrightarrow> \<exists>w. put_value (q @ [d]) y v' = Some w"
proof (induction q arbitrary: v v')
  case Nil
  then show ?case by (auto simp: bind_eq_Some_conv object_of_def)
next
  case (Cons n q)
  then obtain kvs z where "put_value (q @ [c]) x (field_of kvs n) = Some z" and v': "v' = Object (put_entry n z kvs)"
    by (auto simp: bind_eq_Some_conv)
  from Cons.IH [OF this(1)] show ?case by (auto simp: v' object_of_def)
qed

section \<open>What a sealed file's check makes of an edit\<close>

lemma file_param_read: "file_param V v n = value_u64 V (value_at V v (crypto_param n))"
  by (simp add: file_param_def value_at_def crypto_param_def)

lemma written_objects:
  assumes "value_laws V" and "written_params V v"
  shows "\<exists>kvs. value_at V v [lit ''crypto'', lit ''kdfparams''] = Object kvs"
    and "\<exists>kvs. value_at V v [lit ''crypto'', lit ''cipherparams''] = Object kvs"
  using assms by (auto simp: value_laws_def written_params_def value_at_def Let_def split: Value.splits)

text \<open>Whoever reads the edited file reads what was put there.\<close>

lemma reread:
  assumes "value_laws V" and "reparse_law V to_text" and "value_parser V (to_text v) = Inr u"
  shows "value_u64 V (value_at V u p) = value_u64 V (value_at V v p)"
    and "value_str V (value_at V u p) = value_str V (value_at V v p)"
    and "map_option set (value_keys V (value_at V u p)) = map_option set (value_keys V (value_at V v p))"
  using assms(2,3) unfolding reparse_law_def same_reads_def by (metis sum.inject(2))+

lemma refused_n:
  assumes "value_laws V" and "reparse_law V to_text" and "put_value (crypto_param (lit ''n'')) (Number (PosInt (2 ^ 31))) v = Some v'"
  shows "check_params V (to_text v') \<noteq> Inr ()"
proof
  assume "check_params V (to_text v') = Inr ()"
  then obtain u n k where u: "value_parser V (to_text v') = Inr u" and n: "file_param V u (lit ''n'') = Some n"
    and k: "k \<le> 18" "unat n = 2 ^ k" unfolding check_params_iff by blast
  have "file_param V u (lit ''n'') = Some (of_nat (2 ^ 31))"
    unfolding file_param_read reread(1) [OF assms(1,2) u] put_value_read [OF assms(1,3)]
    by (rule value_laws_u64 [OF assms(1)]) simp
  with n k have "(2 ^ 31 :: nat) = 2 ^ k" by simp
  then have "k = 31" by (metis numeral_2_eq_2 power_inject_exp lessI one_less_numeral_iff semiring_norm(76))
  then show False using k(1) by simp
qed

lemma refused_work:
  assumes "value_laws V" and "reparse_law V to_text"
    and "put_value (crypto_param (lit ''n'')) (Number (PosInt (2 ^ 16))) v = Some v1"
    and "put_value (crypto_param (lit ''r'')) (Number (PosInt 16)) v1 = Some v2"
    and "put_value (crypto_param (lit ''p'')) (Number (PosInt 4)) v2 = Some v3"
  shows "check_params V (to_text v3) \<noteq> Inr ()"
proof
  assume "check_params V (to_text v3) = Inr ()"
  then obtain u n r p where u: "value_parser V (to_text v3) = Inr u"
    and f: "file_param V u (lit ''n'') = Some n" "file_param V u (lit ''r'') = Some r" "file_param V u (lit ''p'') = Some p"
    and w: "unat n * unat r * unat p \<le> 2 ^ 21" unfolding check_params_iff by blast
  note b = put_value_beside [OF assms(1), where q = "[lit ''crypto'', lit ''kdfparams'']", simplified append.simps,
      folded crypto_param_def]
  have ne: "lit ''r'' \<noteq> lit ''n''" "lit ''p'' \<noteq> lit ''n''" "lit ''p'' \<noteq> lit ''r''" by (simp_all add: lit_def)
  have r1: "value_at V v1 (crypto_param (lit ''n'')) = Number (PosInt (2 ^ 16))"
    and r2: "value_at V v2 (crypto_param (lit ''r'')) = Number (PosInt 16)"
    and r3: "value_at V v3 (crypto_param (lit ''p'')) = Number (PosInt 4)"
    using put_value_read [OF assms(1)] assms(3-5) by blast+
  have "value_at V v2 (crypto_param (lit ''n'')) = Number (PosInt (2 ^ 16))"
    using b [OF ne(1) assms(4)] r1 by simp
  then have "value_at V v3 (crypto_param (lit ''n'')) = Number (PosInt (2 ^ 16))"
    using b [OF ne(2) assms(5)] by simp
  moreover have "value_at V v3 (crypto_param (lit ''r'')) = Number (PosInt 16)"
    using b [OF ne(3) assms(5)] r2 by simp
  ultimately have "n = of_nat (2 ^ 16)" "r = of_nat 16" "p = of_nat 4"
    using f r3 value_laws_u64 [OF assms(1)] unfolding file_param_read reread(1) [OF assms(1,2) u] by simp_all
  with w show False by simp
qed

lemma refused_names:
  assumes "value_laws V" and "reparse_law V to_text"
    and "put_value (crypto_param (lit ''prf'')) (String t) v = Some v'"
  shows "check_params V (to_text v') \<noteq> Inr ()"
proof
  assume "check_params V (to_text v') = Inr ()"
  then obtain u names where u: "value_parser V (to_text v') = Inr u"
    and k: "value_keys V (value_at V u [lit ''crypto'', lit ''kdfparams'']) = Some names" "set names \<subseteq> set scrypt_names"
    unfolding check_params_iff scrypt_file_def value_at_def by auto
  have "value_index V (value_at V v' [lit ''crypto'', lit ''kdfparams'']) (lit ''prf'') \<noteq> Null"
    using put_value_read [OF assms(1,3)] by (simp add: value_at_def crypto_param_def)
  then obtain ks where "value_keys V (value_at V v' [lit ''crypto'', lit ''kdfparams'']) = Some ks" "lit ''prf'' \<in> set ks"
    using value_laws_keys [OF assms(1)] by blast
  then have "lit ''prf'' \<in> set scrypt_names"
    using k reread(3) [OF assms(1,2) u, of "[lit ''crypto'', lit ''kdfparams'']"] by auto
  then show False by (simp add: scrypt_names_def lit_def)
qed

lemma refused_iv:
  assumes "value_laws V" and "reparse_law V to_text"
    and "put_value [lit ''crypto'', lit ''cipherparams'', lit ''iv''] (String (lit ''00'')) v = Some v'"
  shows "check_params V (to_text v') \<noteq> Inr ()"
proof
  assume "check_params V (to_text v') = Inr ()"
  then obtain u where u: "value_parser V (to_text v') = Inr u" and i: "iv_length V u div 2 = 16"
    unfolding check_params_iff scrypt_file_def by blast
  have "value_str V (value_at V u [lit ''crypto'', lit ''cipherparams'', lit ''iv'']) = Some (lit ''00'')"
    unfolding reread(2) [OF assms(1,2) u] put_value_read [OF assms(1,3)] by (rule value_laws_str [OF assms(1)])
  then have "iv_length V u = 2" by (simp add: iv_length_def value_at_def lit_def str_len_def utf8_len_def)
  with i show False by simp
qed

end
