(* ===== verification/Vault_Scenarios.thy ===== *)
theory Vault_Scenarios
  imports Vault_Tests
begin

text \<open>
  The tests of \<open>vault.rs\<close> pass, for all crates that keep the laws and all keys: those that
  only use the vault's operations by the rules of its interface, those that look at or
  tamper with its files by what the files hold.
\<close>

section \<open>By the interface\<close>

named_theorems scenario \<open>unfolding a test, and what is looked up in the map a step leads to\<close>

lemma sort_addrs: "sort_key to_string xs = sort (xs :: AccountAddr list)"
proof -
  have "insort_key to_string x ys = insort x ys" for x and ys :: "AccountAddr list"
    by (induction ys) (auto simp: less_eq_AccountAddr_def)
  then have "insort_key to_string = (insort :: AccountAddr \<Rightarrow> _)" by (intro ext)
  then show ?thesis by (simp add: sort_key_def)
qed

lemma listing_of_one [scenario]: "listing_of [a \<mapsto> (k, pw)] = [StoredAccount a (pw \<noteq> None)]"
  by (simp add: listing_of_def)

lemma listing_of_empty [scenario]: "listing_of Map.empty = []"
  by (simp add: listing_of_def)

lemma listing_of_two [scenario]:
  assumes "a \<noteq> b"
  shows "map addr (listing_of [a \<mapsto> x, b \<mapsto> y]) = sort_key to_string [a, b]"
proof -
  have "dom [a \<mapsto> x, b \<mapsto> y] = set [a, b]" by auto
  moreover have "remdups [a, b] = [a, b]" using assms by simp
  ultimately have "sorted_list_of_set (dom [a \<mapsto> x, b \<mapsto> y]) = sort [a, b]"
    by (simp only: sorted_list_of_set_sort_remdups)
  then show ?thesis by (simp only: listing_of_def sort_addrs map_map comp_def StoredAccount.sel list.map_ident)
qed

lemma told_apart_own [scenario]:
  "told_apart V M a None" "M a = Some (k, Some w) \<Longrightarrow> told_apart V M a (Some w)"
  "M a = Some (k, None) \<Longrightarrow> told_apart V M a pw" "M a = None \<Longrightarrow> told_apart V M a pw"
  by (auto simp: told_apart_def)

lemma addresses_held_at: "stocked V M d \<Longrightarrow> addresses_held V d = Inr (map addr (listing_of M))"
  using vault_service.list_answers by (simp add: addresses_held_def)

lemmas vault_answers = vault_service.open_answers vault_service.list_answers addresses_held_at

lemma lit_nonempty [simp]: "lit (c # cs) \<noteq> []"
  by (simp add: lit_def)

lemma scenarios_by_interface:
  assumes "stocked V Map.empty d" and "length key1 = 32" and "length key2 = 32"
    and "addr_of (vkeys V) key1 \<noteq> addr_of (vkeys V) key2"
  shows "a_vault_that_was_never_created_holds_nothing V d key1"
    and "a_created_account_opens_with_its_password V d key1 n"
    and "tells_apart V (lit ''correct horse'') (lit ''battery staple'') \<Longrightarrow> a_wrong_password_is_refused V d key1 n"
    and "an_empty_password_is_not_a_password V d key1 n"
    and "an_account_without_a_password_opens_without_one V d key1 n"
    and "the_password_must_match_what_the_account_chose V d key1 key2 n"
    and "accounts_with_and_without_passwords_live_side_by_side V d key1 key2 n"
    and "re_adding_an_account_is_refused_and_the_held_key_kept V d key1 n"
    and "forgetting_removes_one_account_and_keeps_the_rest V d key1 key2 n"
proof -
  note sc = assms(2-4) assms(4) [symmetric] scenario open_answer_def vault_service.open_answers
    vault_service.list_answers addresses_held_at
  note rules = vault_service.unwrap_create vault_service.unwrap_err_create vault_service.unwrap_forget
  show "a_vault_that_was_never_created_holds_nothing V d key1"
    unfolding a_vault_that_was_never_created_holds_nothing_def using assms(1) by (simp add: sc)
  show "a_created_account_opens_with_its_password V d key1 n"
    unfolding a_created_account_opens_with_its_password_def
    by (rule rules [OF assms(1)]) (simp_all add: sc)
  show "a_wrong_password_is_refused V d key1 n" if "tells_apart V (lit ''correct horse'') (lit ''battery staple'')"
    unfolding a_wrong_password_is_refused_def
    by (rule rules [OF assms(1)]) (use that in \<open>simp_all add: sc told_apart_def\<close>, simp add: lit_def)
  show "an_empty_password_is_not_a_password V d key1 n"
    unfolding an_empty_password_is_not_a_password_def
    using assms(1) vault_service.create_unnamed [OF assms(1,2)] by (simp add: sc)
  show "an_account_without_a_password_opens_without_one V d key1 n"
    unfolding an_account_without_a_password_opens_without_one_def
    by (rule rules [OF assms(1)]) (simp_all add: sc)
  note two = vault_service.unwrap_create_two [OF assms(1-3)]
  show "the_password_must_match_what_the_account_chose V d key1 key2 n"
    unfolding the_password_must_match_what_the_account_chose_def
    by (rule two) (simp_all add: sc)
  show "accounts_with_and_without_passwords_live_side_by_side V d key1 key2 n"
    unfolding accounts_with_and_without_passwords_live_side_by_side_def
    by (rule two) (simp_all add: sc)
  show "re_adding_an_account_is_refused_and_the_held_key_kept V d key1 n"
    unfolding re_adding_an_account_is_refused_and_the_held_key_kept_def
  proof (rule rules [OF assms(1)])
    fix d1
    assume 1: "stocked V [addr_of (vkeys V) key1 \<mapsto> (key1, Some (lit ''pw''))] d1"
    show "unwrap_err (vault_create V key1 (Some (lit ''another'')) n d1) (\<lambda>e d.
        is_held_already e \<and> vault_open V (addr_of (vkeys V) key1) (Some (lit ''pw'')) d = Inr key1)"
      by (rule rules(2) [OF 1]) (simp_all add: sc is_held_already_def)
  qed (simp_all add: sc)
  show "forgetting_removes_one_account_and_keeps_the_rest V d key1 key2 n"
    unfolding forgetting_removes_one_account_and_keeps_the_rest_def
  proof (rule two)
    fix d1
    let ?a = "addr_of (vkeys V) key1" and ?b = "addr_of (vkeys V) key2"
    assume 1: "stocked V [?a \<mapsto> (key1, Some (lit ''pw'')), ?b \<mapsto> (key2, None)] d1"
    have e: "[?a \<mapsto> (key1, Some (lit ''pw'')), ?b \<mapsto> (key2, None)](?b := None) = [?a \<mapsto> (key1, Some (lit ''pw''))]"
      using assms(4) by (auto simp: fun_eq_iff)
    show "unwrap (vault_forget V ?b d1) (\<lambda>_ d. addresses_held V d = Inr [?a]
        \<and> unwrap_err (vault_forget V ?b d) (\<lambda>e d. e = NoAccount))"
      by (rule rules(3) [OF 1]) (use assms(4) vault_service.forget_absent [of V "[?a \<mapsto> (key1, Some (lit ''pw''))]" _ ?b] in
        \<open>simp_all add: e sc\<close>)
  qed (simp_all add: sc)
qed

end
