(* ===== verification/Vault_Disk_Scenarios.thy ===== *)
theory Vault_Disk_Scenarios
  imports Vault_Tamper Vault_Scenarios
begin

text \<open>
  The tests of \<open>vault.rs\<close> that look at the vault's files, or change them behind its back.
\<close>

section \<open>What a create leaves\<close>

lemma stockedD:
  assumes "stocked V M s"
  shows "addr_laws (vkeys V)" and "hex_laws (vhex V)" and "open_json_law V" and "keystore_law V"
    and "vault_ok (vkeys V) s" and "settled (vkeys V) s"
  using assms by (auto simp: stocked_def vault_laws_def holds_def)

lemma stocked_file:
  assumes "stocked V M s" and "M a = Some (k, pw)"
  obtains n where "node_at (Utf8 (file_name a (pw \<noteq> None))) s =
      Some (File \<lparr>data = Utf8Text (text_of V k pw n), fmode = octal 6 0 0\<rparr>)"
    and "key_file (vkeys V) s a (pw \<noteq> None)" and "addr_of (vkeys V) k = a" and "length k = 32"
    and "vault_text V k pw n (text_of V k pw n)"
proof -
  obtain N where h: "holds V N s" "M = sealed_under N" using assms(1) by (auto simp: stocked_def)
  then obtain n where n: "N a = Some (k, pw, n)" using assms(2) by (auto simp: sealed_under_def)
  have "key_files (vkeys V) s a = Some (pw \<noteq> None, Some (file_of V k pw n))"
    using h(1) n by (simp add: holds_def files_of_def)
  then have "key_file (vkeys V) s a (pw \<noteq> None)"
    and "node_at (Utf8 (file_name a (pw \<noteq> None))) s = Some (file_of V k pw n)"
    using key_files_Some [OF stockedD(5) [OF assms(1)]] by metis+
  then show ?thesis using that h(1) n unfolding holds_def file_of_def by blast
qed

lemma stocked_sealed:
  assumes "stocked V M s" and "M a = Some (k, Some w)"
  shows "\<exists>n. node_at (Utf8 (file_name a True)) s =
      Some (File \<lparr>data = Utf8Text (text_of V k (Some w) n), fmode = octal 6 0 0\<rparr>)
    \<and> vault_text V k (Some w) n (text_of V k (Some w) n)"
proof -
  have "(Some w \<noteq> None) = True" by simp
  from stocked_file [OF assms, unfolded this] show ?thesis by blast
qed

lemma stocked_clear:
  assumes "stocked V M s" and "M a = Some (k, None)"
  shows "\<exists>n. node_at (Utf8 (file_name a False)) s =
      Some (File \<lparr>data = Utf8Text (text_of V k None n), fmode = octal 6 0 0\<rparr>)
    \<and> vault_text V k None n (text_of V k None n)"
proof -
  have "(None \<noteq> (None :: rstr option)) = False" by simp
  from stocked_file [OF assms, unfolded this] show ?thesis by blast
qed

lemma stocked_key_file:
  assumes "stocked V M s"
  shows "key_file (vkeys V) s a p \<longleftrightarrow> (\<exists>k pw. M a = Some (k, pw) \<and> p = (pw \<noteq> None))"
proof -
  obtain N where N: "holds V N s" "M = sealed_under N" using assms by (auto simp: stocked_def)
  have "key_file (vkeys V) s a p \<longleftrightarrow> vault_held (vkeys V) s a = Some p"
    using vault_held_Some [OF stockedD(5) [OF assms]] by blast
  then show ?thesis using holds_held [OF N(1), of a] N(2) by (cases "N a") (auto simp: sealed_under_def)
qed

lemma stocked_runs:
  assumes "stocked V M s" and "M a = Some x"
  shows "never_fails s" and "made s" and "readable s"
proof -
  obtain k pw where "x = (k, pw)" by (cases x)
  with stocked_file [OF assms(1)] assms(2) have k: "key_file (vkeys V) s a (pw \<noteq> None)" by metis
  then have "addr_parse (vkeys V) (to_string a) = Some a" by (simp add: key_file_def)
  then show "never_fails s" using stockedD(6) [OF assms(1)] by (simp add: settled_def healthy_for_def)
  show "made s" "readable s" using k stockedD(5) [OF assms(1)] by (auto simp: vault_ok_def)
qed

lemma stocked_reads:
  assumes "stocked V M s" and "M a = Some (k, pw)"
  shows "\<exists>n. read_to_string (file_name a (pw \<noteq> None)) s = Inr (text_of V k pw n) \<and> vault_text V k pw n (text_of V k pw n)"
proof -
  obtain n where "node_at (Utf8 (file_name a (pw \<noteq> None))) s =
      Some (File \<lparr>data = Utf8Text (text_of V k pw n), fmode = octal 6 0 0\<rparr>)"
    and "vault_text V k pw n (text_of V k pw n)" using stocked_file [OF assms] by metis
  then show ?thesis using stocked_runs(3) [OF assms] by (auto simp: read_to_string_def readable_def)
qed

text \<open>\<open>to_writer\<close> writes a string that needs no escape as it is.\<close>

definition plain :: "rstr \<Rightarrow> bool" where
  "plain t \<longleftrightarrow> (\<forall>c \<in> set t. 32 \<le> c \<and> c < 127 \<and> c \<noteq> 34 \<and> c \<noteq> 92)"

definition writes_plainly :: "vault_crates \<Rightarrow> bool" where
  "writes_plainly V \<longleftrightarrow>
     (\<forall>d. \<forall>t \<in> {od_address d, od_protection d, od_key d, od_warning d}. plain t \<longrightarrow> sublist t (concat (open_writer V d)))"

lemma plain_warning: "plain OPEN_WARNING"
  unfolding plain_def OPEN_WARNING_def lit_def by simp

lemma plain_hex: "set t \<subseteq> hex_digits \<Longrightarrow> plain t"
proof -
  have "\<forall>c \<in> hex_digits. 32 \<le> c \<and> c < 127 \<and> c \<noteq> 34 \<and> c \<noteq> 92" by (simp add: hex_digits_def lit_def)
  then show "set t \<subseteq> hex_digits \<Longrightarrow> plain t" unfolding plain_def by blast
qed

lemma shows_the_key:
  assumes "stocked V Map.empty d" and "length key = 32" and "writes_plainly V"
  shows "an_unprotected_file_shows_the_key_it_holds V d key n"
  unfolding an_unprotected_file_shows_the_key_it_holds_def
proof (rule vault_service.unwrap_create [OF assms(1,2)])
  fix s
  let ?a = "addr_of (vkeys V) key"
  assume s: "stocked V [?a \<mapsto> (key, None)] s"
  from stocked_reads [OF s, of ?a key None]
  have r: "read_to_string (file_name ?a False) s = Inr (write_open_document V ?a key)"
    by (simp add: text_of_def)
  let ?d = "\<lparr>od_logos_account_vault = 1, od_address = to_string ?a, od_protection = lit ''none'',
    od_key = hex_encode (vhex V) key, od_warning = OPEN_WARNING\<rparr>"
  have "sublist t (write_open_document V ?a key)" if "plain t" "t \<in> {od_key ?d, od_warning ?d}" for t
    using assms(3) that unfolding writes_plainly_def write_open_document_def
    by (simp only: to_vec_sized_eq vec.simps) fastforce
  moreover have "plain (hex_encode (vhex V) key)"
    using stockedD(2) [OF assms(1)] by (intro plain_hex) (simp add: hex_laws_def)
  ultimately show "case read_to_string (file_name ?a False) s of Inl e \<Rightarrow> False
      | Inr text \<Rightarrow> sublist (hex_encode (vhex V) key) text \<and> sublist OPEN_WARNING text"
    using plain_warning by (simp add: r)
qed simp_all

text \<open>The state two creates lead to: stocked, swept, owner-only, with the lock's file.\<close>

lemma unwrap_two:
  assumes "stocked V Map.empty d" and "length key1 = 32" and "length key2 = 32"
    and "addr_of (vkeys V) key1 \<noteq> addr_of (vkeys V) key2" and "swept (vkeys V) d"
    and "pw1 \<noteq> Some []" and "pw2 \<noteq> Some []"
    and "\<And>s. stocked V [addr_of (vkeys V) key1 \<mapsto> (key1, pw1), addr_of (vkeys V) key2 \<mapsto> (key2, pw2)] s \<Longrightarrow>
      swept (vkeys V) s \<Longrightarrow> dmode s = octal 7 0 0 \<Longrightarrow> node_at (Utf8 LOCK_FILE) s \<noteq> None \<Longrightarrow>
      P (addr_of (vkeys V) key1) (addr_of (vkeys V) key2) s"
  shows "unwrap (vault_create V key1 pw1 n d) (\<lambda>a d. unwrap (vault_create V key2 pw2 n d) (P a))"
proof -
  let ?a = "addr_of (vkeys V) key1" and ?b = "addr_of (vkeys V) key2"
  obtain s1 where 1: "vault_create V key1 pw1 n d = (Inr ?a, s1)" "stocked V [?a \<mapsto> (key1, pw1)] s1"
    using vault_service.create_new [OF assms(1,2,6)] by auto
  obtain s2 where 2: "vault_create V key2 pw2 n s1 = (Inr ?b, s2)" "stocked V [?a \<mapsto> (key1, pw1), ?b \<mapsto> (key2, pw2)] s2"
    using vault_service.create_new [OF 1(2) assms(3,7)] assms(4) by auto
  have "swept (vkeys V) s2"
    using create_swept [OF stockedD(1) [OF assms(1)] assms(2) stockedD(5,6) [OF assms(1)] assms(5) 1(1)]
      create_swept [OF stockedD(1) [OF assms(1)] assms(3) stockedD(5,6) [OF 1(2)] _ 2(1)] by blast
  with assms(8) [OF 2(2)] create_modes [OF 2(1)] show ?thesis by (simp add: 1(1) 2(1))
qed

lemma names_sorted:
  assumes "distinct ns" and "set ns = set (map Utf8 xs)" and "distinct xs"
  shows "map_option sort (those (map name_text ns)) = Some (sort xs)"
proof -
  let ?ms = "map (\<lambda>n. the (name_text n)) ns"
  have "Utf8 (the (name_text n)) = n" if "n \<in> set ns" for n
    using that assms(2) by (auto simp: name_text_def)
  then have "map (\<lambda>n. Utf8 (the (name_text n))) ns = ns" by (simp add: map_idI)
  then have e: "ns = map Utf8 ?ms" by (simp only: map_map comp_def refl)
  have "distinct (map Utf8 ?ms)" using assms(1) by (subst e [symmetric])
  then have "distinct ?ms" by (simp only: distinct_map)
  moreover have "Utf8 ` set ?ms = Utf8 ` set xs" using assms(2) e by (metis set_map)
  then have "set ?ms = set xs" by (simp add: inj_image_eq_iff inj_def)
  ultimately have "sort ?ms = sort xs"
    using assms(3) by (intro sorted_distinct_set_unique) simp_all
  moreover have "those (map name_text (map Utf8 ms)) = Some ms" for ms by (induction ms) (simp_all add: name_text_def)
  moreover have "map name_text ns = map name_text (map Utf8 ?ms)" using e by (rule arg_cong)
  ultimately show ?thesis by (simp only: option.map)
qed

lemma leaves_only_the_files:
  assumes "stocked V Map.empty d" and "length key1 = 32" and "length key2 = 32"
    and "addr_of (vkeys V) key1 \<noteq> addr_of (vkeys V) key2" and "swept (vkeys V) d"
  shows "a_create_leaves_only_the_vault_files_and_the_lock V d key1 key2 n"
  unfolding a_create_leaves_only_the_vault_files_and_the_lock_def
proof (rule unwrap_two [OF assms])
  fix s
  let ?a = "addr_of (vkeys V) key1" and ?b = "addr_of (vkeys V) key2"
  let ?M = "[?a \<mapsto> (key1, Some (lit ''pw'')), ?b \<mapsto> (key2, None)]"
  let ?names = "[LOCK_FILE, file_name ?a True, file_name ?b False]"
  assume s: "stocked V ?M s" and w: "swept (vkeys V) s" and l: "node_at (Utf8 LOCK_FILE) s \<noteq> None"
  note h = stockedD [OF s]
  note k = stocked_key_file [OF s]
  have ka: "key_file (vkeys V) s ?a True" and kb: "key_file (vkeys V) s ?b False"
    unfolding k using assms(4) by simp_all
  have none: "\<not> key_file (vkeys V) s c p" if "(c, p) \<notin> {(?a, True), (?b, False)}" for c p
    unfolding k using that assms(4) by auto
  have "n \<in> set (map fst (nodes s)) \<longleftrightarrow> n \<in> set (map Utf8 ?names)" for n
  proof -
    have "n = Utf8 LOCK_FILE \<or> n = Utf8 (file_name ?a True) \<or> n = Utf8 (file_name ?b False)"
      if "n \<in> set (map Utf8 ?names)" using that by simp
    then have "node_at n s \<noteq> None" if "n \<in> set (map Utf8 ?names)"
      using that l ka kb unfolding key_file_def by metis
    moreover have "n \<in> set (map Utf8 ?names)" if x: "node_at n s \<noteq> None"
    proof (cases "n = Utf8 LOCK_FILE")
      case False
      then obtain c p where c: "n = Utf8 (file_name c p)" "key_file (vkeys V) s c p"
        using w x unfolding swept_def by blast
      then have "(c, p) = (?a, True) \<or> (c, p) = (?b, False)" using none by blast
      then show ?thesis using c(1) by auto
    qed simp
    ultimately show ?thesis unfolding node_at_names [symmetric] by blast
  qed
  then have n: "set (map fst (nodes s)) = set (map Utf8 ?names)" by blast
  have "file_name ?a True \<noteq> file_name ?b False"
    using file_name_inj [OF h(1), of ?a ?b True False] ka kb by (auto simp: key_file_def)
  then have "distinct ?names" using lock_not_key_file by simp
  moreover have "distinct (map fst (nodes s))" using h(5) by (simp add: vault_ok_def wf_fs_def)
  ultimately have "map_option sort (those (map name_text (map fst (nodes s)))) = Some (sort ?names)"
    using names_sorted n by blast
  then show "case read_dir s of Inl e \<Rightarrow> False
    | Inr names \<Rightarrow> map_option sort (those (map name_text names))
        = Some (sort [LOCK_FILE, to_string ?a @ SEALED_SUFFIX, to_string ?b @ OPEN_SUFFIX])"
    using stocked_runs [OF s, of ?b] by (simp add: read_dir_def readable_def file_name_def)
qed simp_all

lemma owner_only:
  assumes "stocked V Map.empty d" and "length key1 = 32" and "length key2 = 32"
    and "addr_of (vkeys V) key1 \<noteq> addr_of (vkeys V) key2" and "swept (vkeys V) d"
  shows "every_vault_file_is_readable_by_its_owner_only V d key1 key2 n"
  unfolding every_vault_file_is_readable_by_its_owner_only_def
proof (rule unwrap_two [OF assms])
  fix s
  let ?a = "addr_of (vkeys V) key1" and ?b = "addr_of (vkeys V) key2"
  assume s: "stocked V [?a \<mapsto> (key1, Some (lit ''pw'')), ?b \<mapsto> (key2, None)] s" and m: "dmode s = octal 7 0 0"
  obtain n1 where "node_at (Utf8 (file_name ?a (Some (lit ''pw'') \<noteq> None))) s =
      Some (File \<lparr>data = Utf8Text (text_of V key1 (Some (lit ''pw'')) n1), fmode = octal 6 0 0\<rparr>)"
    using stocked_file [OF s, of ?a key1 "Some (lit ''pw'')"] assms(4) by (metis fun_upd_apply)
  moreover obtain n2 where "node_at (Utf8 (file_name ?b (None \<noteq> (None :: rstr option)))) s =
      Some (File \<lparr>data = Utf8Text (text_of V key2 None n2), fmode = octal 6 0 0\<rparr>)"
    using stocked_file [OF s, of ?b key2 None] by (metis fun_upd_apply)
  ultimately show "dmode s mod 512 = octal 7 0 0 \<and> mode_of (file_name ?a True) s = Some (octal 6 0 0)
      \<and> mode_of (file_name ?b False) s = Some (octal 6 0 0)"
    using m by (simp add: mode_of_def octal_def)
qed simp_all

section \<open>What is changed behind the vault's back\<close>

text \<open>A file renamed to another account's name.\<close>

lemma renamed_file:
  assumes "addr_laws K" and "vault_ok K s" and "never_fails s" and "made s" and "key_file K s a p"
    and "addr_parse K (to_string b) = Some b" and "a \<noteq> b" and "\<And>q. \<not> key_file K s b q"
    and "node_at (Utf8 (file_name a p)) s = Some (File f)"
  obtains s' where "rename (file_name a p) (file_name b p) s = (Inr (), s')"
    and "vault_ok K s'" and "never_fails s'" and "made s'"
    and "node_at (Utf8 (file_name b p)) s' = Some (File f)"
    and "\<And>c q. key_file K s' c q \<longleftrightarrow> (key_file K s c q \<and> (c, q) \<noteq> (a, p)) \<or> (c, q) = (b, p)"
    and "\<And>c q. key_file K s c q \<Longrightarrow> (c, q) \<noteq> (a, p) \<Longrightarrow>
      node_at (Utf8 (file_name c q)) s' = node_at (Utf8 (file_name c q)) s"
proof -
  let ?s' = "set_node (Utf8 (file_name b p)) (File f) (del_node (Utf8 (file_name a p)) (s\<lparr>ticks := Suc (ticks s)\<rparr>))"
  have a: "addr_parse K (to_string a) = Some a" using assms(5) by (simp add: key_file_def)
  have free: "node_at (Utf8 (file_name b p)) s = None" using assms(6,8) by (auto simp: key_file_def)
  note k = key_file_moved [OF assms(1) a assms(6,7,5) refl]
  have same: "node_at (Utf8 (file_name c q)) ?s' = node_at (Utf8 (file_name c q)) s"
    if "key_file K s c q" "(c, q) \<noteq> (a, p)" for c q
  proof -
    have "addr_parse K (to_string c) = Some c" using that(1) by (simp add: key_file_def)
    then have "file_name c q \<noteq> file_name a p" and "file_name c q \<noteq> file_name b p"
      using file_name_inj [OF assms(1) _ a] file_name_inj [OF assms(1) _ assms(6)] that assms(8) by blast+
    then show ?thesis by simp
  qed
  have runs: "never_fails ?s'" "made ?s'" using assms(3,4) by (simp_all add: never_fails_def set_node_def del_node_def)
  have here: "node_at (Utf8 (file_name b p)) ?s' = Some (File f)" by simp
  show ?thesis
    by (rule that [OF rename_runs [OF assms(3,9) free] vault_ok_moved [OF assms(1,6,7,5,8,2) refl] runs here k same])
qed

lemma other_name_refused:
  assumes "stocked V Map.empty d" and "length key1 = 32" and "length key2 = 32"
    and "length key3 = 32" and "length key4 = 32"
    and "distinct [addr_of (vkeys V) key1, addr_of (vkeys V) key2, addr_of (vkeys V) key3, addr_of (vkeys V) key4]"
  shows "a_file_under_another_accounts_name_is_refused V d key1 key2 key3 key4 n"
  unfolding a_file_under_another_accounts_name_is_refused_def Let_def
proof (rule vault_service.unwrap_create_two [OF assms(1-3)])
  fix s
  let ?a = "addr_of (vkeys V) key1" and ?b = "addr_of (vkeys V) key2"
    and ?c = "addr_of (vkeys V) key3" and ?e = "addr_of (vkeys V) key4"
  assume s: "stocked V [?a \<mapsto> (key1, Some (lit ''pw'')), ?b \<mapsto> (key2, None)] s"
  note l = stockedD [OF s]
  note k = stocked_key_file [OF s]
  have v: "addr_parse (vkeys V) (to_string ?c) = Some ?c" "addr_parse (vkeys V) (to_string ?e) = Some ?e"
    using addr_laws_of [OF l(1)] assms(4,5) by blast+
  have ne: "?a \<noteq> ?b" "?a \<noteq> ?c" "?b \<noteq> ?c" "?b \<noteq> ?e" "?c \<noteq> ?e" "?a \<noteq> ?e" using assms(6) by auto
  have ka: "key_file (vkeys V) s ?a True" and kb: "key_file (vkeys V) s ?b False"
    and kc: "\<not> key_file (vkeys V) s ?c q" and ke: "\<not> key_file (vkeys V) s ?e q" for q
    unfolding k using ne by simp_all
  have m: "[?a \<mapsto> (key1, Some (lit ''pw'')), ?b \<mapsto> (key2, None)] ?a = Some (key1, Some (lit ''pw''))"
    "[?a \<mapsto> (key1, Some (lit ''pw'')), ?b \<mapsto> (key2, None)] ?b = Some (key2, None)" using ne by simp_all
  note r = stocked_runs [OF s m(2)]
  obtain n1 where fa: "node_at (Utf8 (file_name ?a True)) s =
      Some (File \<lparr>data = Utf8Text (text_of V key1 (Some (lit ''pw'')) n1), fmode = octal 6 0 0\<rparr>)"
    and ta: "vault_text V key1 (Some (lit ''pw'')) n1 (text_of V key1 (Some (lit ''pw'')) n1)"
    using stocked_sealed [OF s m(1)] by blast
  obtain n2 where fb: "node_at (Utf8 (file_name ?b False)) s =
      Some (File \<lparr>data = Utf8Text (text_of V key2 None n2), fmode = octal 6 0 0\<rparr>)"
    and tb: "vault_text V key2 None n2 (text_of V key2 None n2)"
    using stocked_clear [OF s m(2)] by blast
  obtain s1 where 1: "rename (file_name ?a True) (file_name ?c True) s = (Inr (), s1)"
    and ok1: "vault_ok (vkeys V) s1" and run1: "never_fails s1" "made s1"
    and fc: "node_at (Utf8 (file_name ?c True)) s1 =
      Some (File \<lparr>data = Utf8Text (text_of V key1 (Some (lit ''pw'')) n1), fmode = octal 6 0 0\<rparr>)"
    and k1: "\<And>c q. key_file (vkeys V) s1 c q \<longleftrightarrow> (key_file (vkeys V) s c q \<and> (c, q) \<noteq> (?a, True)) \<or> (c, q) = (?c, True)"
    and same: "\<And>c q. key_file (vkeys V) s c q \<Longrightarrow> (c, q) \<noteq> (?a, True) \<Longrightarrow>
      node_at (Utf8 (file_name c q)) s1 = node_at (Utf8 (file_name c q)) s"
    using renamed_file [OF l(1,5) r(1,2) ka v(1) ne(2) kc fa] by blast
  have "key_file (vkeys V) s1 ?c (Some (lit ''pw'') \<noteq> None)" unfolding k1 by simp
  from vault_open_written [OF l(1-4) ok1 assms(2) this _ _ ta] fc ne(2)
  have o1: "is_corrupt (vault_open V ?c (Some (lit ''pw'')) s1)" by (simp add: is_corrupt_def)
  have kb1: "key_file (vkeys V) s1 ?b False" and ke1: "\<not> key_file (vkeys V) s1 ?e q" for q
    unfolding k1 using kb ke ne by simp_all
  have fb1: "node_at (Utf8 (file_name ?b False)) s1 =
      Some (File \<lparr>data = Utf8Text (text_of V key2 None n2), fmode = octal 6 0 0\<rparr>)"
    using same [OF kb] fb by simp
  obtain s2 where 2: "rename (file_name ?b False) (file_name ?e False) s1 = (Inr (), s2)"
    and ok2: "vault_ok (vkeys V) s2"
    and fe: "node_at (Utf8 (file_name ?e False)) s2 =
      Some (File \<lparr>data = Utf8Text (text_of V key2 None n2), fmode = octal 6 0 0\<rparr>)"
    and k2: "\<And>c q. key_file (vkeys V) s2 c q \<longleftrightarrow> (key_file (vkeys V) s1 c q \<and> (c, q) \<noteq> (?b, False)) \<or> (c, q) = (?e, False)"
    by (rule renamed_file [OF l(1) ok1 run1 kb1 v(2) ne(4) ke1 fb1]) blast
  have "key_file (vkeys V) s2 ?e (None \<noteq> (None :: rstr option))" unfolding k2 by simp
  from vault_open_written [OF l(1-4) ok2 assms(3) this _ _ tb] fe ne(4)
  have "is_corrupt (vault_open V ?e None s2)" by (simp add: is_corrupt_def)
  then show "unwrap (rename (file_name ?a True) (to_string ?c @ SEALED_SUFFIX) s) (\<lambda>_ d.
      is_corrupt (vault_open V ?c (Some (lit ''pw'')) d)
      \<and> unwrap (rename (file_name ?b False) (to_string ?e @ OPEN_SUFFIX) d) (\<lambda>_ d. is_corrupt (vault_open V ?e None d)))"
    using o1 by (simp add: 1 [unfolded file_name_def, simplified] 2 [unfolded file_name_def, simplified] file_name_def)
qed (use assms(6) in simp_all)

text \<open>A sealed file tampered with, and a file written over.\<close>

lemma overwritten_file:
  assumes "stocked V [a \<mapsto> (key, pw)] s"
  obtains s' f where "write_file (file_name a (pw \<noteq> None)) t s = (Inr (), s')"
    and "vault_ok (vkeys V) s'" and "key_file (vkeys V) s' a (pw \<noteq> None)"
    and "node_at (Utf8 (file_name a (pw \<noteq> None))) s' = Some (File f)" and "data f = Utf8Text t"
proof -
  have m: "[a \<mapsto> (key, pw)] a = Some (key, pw)" by simp
  obtain n where f: "node_at (Utf8 (file_name a (pw \<noteq> None))) s =
      Some (File \<lparr>data = Utf8Text (text_of V key pw n), fmode = octal 6 0 0\<rparr>)"
    and k: "key_file (vkeys V) s a (pw \<noteq> None)" using stocked_file [OF assms m] by blast
  note w = write_file_runs [OF stocked_runs(1,2) [OF assms m] f, of t]
  note v = vault_ok_set_file [OF stockedD(5) [OF assms] k]
  have d: "data (g\<lparr>data := Utf8Text t\<rparr>) = Utf8Text t" for g :: dfile by (cases g) simp
  show ?thesis by (rule that [OF w v(1)]) (use v(2) k d in auto)
qed

lemma unwrap_tamper:
  assumes "stocked V [a \<mapsto> (key, Some w)] s"
    and "\<And>v. written_params V v \<Longrightarrow> \<exists>v'. edit v = Some v'"
    and "\<And>s' v v' f. written_params V v \<Longrightarrow> edit v = Some v' \<Longrightarrow> vault_ok (vkeys V) s' \<Longrightarrow>
      key_file (vkeys V) s' a True \<Longrightarrow> node_at (Utf8 (file_name a True)) s' = Some (File f) \<Longrightarrow>
      data f = Utf8Text (to_text v') \<Longrightarrow> P s'"
  shows "unwrap (tamper V to_text a edit s) (\<lambda>_. P)"
proof -
  let ?t = "text_of V key (Some w)"
  have m: "[a \<mapsto> (key, Some w)] a = Some (key, Some w)" by simp
  obtain n where r: "read_to_string (file_name a True) s = Inr (?t n)"
    and t: "vault_text V key (Some w) n (?t n)" using stocked_reads [OF assms(1) m] by auto
  have "length key = 32" using stocked_file [OF assms(1) m] by blast
  then obtain v where v: "value_parser V (?t n) = Inr v" "written_params V v"
    using stockedD(4) [OF assms(1)] t unfolding keystore_law_def vault_text_def by fastforce
  obtain v' where v': "edit v = Some v'" using assms(2) [OF v(2)] by blast
  obtain s' f where w: "write_file (file_name a True) (to_text v') s = (Inr (), s')"
    and "vault_ok (vkeys V) s'" "key_file (vkeys V) s' a True"
    and "node_at (Utf8 (file_name a True)) s' = Some (File f)" "data f = Utf8Text (to_text v')"
    using overwritten_file [OF assms(1), of "to_text v'"] by auto
  then have "P s'" using assms(3) [OF v(2) v'] by blast
  then show ?thesis by (simp add: tamper_def r v v' w)
qed

lemma tampered_refused:
  assumes "stocked V Map.empty d" and "length key = 32"
    and "\<And>v. written_params V v \<Longrightarrow> \<exists>v'. edit v = Some v'"
    and "\<And>v v'. edit v = Some v' \<Longrightarrow> check_params V (to_text v') \<noteq> Inr ()"
  shows "unwrap (vault_create V key (Some (lit ''pw'')) n d) (\<lambda>a d.
      unwrap (tamper V to_text a edit d) (\<lambda>_ d. is_corrupt (vault_open V a (Some (lit ''pw'')) d)))"
    and "unwrap (vault_create V key (Some (lit ''pw'')) n d) (\<lambda>a d.
      unwrap (tamper V to_text a edit d) (\<lambda>_ d.
        case read_to_string (file_name a True) d of Inl e \<Rightarrow> False | Inr text \<Rightarrow> is_corrupt (check_params V text)))"
proof -
  note laws = stockedD(1) [OF assms(1)]
  show "unwrap (vault_create V key (Some (lit ''pw'')) n d) (\<lambda>a d.
      unwrap (tamper V to_text a edit d) (\<lambda>_ d. is_corrupt (vault_open V a (Some (lit ''pw'')) d)))"
  proof (rule vault_service.unwrap_create [OF assms(1,2)])
    fix s
    assume s: "stocked V [addr_of (vkeys V) key \<mapsto> (key, Some (lit ''pw''))] s"
    show "unwrap (tamper V to_text (addr_of (vkeys V) key) edit s)
        (\<lambda>_ d. is_corrupt (vault_open V (addr_of (vkeys V) key) (Some (lit ''pw'')) d))"
    proof (rule unwrap_tamper [OF s assms(3)])
      fix s' v v' f
      assume e: "edit v = Some v'" and h: "vault_ok (vkeys V) s'" "key_file (vkeys V) s' (addr_of (vkeys V) key) True"
        "node_at (Utf8 (file_name (addr_of (vkeys V) key) True)) s' = Some (File f)" "data f = Utf8Text (to_text v')"
      obtain why where "vault_open V (addr_of (vkeys V) key) (Some (lit ''pw'')) s' = Inl (Corrupt why)"
        using open_refused_params [OF laws h assms(4) [OF e], of "lit ''pw''"] by blast
      then show "is_corrupt (vault_open V (addr_of (vkeys V) key) (Some (lit ''pw'')) s')" by (simp add: is_corrupt_def)
    qed
  qed simp_all
  show "unwrap (vault_create V key (Some (lit ''pw'')) n d) (\<lambda>a d.
      unwrap (tamper V to_text a edit d) (\<lambda>_ d.
        case read_to_string (file_name a True) d of Inl e \<Rightarrow> False | Inr text \<Rightarrow> is_corrupt (check_params V text)))"
  proof (rule vault_service.unwrap_create [OF assms(1,2)])
    fix s
    assume s: "stocked V [addr_of (vkeys V) key \<mapsto> (key, Some (lit ''pw''))] s"
    show "unwrap (tamper V to_text (addr_of (vkeys V) key) edit s) (\<lambda>_ d.
        case read_to_string (file_name (addr_of (vkeys V) key) True) d of Inl e \<Rightarrow> False | Inr text \<Rightarrow> is_corrupt (check_params V text))"
    proof (rule unwrap_tamper [OF s assms(3)])
      fix s' v v' f
      assume e: "edit v = Some v'" and h: "vault_ok (vkeys V) s'"
        "node_at (Utf8 (file_name (addr_of (vkeys V) key) True)) s' = Some (File f)" "data f = Utf8Text (to_text v')"
      then have "read_to_string (file_name (addr_of (vkeys V) key) True) s' = Inr (to_text v')"
        by (simp add: read_to_string_def vault_ok_def readable_def)
      then show "case read_to_string (file_name (addr_of (vkeys V) key) True) s' of Inl e \<Rightarrow> False
          | Inr text \<Rightarrow> is_corrupt (check_params V text)"
        using check_params_Inl [OF assms(4) [OF e]] by (auto simp: is_corrupt_def)
    qed
  qed simp_all
qed

text \<open>Editing what the keystore wrote does not panic.\<close>

lemma put_param_runs:
  assumes "value_laws V" and "written_params V v"
  shows "\<exists>v'. put_value (crypto_param n) x v = Some v'"
    and "\<exists>v'. put_value [lit ''crypto'', lit ''cipherparams'', n] x v = Some v'"
  using put_value_runs [OF assms(1) written_objects(1) [OF assms], of n x]
    put_value_runs [OF assms(1) written_objects(2) [OF assms], of n x] by (simp_all add: crypto_param_def)

lemma put_param_again:
  "put_value (crypto_param n) x v = Some v' \<Longrightarrow> \<exists>w. put_value (crypto_param m) y v' = Some w"
  using put_value_again [of "[lit ''crypto'', lit ''kdfparams'']" n x v v' m y] by (simp add: crypto_param_def)

lemma tampering_refused:
  assumes "stocked V Map.empty d" and "length key = 32" and "value_laws V" and "reparse_law V to_text"
  shows "oversized_scrypt_parameters_are_refused_before_derivation V to_text d key n"
    and "scrypt_work_past_the_ceiling_is_refused V to_text d key n"
    and "pbkdf2_parameters_beside_scrypt_ones_are_refused V to_text d key n"
    and "a_short_iv_is_refused_rather_than_panicking V to_text d key n"
proof -
  note runs = put_param_runs [OF assms(3)]
  show "oversized_scrypt_parameters_are_refused_before_derivation V to_text d key n"
    unfolding oversized_scrypt_parameters_are_refused_before_derivation_def
    by (rule tampered_refused(1) [OF assms(1,2) runs(1) refused_n [OF assms(3,4)]])
  show "scrypt_work_past_the_ceiling_is_refused V to_text d key n"
    unfolding scrypt_work_past_the_ceiling_is_refused_def
  proof (rule tampered_refused(2) [OF assms(1,2)])
    fix v
    assume "written_params V v"
    then obtain v1 where 1: "put_value (crypto_param (lit ''n'')) (Number (PosInt (2 ^ 16))) v = Some v1" using runs(1) by blast
    obtain v2 where 2: "put_value (crypto_param (lit ''r'')) (Number (PosInt 16)) v1 = Some v2" using put_param_again [OF 1] by blast
    obtain v3 where "put_value (crypto_param (lit ''p'')) (Number (PosInt 4)) v2 = Some v3" using put_param_again [OF 2] by blast
    with 1 2 show "\<exists>v'. Option.bind (put_value (crypto_param (lit ''n'')) (Number (PosInt (2 ^ 16))) v) (\<lambda>json.
        Option.bind (put_value (crypto_param (lit ''r'')) (Number (PosInt 16)) json)
          (put_value (crypto_param (lit ''p'')) (Number (PosInt 4)))) = Some v'" by simp
  next
    fix v v'
    assume "Option.bind (put_value (crypto_param (lit ''n'')) (Number (PosInt (2 ^ 16))) v) (\<lambda>json.
        Option.bind (put_value (crypto_param (lit ''r'')) (Number (PosInt 16)) json)
          (put_value (crypto_param (lit ''p'')) (Number (PosInt 4)))) = Some v'"
    then show "check_params V (to_text v') \<noteq> Inr ()"
      using refused_work [OF assms(3,4)] unfolding bind_eq_Some_conv by blast
  qed
  show "pbkdf2_parameters_beside_scrypt_ones_are_refused V to_text d key n"
    unfolding pbkdf2_parameters_beside_scrypt_ones_are_refused_def
  proof (rule tampered_refused(1) [OF assms(1,2)])
    fix v
    assume "written_params V v"
    then obtain v1 where 1: "put_value (crypto_param (lit ''c'')) (Number (PosInt (2 ^ 32 - 1))) v = Some v1" using runs(1) by blast
    obtain v2 where "put_value (crypto_param (lit ''prf'')) (String (lit ''hmac-sha256'')) v1 = Some v2"
      using put_param_again [OF 1] by blast
    with 1 show "\<exists>v'. Option.bind (put_value (crypto_param (lit ''c'')) (Number (PosInt (2 ^ 32 - 1))) v)
        (put_value (crypto_param (lit ''prf'')) (String (lit ''hmac-sha256''))) = Some v'" by simp
  next
    fix v v'
    assume "Option.bind (put_value (crypto_param (lit ''c'')) (Number (PosInt (2 ^ 32 - 1))) v)
        (put_value (crypto_param (lit ''prf'')) (String (lit ''hmac-sha256''))) = Some v'"
    then show "check_params V (to_text v') \<noteq> Inr ()"
      using refused_names [OF assms(3,4)] unfolding bind_eq_Some_conv by blast
  qed
  show "a_short_iv_is_refused_rather_than_panicking V to_text d key n"
    unfolding a_short_iv_is_refused_rather_than_panicking_def
    by (rule tampered_refused(1) [OF assms(1,2) runs(2) refused_iv [OF assms(3,4)]])
qed

text \<open>An open document without a key: \<open>serde\<close> gives an absent optional field no value.\<close>

definition reads_absent_key :: "vault_crates \<Rightarrow> bool" where
  "reads_absent_key V \<longleftrightarrow> (\<forall>doc. open_parser V version_only = Inr doc \<longrightarrow> rd_key doc = None)"

lemma unreadable_document_refused:
  assumes "stocked V Map.empty d" and "length key = 32" and "reads_absent_key V"
  shows "an_unreadable_open_document_is_refused_rather_than_guessed_at V d key n"
  unfolding an_unreadable_open_document_is_refused_rather_than_guessed_at_def
proof (rule vault_service.unwrap_create [OF assms(1,2)])
  fix s
  let ?a = "addr_of (vkeys V) key"
  assume s: "stocked V [?a \<mapsto> (key, None)] s"
  have "(None \<noteq> (None :: rstr option)) = False" by simp
  from overwritten_file [OF s, unfolded this, of version_only]
  obtain s' f where w: "write_file (file_name ?a False) version_only s = (Inr (), s')"
    and ok: "vault_ok (vkeys V) s'" and k: "key_file (vkeys V) s' ?a False"
    and f: "node_at (Utf8 (file_name ?a False)) s' = Some (File f)" "data f = Utf8Text version_only" by blast
  have r: "read_to_string (file_name ?a False) s' = Inr version_only"
    using ok f by (simp add: read_to_string_def vault_ok_def readable_def)
  have "is_corrupt (read_open V (file_name ?a False) s')"
    using assms(3) by (cases "open_parser V version_only")
      (auto simp: read_open_def r reads_absent_key_def is_corrupt_def)
  then obtain why where "read_open V (file_name ?a False) s' = Inl (Corrupt why)"
    by (auto simp: is_corrupt_def split: sum.splits VaultError.splits)
  then have "is_corrupt (vault_open V ?a None s')"
    using vault_open_held [OF stockedD(1) [OF s] ok k, of None] by (simp add: is_corrupt_def)
  then show "unwrap (write_file (file_name ?a False) version_only s) (\<lambda>_ d. is_corrupt (vault_open V ?a None d))"
    by (simp add: w)
qed simp_all

text \<open>A file the vault has no name for changes nothing.\<close>

lemma stocked_other_file:
  assumes "stocked V M s" and "\<And>a p. addr_parse (vkeys V) (to_string a) = Some a \<Longrightarrow> n \<noteq> file_name a p"
    and "\<And>a. n \<noteq> stage_dir a"
  shows "stocked V M (set_node (Utf8 n) (File f) (s\<lparr>ticks := t\<rparr>))"
proof -
  let ?s = "set_node (Utf8 n) (File f) (s\<lparr>ticks := t\<rparr>)"
  let ?K = "vkeys V"
  obtain N where N: "holds V N s" "M = sealed_under N" and l: "vault_laws V" and st: "settled ?K s"
    using assms(1) by (auto simp: stocked_def)
  have k: "key_file ?K ?s a p = key_file ?K s a p" for a p using assms(2) [of a p] by (auto simp: key_file_def)
  have "vault_ok ?K ?s" using N(1) k by (simp add: holds_def vault_ok_def)
  moreover have "key_files ?K ?s = key_files ?K s"
    using N(1) k assms(2) by (intro key_files_eqI) (auto simp: vault_held_def fun_eq_iff holds_def key_file_def)
  ultimately have h: "holds V N ?s" using N(1) by (simp add: holds_def)
  have fields: "fault ?s = fault s" "try_lock ?s = try_lock s" "overslept ?s = overslept s"
    by (simp_all add: set_node_def)
  then have "never_fails ?s = never_fails s" by (simp add: never_fails_def)
  note fields = fields(2,3) this
  have "settled ?K ?s"
    using st assms(3) unfolding settled_def healthy_for_def
    by (auto simp: fields stage_not_lock)
  then show ?thesis using l N(2) h unfolding stocked_def by blast
qed

lemma copy_name:
  assumes "addr_laws K" and "addr_parse K (to_string a) = Some a"
  shows "addr_parse K (to_string b) = Some b \<Longrightarrow> to_string a @ lit '' (copy)'' @ OPEN_SUFFIX \<noteq> file_name b p"
    and "to_string a @ lit '' (copy)'' @ OPEN_SUFFIX \<noteq> stage_dir b"
proof -
  have a: "length (to_string a) = 64" "set (to_string a) \<subseteq> hex_digits"
    using addr_laws_length [OF assms] addr_laws_digits [OF assms] .
  show "to_string a @ lit '' (copy)'' @ OPEN_SUFFIX \<noteq> file_name b p" if "addr_parse K (to_string b) = Some b"
  proof
    assume "to_string a @ lit '' (copy)'' @ OPEN_SUFFIX = file_name b p"
    then have "lit '' (copy)'' @ OPEN_SUFFIX = (if p then SEALED_SUFFIX else OPEN_SUFFIX)"
      using a(1) addr_laws_length [OF assms(1) that] by (simp add: file_name_def)
    then show False by (simp add: SEALED_codes OPEN_codes lit_def split: if_splits)
  qed
  show "to_string a @ lit '' (copy)'' @ OPEN_SUFFIX \<noteq> stage_dir b"
    using a dot_not_hex by (cases "to_string a") (auto simp: stage_dir_def lit_def)
qed

lemma copy_is_no_account:
  assumes "stocked V Map.empty d" and "length key = 32" and "swept (vkeys V) d"
  shows "a_copy_beside_a_key_file_is_not_an_account V d key n"
  unfolding a_copy_beside_a_key_file_is_not_an_account_def
proof -
  let ?a = "addr_of (vkeys V) key"
  let ?n = "to_string ?a @ lit '' (copy)'' @ OPEN_SUFFIX"
  let ?M = "[?a \<mapsto> (key, None)]"
  obtain s where 1: "vault_create V key None n d = (Inr ?a, s)" and s: "stocked V ?M s"
    using vault_service.create_new [OF assms(1,2), of None] by auto
  have w: "swept (vkeys V) s"
    by (rule create_swept [OF stockedD(1) [OF assms(1)] assms(2) stockedD(5,6) [OF assms(1)] assms(3) 1])
  have a: "addr_parse (vkeys V) (to_string ?a) = Some ?a" by (rule addr_laws_of [OF stockedD(1) [OF s] assms(2)])
  note other = copy_name [OF stockedD(1) [OF s] a]
  have m: "?M ?a = Some (key, None)" by simp
  obtain f where f: "node_at (Utf8 (file_name ?a False)) s = Some (File f)"
    using stocked_clear [OF s m] by blast
  have "last ?n = 110" by (simp add: OPEN_codes)
  moreover have "last LOCK_FILE = 107" by (simp add: LOCK_FILE_def lit_def)
  ultimately have "?n \<noteq> LOCK_FILE" by force
  then have "node_at (Utf8 ?n) s = None"
    using w other(1) unfolding swept_def key_file_def by blast
  then have c: "copy_file (file_name ?a False) ?n s = (Inr (), set_node (Utf8 ?n) (File f) (s\<lparr>ticks := Suc (ticks s)\<rparr>))"
    using stocked_runs(1) [OF s m] f by (simp add: copy_file_def sys_call_healthy)
  note o = stocked_other_file [OF s other]
  have "told_apart V ?M ?a None" by (rule told_apart_own)
  from vault_service.open_answers [OF o this] vault_service.list_answers [OF o]
  have "vault_accounts V (set_node (Utf8 ?n) (File f) (s\<lparr>ticks := Suc (ticks s)\<rparr>)) = Inr [StoredAccount ?a False]"
    and "is_ok (vault_open V ?a None (set_node (Utf8 ?n) (File f) (s\<lparr>ticks := Suc (ticks s)\<rparr>)))"
    by (simp_all add: scenario open_answer_def)
  then show "unwrap (vault_create V key None n d) (\<lambda>a d.
      unwrap (copy_file (file_name a False) (to_string a @ lit '' (copy)'' @ OPEN_SUFFIX) d) (\<lambda>_ d.
        vault_accounts V d = Inr [StoredAccount a False] \<and> is_ok (vault_open V a None d)))"
    by (simp add: 1 c)
qed

section \<open>The directory the tests run on\<close>

text \<open>\<open>vault()\<close>: a directory not made yet, where no call fails and the lock comes free.\<close>

definition new_vault :: "fs \<Rightarrow> bool" where
  "new_vault d \<longleftrightarrow> \<not> made d \<and> nodes d = [] \<and> readable d \<and> never_fails d
     \<and> (\<exists>i. lock_loop (try_lock d) (overslept d) 0 0 LOCK_WAIT = Inr i)"

lemma new_vault_nodes: "new_vault d \<Longrightarrow> node_at n d = None"
  by (simp add: new_vault_def node_at_def)

lemma new_vault_stocked:
  assumes "vault_laws V" and "new_vault d"
  shows "stocked V Map.empty d" and "swept (vkeys V) d"
proof -
  have e: "\<not> key_file (vkeys V) d a p" for a p using new_vault_nodes [OF assms(2)] by (simp add: key_file_def)
  have "vault_ok (vkeys V) d" using assms(2) e by (simp add: vault_ok_def wf_fs_def new_vault_def)
  moreover have "key_files (vkeys V) d = files_of V Map.empty"
    using e by (auto simp: fun_eq_iff key_files_def files_of_def vault_held_def)
  ultimately have "holds V Map.empty d" by (simp add: holds_def)
  moreover have "settled (vkeys V) d"
    using assms(2) new_vault_nodes [OF assms(2)] by (simp add: settled_def healthy_for_def new_vault_def)
  moreover have "Map.empty = sealed_under Map.empty" by (simp add: fun_eq_iff sealed_under_def)
  ultimately show "stocked V Map.empty d" using assms(1) unfolding stocked_def by blast
  show "swept (vkeys V) d" using new_vault_nodes [OF assms(2)] by (simp add: swept_def)
qed

end
