(* ===== verification/Vault_Service_Properties.thy ===== *)
theory Vault_Service_Properties
  imports Sample_Crates Vault_Disk_Scenarios "HOL-Library.Countable"
begin

text \<open>
  What the vault promises as a key service: which key opens which account under which
  password after any session, the answer to every command on a disk that never fails, and
  that the repository's own tests pass for all keys, with their witnesses.
\<close>

section \<open>Crates and a directory to run it on\<close>

text \<open>
  The crates of \<open>Sample_Crates\<close> with documents that carry all their fields, and a JSON text
  for every value.
\<close>

instance number :: countable by countable_datatype
instance Value :: countable by countable_datatype

definition any_text :: "Value \<Rightarrow> rstr" where
  "any_text v = [to_nat v]"

definition service_value_parser :: "rstr \<Rightarrow> rstr + Value" where
  "service_value_parser t = (case t of [n] \<Rightarrow> Inr (from_nat n) | _ \<Rightarrow> sample_value_parser t)"

definition service_open_writer :: "OpenDocument \<Rightarrow> rstr list" where
  "service_open_writer d = [[0, od_logos_account_vault d, length (od_key d)], od_key d, od_address d, od_protection d, od_warning d]"

definition service_open_parser :: "rstr \<Rightarrow> rstr + ReadOpenDocument" where
  "service_open_parser t =
     (if t = version_only then Inr \<lparr>rd_logos_account_vault = 1, rd_key = None\<rparr>
      else case t of
        z # v # l # r \<Rightarrow> Inr \<lparr>rd_logos_account_vault = v, rd_key = Some (take l r)\<rparr>
      | _ \<Rightarrow> Inl (lit ''expected value''))"

definition service_vault :: vault_crates where
  "service_vault = sample_vault\<lparr>value_parser := service_value_parser, open_writer := service_open_writer,
     open_parser := service_open_parser\<rparr>"

lemma service_vault_sel [simp]: "vkeys service_vault = sample_keys" "vhex service_vault = sample_hex"
  "encrypt_key service_vault = sample_encrypt" "decrypt_key service_vault = sample_decrypt"
  "value_parser service_vault = service_value_parser" "value_index service_vault = sample_index"
  "value_is_str service_vault = (\<lambda>v t. sample_str v = Some t)" "value_keys service_vault = sample_keys_of"
  "value_u64 service_vault = sample_u64" "value_str service_vault = sample_str"
  "open_writer service_vault = service_open_writer" "open_parser service_vault = service_open_parser"
  by (simp_all add: service_vault_def sample_vault_def)

lemma sample_str_Some: "sample_str v = Some t \<longleftrightarrow> v = String t"
  by (cases v) auto

lemma service_value_laws: "value_laws service_vault"
  unfolding value_laws_def
  by (auto simp: sample_str_Some field_of_def split: Value.splits)

lemma service_reparse_law: "reparse_law service_vault any_text"
  by (simp add: reparse_law_def any_text_def service_value_parser_def same_reads_def)

lemma service_writes_plainly: "writes_plainly service_vault"
proof -
  have "sublist t (concat (service_open_writer d))"
    if "t \<in> {od_address d, od_protection d, od_key d, od_warning d}" for t d
  proof -
    have "\<exists>p s. concat (service_open_writer d) = p @ t @ s"
      using that unfolding service_open_writer_def
      by (elim insertE emptyE)
        (simp_all, metis append.assoc append_Cons, metis append.assoc append_Cons,
          metis append_Cons append_Nil, metis append.assoc append_Cons append_Nil2)
    then show ?thesis by (auto simp: sublist_def)
  qed
  then show ?thesis by (simp add: writes_plainly_def)
qed

lemma service_reads_absent_key: "reads_absent_key service_vault"
  by (simp add: reads_absent_key_def service_open_parser_def)

lemma service_tells_apart: "w \<noteq> given \<Longrightarrow> length w = length given \<Longrightarrow> tells_apart service_vault w given"
  by (auto simp: tells_apart_def sample_encrypt_def)

lemma service_vault_laws: "vault_laws service_vault"
proof -
  have "0 # t \<noteq> version_only" for t by (simp add: version_only_def lit_def)
  then have "open_json_law service_vault"
    by (simp add: open_json_law_def service_open_writer_def service_open_parser_def)
  moreover have "service_value_parser t = sample_value_parser t" if "sample_encrypt n k w = Inr t" for n k w t
    using that by (auto simp: sample_encrypt_def service_value_parser_def)
  then have "keystore_law service_vault"
    using sample_keystore_law unfolding keystore_law_def written_params_def
    by (simp add: sample_vault_def)
  ultimately show ?thesis
    by (simp add: vault_laws_def seals_def sample_addr_laws sample_hex_laws) (simp add: sample_encrypt_def)
qed

lemma new_disk_is_new: "new_vault new_disk"
proof -
  have "lock_loop (try_lock new_disk) l 0 0 LOCK_WAIT = Inr 0" for l
    by (subst lock_loop.simps) (simp add: new_disk_def)
  then show ?thesis by (auto simp: new_vault_def) (simp_all add: new_disk_def never_fails_def)
qed

lemma replicated_addrs_differ: "addr_of sample_keys (replicate 32 x) = addr_of sample_keys (replicate 32 y) \<longleftrightarrow> x = y"
proof -
  have "inj to_hex" using of_hex_to_hex by (metis injI sum.inject(2))
  then show ?thesis by (auto simp: sample_keys_def replicate_eq_replicate dest: injD)
qed

section \<open>Properties\<close>

text \<open>
  C1: Whatever a session of creates and forgets asks of the vault, and whichever of its system
  calls fail, the vault afterwards holds byte for byte the files of the keys and passwords
  that the commands which returned left it: its listing is theirs, and every open gives the
  answer they call for, the very key under the right password and the right refusal else.
\<close>

theorem vault_session_keeps_keys:
  assumes "addr_laws (vkeys V)" and "hex_laws (vhex V)" and "open_json_law V" and "keystore_law V"
    and "holds V M s" and "list_all key_legal cs"
    and "session (key_step (vault_create V) (vault_forget V)) cs s = (oks, s')"
    and "M' = effects (secret_effect (vkeys V)) (zip cs oks) M"
  shows "holds V M' s' \<and> vault_accounts V s' = Inr (listing_of (sealed_under M'))
    \<and> (\<forall>a pw. told_apart V (sealed_under M') a pw \<longrightarrow> vault_open V a pw s' = open_answer (sealed_under M') a pw)"
  using holds_session [OF assms(1,5-7)] holds_listing [OF assms(1)] holds_open [OF assms(1-4)] assms(8) by blast

definition sample_session :: "key_command list" where
  "sample_session = [Insert one_key None 0, Forget (addr_of sample_keys two_key), Insert one_key (Some sample_password) 0]"

theorem vault_session_keeps_keys_witness:
  "let (oks, s') = session (key_step (vault_create service_vault) (vault_forget service_vault)) sample_session (dying_disk 11);
       M = sealed_under (effects (secret_effect sample_keys) (zip sample_session oks) Map.empty)
   in vault_accounts service_vault s' = Inr (listing_of M)
     \<and> vault_open service_vault (addr_of sample_keys one_key) None s' = open_answer M (addr_of sample_keys one_key) None"
proof -
  have "key_files sample_keys (dying_disk 11) = files_of service_vault Map.empty"
    by (auto simp: fun_eq_iff key_files_def files_of_def vault_held_def key_file_def)
  then have h: "holds service_vault Map.empty (dying_disk 11)" by (simp add: holds_def)
  have l: "list_all key_legal sample_session" by (simp add: sample_session_def)
  note laws = service_vault_laws [unfolded vault_laws_def, THEN conjunct1]
    service_vault_laws [unfolded vault_laws_def, THEN conjunct2, THEN conjunct1]
    service_vault_laws [unfolded vault_laws_def, THEN conjunct2, THEN conjunct2, THEN conjunct1]
    service_vault_laws [unfolded vault_laws_def, THEN conjunct2, THEN conjunct2, THEN conjunct2, THEN conjunct1]
  from vault_session_keeps_keys [OF laws h l prod.collapse [symmetric] refl]
  show ?thesis by (simp add: case_prod_beta Let_def told_apart_own)
qed

text \<open>
  C8: On a disk that never fails, the vault is its interface: every create and forget of any
  session answers exactly as the map of keys says (a create of an address held, or under an
  empty password, is refused, and so is a forget of one not held; nothing else is), and the
  listing and every open afterwards are the map's.
\<close>

theorem vault_session_answers:
  assumes "stocked V M s" and "list_all key_legal cs"
    and "session (key_step (vault_create V) (vault_forget V)) cs s = (oks, s')"
    and "M' = fold (map_after (addr_of (vkeys V))) cs M"
  shows "oks = outcomes (addr_of (vkeys V)) cs M \<and> stocked V M' s'
    \<and> vault_accounts V s' = Inr (listing_of M')
    \<and> (\<forall>a pw. told_apart V M' a pw \<longrightarrow> vault_open V a pw s' = open_answer M' a pw)"
  using vault_service.session_runs [OF assms(1-3)] vault_service.list_answers vault_service.open_answers
  unfolding assms(4) by blast

theorem vault_session_answers_witness:
  "\<exists>s'. session (key_step (vault_create service_vault) (vault_forget service_vault))
      [Insert one_key None 0, Insert one_key (Some sample_password) 0, Forget (addr_of sample_keys two_key),
       Insert two_key (Some sample_password) 0] new_disk = ([True, False, False, True], s')
    \<and> vault_open service_vault (addr_of sample_keys two_key) (Some sample_password) s' = Inr two_key
    \<and> vault_open service_vault (addr_of sample_keys one_key) (Some sample_password) s' = Inl PasswordNotRequired"
proof -
  let ?cs = "[Insert one_key None 0, Insert one_key (Some sample_password) 0, Forget (addr_of sample_keys two_key),
       Insert two_key (Some sample_password) 0]"
  have ne: "addr_of sample_keys one_key \<noteq> addr_of sample_keys two_key"
    by (simp add: one_key_def two_key_def replicated_addrs_differ)
  have pw: "sample_password \<noteq> []" by (simp add: sample_password_def lit_def)
  have l: "list_all key_legal ?cs" by simp
  from vault_session_answers [OF new_vault_stocked(1) [OF service_vault_laws new_disk_is_new] l prod.collapse [symmetric] refl]
  show ?thesis
    using ne pw by (intro exI [of _ "snd (session (key_step (vault_create service_vault) (vault_forget service_vault)) ?cs new_disk)"])
      (simp add: prod_eq_iff fun_upd_idem open_answer_def told_apart_def)
qed

text \<open>
  C9: The tests of \<open>vault.rs\<close> pass, on any new directory, for any four keys with addresses of
  their own: what they were written to catch cannot happen for other keys either.
\<close>

theorem vault_tests_pass:
  assumes "vault_laws V" and "value_laws V" and "reparse_law V to_text" and "writes_plainly V" and "reads_absent_key V"
    and "tells_apart V (lit ''correct horse'') (lit ''battery staple'')"
    and "new_vault d" and "list_all (\<lambda>k. length k = 32) [key1, key2, key3, key4]"
    and "distinct (map (addr_of (vkeys V)) [key1, key2, key3, key4])"
  shows "a_vault_that_was_never_created_holds_nothing V d key1
    \<and> a_created_account_opens_with_its_password V d key1 n
    \<and> a_wrong_password_is_refused V d key1 n
    \<and> an_empty_password_is_not_a_password V d key1 n
    \<and> an_account_without_a_password_opens_without_one V d key1 n
    \<and> an_unprotected_file_shows_the_key_it_holds V d key1 n
    \<and> the_password_must_match_what_the_account_chose V d key1 key2 n
    \<and> accounts_with_and_without_passwords_live_side_by_side V d key1 key2 n
    \<and> re_adding_an_account_is_refused_and_the_held_key_kept V d key1 n
    \<and> forgetting_removes_one_account_and_keeps_the_rest V d key1 key2 n
    \<and> a_create_leaves_only_the_vault_files_and_the_lock V d key1 key2 n
    \<and> every_vault_file_is_readable_by_its_owner_only V d key1 key2 n
    \<and> a_file_under_another_accounts_name_is_refused V d key1 key2 key3 key4 n
    \<and> oversized_scrypt_parameters_are_refused_before_derivation V to_text d key1 n
    \<and> scrypt_work_past_the_ceiling_is_refused V to_text d key1 n
    \<and> pbkdf2_parameters_beside_scrypt_ones_are_refused V to_text d key1 n
    \<and> a_copy_beside_a_key_file_is_not_an_account V d key1 n
    \<and> a_short_iv_is_refused_rather_than_panicking V to_text d key1 n
    \<and> an_unreadable_open_document_is_refused_rather_than_guessed_at V d key1 n"
proof -
  note s = new_vault_stocked [OF assms(1,7)]
  have k: "length key1 = 32" "length key2 = 32" "length key3 = 32" "length key4 = 32" using assms(8) by simp_all
  have ne: "addr_of (vkeys V) key1 \<noteq> addr_of (vkeys V) key2" using assms(9) by simp
  have d: "distinct [addr_of (vkeys V) key1, addr_of (vkeys V) key2, addr_of (vkeys V) key3, addr_of (vkeys V) key4]"
    using assms(9) by simp
  show ?thesis
    by (intro conjI scenarios_by_interface(1,2,4-9) [OF s(1) k(1,2) ne] scenarios_by_interface(3) [OF s(1) k(1,2) ne assms(6)]
        shows_the_key [OF s(1) k(1) assms(4)]
        leaves_only_the_files [OF s(1) k(1,2) ne s(2)] owner_only [OF s(1) k(1,2) ne s(2)]
        other_name_refused [OF s(1) k d] tampering_refused [OF s(1) k(1) assms(2,3)]
        copy_is_no_account [OF s(1) k(1) s(2)] unreadable_document_refused [OF s(1) k(1) assms(5)])
qed

theorem vault_tests_pass_witness:
  "a_wrong_password_is_refused service_vault new_disk one_key 0
   \<and> a_file_under_another_accounts_name_is_refused service_vault new_disk one_key two_key (replicate 32 3) (replicate 32 4) 0
   \<and> scrypt_work_past_the_ceiling_is_refused service_vault any_text new_disk one_key 0"
proof -
  have apart: "tells_apart service_vault (lit ''correct horse'') (lit ''battery staple'')"
    by (auto simp: tells_apart_def sample_encrypt_def lit_def)
  have "distinct (map (addr_of (vkeys service_vault)) [one_key, two_key, replicate 32 3, replicate 32 4])"
    by (simp add: one_key_def two_key_def replicated_addrs_differ)
  from vault_tests_pass [OF service_vault_laws service_value_laws service_reparse_law service_writes_plainly
      service_reads_absent_key apart new_disk_is_new _ this, of 0]
  show ?thesis by simp
qed

end
