(* ===== verification/Observed_Properties.thy ===== *)
theory Observed_Properties
  imports Sample_Crates
begin

text \<open>
  What the observed list promises: a set of addresses kept across sessions of adds and
  removes that may fail anywhere, a write that replaces the list whole or not at all, and no
  effect on the vault's files in the same directory.
\<close>

text \<open>
  C18: Whatever a session of observes and stops asks, and whichever calls fail, the list read
  afterwards is the sorted list of exactly the addresses the calls that returned left in the
  set; a call that failed changed nothing.
\<close>

theorem observed_session_refines_set:
  assumes "observed_ok B s" and "list_all (book_legal (valid_addr (okeys B))) cs"
    and "session (book_step (observed_add B) (observed_remove B)) cs s = (oks, s')"
  shows "observed_ok B s' \<and> length oks = length cs
    \<and> observed_list B s' = Inr (sorted_list_of_set
          (effects book_effect (zip cs oks) (listed (observed_list B) s)))"
  using observed.booked.session_refines [OF assms] observed.listing_total [of B s'] by simp

definition sample_book :: "book_command list" where
  "sample_book = [Observe (addr_of sample_keys one_key), Unobserve (addr_of sample_keys two_key),
     Observe (addr_of sample_keys two_key)]"

lemma sample_valid [simp]:
  "valid_addr sample_keys (addr_of sample_keys one_key)" "valid_addr sample_keys (addr_of sample_keys two_key)"
  using addr_laws_of [OF sample_addr_laws] by (simp_all add: valid_addr_def)

theorem observed_session_refines_set_witness:
  "let (oks, s') = session (book_step (observed_add sample_observed) (observed_remove sample_observed)) sample_book (dying_disk 9)
   in length oks = 3 \<and> observed_list sample_observed s' =
     Inr (sorted_list_of_set (effects book_effect (zip sample_book oks) {}))"
proof -
  have e: "listed (observed_list sample_observed) (dying_disk 9) = {}"
    by (simp add: listed_def observed_list_def read_to_string_def)
  have l: "list_all (book_legal (valid_addr (okeys sample_observed))) sample_book"
    by (simp add: sample_book_def)
  from observed_session_refines_set [OF _ l prod.collapse [symmetric], of "dying_disk 9"]
  show ?thesis by (simp add: e case_prod_beta sample_book_def)
qed

text \<open>
  The list is written whole or not at all. A write that fails, at whichever of its system
  calls and however much of the staged file it wrote, leaves the file under the list's name
  as it was; one that returns leaves there the document for the addresses it was given,
  in order, mode 0600.
\<close>

theorem observed_write_atomic:
  assumes "observed_write B xs s = (r, s')"
  shows "(\<not> is_ok r \<longrightarrow> node_at (Utf8 OBSERVED_FILE) s' = node_at (Utf8 OBSERVED_FILE) s)
    \<and> (is_ok r \<longrightarrow> (\<exists>f. node_at (Utf8 OBSERVED_FILE) s' = Some (File f) \<and> fmode f = octal 6 0 0
         \<and> data f = Utf8Text (doc_writer B
             \<lparr>logos_account_observed = OBSERVED_VERSION, addresses = sort (map to_string xs)\<rparr>)))
    \<and> (\<forall>n. n \<noteq> Utf8 OBSERVED_FILE \<and> n \<noteq> Utf8 OBSERVED_STAGED \<longrightarrow> node_at n s' = node_at n s)"
proof -
  have k: "keeps (frame {Utf8 OBSERVED_STAGED, Utf8 OBSERVED_FILE}) (observed_write B xs)"
    by (intro keeps_intros) simp_all
  have o: "node_at n s' = node_at n s" if "n \<noteq> Utf8 OBSERVED_FILE" "n \<noteq> Utf8 OBSERVED_STAGED" for n
    using frame_node [OF keepsD [OF k assms], of n] that by simp
  show ?thesis
  proof (cases r)
    case (Inl e)
    with frame_node [OF observed_write_Inl, of B xs s e s' "Utf8 OBSERVED_FILE"] assms o show ?thesis by simp
  next
    case (Inr u)
    with observed_write_Inr [of B xs s u s'] assms o show ?thesis by simp
  qed
qed

theorem observed_write_atomic_witness:
  "node_at (Utf8 OBSERVED_FILE) (snd (observed_write sample_observed [addr_of sample_keys one_key] (dying_disk 3))) = None"
proof -
  have "\<not> is_ok (fst (observed_write sample_observed [addr_of sample_keys one_key] (dying_disk 3)))" by code_simp
  with observed_write_atomic [OF prod.collapse [symmetric],
      of sample_observed "[addr_of sample_keys one_key]" "dying_disk 3"]
  show ?thesis by simp
qed

text \<open>
  The two stores share a directory and stay apart: whatever a create or a forget answers,
  the observed list reads the same, and whatever an observe or a stop answers, the vault lists
  the same accounts from the same files.
\<close>

theorem vault_and_observed_apart:
  assumes "addr_laws (vkeys V)" and "okeys B = vkeys V" and "vault_ok (vkeys V) s" and "length key = 32"
  shows "observed_list B (snd (vault_create V key pw ent s)) = observed_list B s
    \<and> observed_list B (snd (vault_forget V a s)) = observed_list B s
    \<and> vault_accounts V (snd (observed_add B a s)) = vault_accounts V s
    \<and> vault_accounts V (snd (observed_remove B a s)) = vault_accounts V s"
  using create_observed_list [OF assms(1,4)] forget_observed_list [OF assms(1,3)]
    observed_calls_vault [OF assms(1-3)] by blast

theorem vault_and_observed_apart_witness:
  "observed_list sample_observed (snd (vault_create sample_vault two_key None 0 open_disk))
     = observed_list sample_observed open_disk
   \<and> vault_accounts sample_vault (snd (observed_add sample_observed (addr_of sample_keys two_key) open_disk))
     = vault_accounts sample_vault open_disk"
  using vault_and_observed_apart [of sample_vault sample_observed open_disk two_key]
  by (simp add: sample_addr_laws sample_disks_ok)

end
