(* ===== verification/Store.thy ===== *)
theory Store
  imports Crates Filesystem Failure_Atomic
begin

text \<open>
  \<open>store.rs\<close>: where logs are published and read back. A store is the in-process memory
  store or chat-store over HTTP; both are handles over shared state, here the \<open>world\<close>. The
  HTTP client and the artifact codec are parameters.
\<close>

section \<open>Definitions\<close>

datatype StoreError =
    Transport rstr
  | Diverged
  | NoRoute
  | Status nat "rstr option"
  | Malformed rstr

datatype ureq_error = Timeout | UreqIo io_error | BodyExceedsLimit nat | OtherUreqError rstr

record response =
  status :: nat
  body_string :: "nat \<Rightarrow> rstr option"              \<comment> \<open>read to a string within a limit, if it can be\<close>
  body_vec :: "nat \<Rightarrow> ureq_error + bytes"          \<comment> \<open>read to bytes within a limit\<close>

record 'n http =
  http_get :: "rstr \<Rightarrow> 'n \<Rightarrow> (ureq_error + response) \<times> 'n"
  http_post :: "nat \<Rightarrow> rstr \<Rightarrow> rstr \<Rightarrow> bytes \<Rightarrow> 'n \<Rightarrow> (ureq_error + response) \<times> 'n"
                                                \<comment> \<open>redirects followed, URL, content type, body\<close>
  ureq_text :: "ureq_error \<Rightarrow> rstr"
  error_body :: "rstr \<Rightarrow> rstr option"           \<comment> \<open>\<open>from_str::<ErrorBody>\<close>, its \<open>error\<close> field\<close>
  signed_to_bytes :: "signed_log \<Rightarrow> bytes"
  signed_from_bytes :: "bytes \<Rightarrow> rstr + signed_log"
  max_payload :: nat                            \<comment> \<open>\<open>MAX_PAYLOAD_BYTES\<close>\<close>

text \<open>
  What the process shares with the outside: the memory store's logs, the network, the
  clock's current reading (nanoseconds from the epoch) and the entropy source.
\<close>

record 'n world =
  mem :: "(AccountAddr \<times> signed_log) list"
  net :: 'n
  now :: int
  entropy :: nat

definition DEFAULT_STORE_URL :: rstr where
  "DEFAULT_STORE_URL = lit ''https://devnet.chat-kc.logos.co''"

definition FETCH_TIMEOUT_SECS :: nat where "FETCH_TIMEOUT_SECS = 15"

definition MAX_ARTIFACT_BYTES :: "'n http \<Rightarrow> nat" where
  "MAX_ARTIFACT_BYTES H = max_payload H + 64"

definition reason :: "'n http \<Rightarrow> response \<Rightarrow> rstr option" where
  "reason H r = Option.bind (body_string r 4096) (error_body H)"

definition transport :: "'n http \<Rightarrow> ureq_error \<Rightarrow> StoreError" where
  "transport H e = Transport
     (case e of
        Timeout \<Rightarrow> lit ''no answer within '' @ dec FETCH_TIMEOUT_SECS @ lit '' s''
      | UreqIo ConnectionRefused \<Rightarrow> lit ''connection refused''
      | _ \<Rightarrow> ureq_text H e)"

subsection \<open>chat-store over HTTP\<close>

definition chat_base_url :: "rstr \<Rightarrow> rstr" where
  "chat_base_url url = trim_end_by (\<lambda>c. c = 47) url"

definition chat_url :: "rstr \<Rightarrow> AccountAddr \<Rightarrow> rstr" where
  "chat_url base a = base @ lit ''/v1/account/'' @ to_string a"

definition chat_read :: "'n http \<Rightarrow> response \<Rightarrow> StoreError + signed_log option" where
  "chat_read H r =
     (if 200 \<le> status r \<and> status r \<le> 299 then
        (case body_vec r (MAX_ARTIFACT_BYTES H) of
           Inl e \<Rightarrow> Inl (case e of BodyExceedsLimit n \<Rightarrow> Malformed (ureq_text H e) | _ \<Rightarrow> transport H e)
         | Inr artifact \<Rightarrow>
             (case signed_from_bytes H artifact of
                Inl e \<Rightarrow> Inl (Malformed e)
              | Inr log \<Rightarrow> Inr (Some log)))
      else if status r = 404 then
        (case reason H r of Some why \<Rightarrow> Inr None | None \<Rightarrow> Inl NoRoute)
      else Inl (Status (status r) (reason H r)))"

definition chat_fetch :: "'n http \<Rightarrow> rstr \<Rightarrow> 'n world \<Rightarrow> AccountAddr \<Rightarrow> (StoreError + signed_log option) \<times> 'n world" where
  "chat_fetch H base w a =
     (case http_get H (chat_url base a) (net w) of
        (Inl e, n) \<Rightarrow> (Inl (transport H e), w\<lparr>net := n\<rparr>)
      | (Inr r, n) \<Rightarrow> (chat_read H r, w\<lparr>net := n\<rparr>))"

definition chat_publish ::
  "'n http \<Rightarrow> rstr \<Rightarrow> 'n world \<Rightarrow> AccountAddr \<Rightarrow> signed_log \<Rightarrow> (StoreError + unit) \<times> 'n world" where
  "chat_publish H base w a log =
     (case http_post H 0 (chat_url base a) (lit ''application/octet-stream'') (signed_to_bytes H log) (net w) of
        (Inl e, n) \<Rightarrow> (Inl (transport H e), w\<lparr>net := n\<rparr>)
      | (Inr r, n) \<Rightarrow>
          (if 200 \<le> status r \<and> status r \<le> 299 then Inr ()
           else if status r = 409 then Inl Diverged
           else if status r = 404 then Inl NoRoute
           else Inl (Status (status r) (reason H r)), w\<lparr>net := n\<rparr>))"

subsection \<open>The memory store\<close>

definition mem_held :: "(AccountAddr \<times> signed_log) list \<Rightarrow> AccountAddr \<Rightarrow> signed_log option" where
  "mem_held m a = map_option snd (find (\<lambda>h. fst h = a) m)"

definition mem_fetch :: "'n world \<Rightarrow> AccountAddr \<Rightarrow> (StoreError + signed_log option) \<times> 'n world" where
  "mem_fetch w a = (Inr (mem_held (mem w) a), w)"

text \<open>\<open>*existing = log\<close>, at the first entry for the address.\<close>

fun mem_replace :: "AccountAddr \<Rightarrow> signed_log \<Rightarrow> (AccountAddr \<times> signed_log) list \<Rightarrow> (AccountAddr \<times> signed_log) list" where
  "mem_replace a log [] = []"
| "mem_replace a log ((h, old) # m) = (if h = a then (h, log) # m else (h, old) # mem_replace a log m)"

definition mem_publish :: "'n world \<Rightarrow> AccountAddr \<Rightarrow> signed_log \<Rightarrow> (StoreError + unit) \<times> 'n world" where
  "mem_publish w a log =
     (case mem_held (mem w) a of
        Some existing \<Rightarrow>
          if \<not> prefix (payload existing) (payload log) then (Inl Diverged, w)
          else (Inr (), w\<lparr>mem := mem_replace a log (mem w)\<rparr>)
      | None \<Rightarrow> (Inr (), w\<lparr>mem := mem w @ [(a, log)]\<rparr>))"

subsection \<open>The store the app was pointed at\<close>

datatype Store = Chat rstr | Memory

definition from_url :: "rstr \<Rightarrow> 'n world \<Rightarrow> Store \<times> 'n world" where
  "from_url url w =
     (if url = lit ''memory'' then (Memory, w\<lparr>mem := []\<rparr>) else (Chat (chat_base_url url), w))"

definition store_describe :: "Store \<Rightarrow> rstr" where
  "store_describe s = (case s of Chat base \<Rightarrow> base | Memory \<Rightarrow> lit ''memory'')"

definition store_fetch :: "'n http \<Rightarrow> Store \<Rightarrow> 'n world \<Rightarrow> AccountAddr \<Rightarrow> (StoreError + signed_log option) \<times> 'n world" where
  "store_fetch H s w a = (case s of Chat base \<Rightarrow> chat_fetch H base w a | Memory \<Rightarrow> mem_fetch w a)"

definition store_publish :: "'n http \<Rightarrow> Store \<Rightarrow> 'n world \<Rightarrow> AccountAddr \<Rightarrow> signed_log \<Rightarrow> (StoreError + unit) \<times> 'n world" where
  "store_publish H s w a log =
     (case s of Chat base \<Rightarrow> chat_publish H base w a log | Memory \<Rightarrow> mem_publish w a log)"

section \<open>The contract of a store that only ever extends\<close>

definition extend_effect :: "AccountAddr \<times> signed_log \<Rightarrow> (AccountAddr \<rightharpoonup> signed_log) \<Rightarrow> (AccountAddr \<rightharpoonup> signed_log)" where
  "extend_effect c m = m(fst c \<mapsto> snd c)"

text \<open>One log under an address extends another: its payload opens with the other's.\<close>

definition extends :: "(AccountAddr \<rightharpoonup> signed_log) \<Rightarrow> (AccountAddr \<rightharpoonup> signed_log) \<Rightarrow> bool" where
  "extends m m' \<longleftrightarrow>
     (\<forall>a old. m a = Some old \<longrightarrow> (\<exists>log. m' a = Some log \<and> prefix (payload old) (payload log)))"

lemma extends_refl [simp]: "extends m m"
  by (simp add: extends_def)

lemma extends_trans: "extends m n \<Longrightarrow> extends n k \<Longrightarrow> extends m k"
  unfolding extends_def by (meson prefix_order.trans)

locale append_store =
  fixes contents :: "'s \<Rightarrow> (AccountAddr \<rightharpoonup> signed_log)"
    and fetch :: "'s \<Rightarrow> AccountAddr \<Rightarrow> ('e + signed_log option) \<times> 's"
    and publish :: "'s \<Rightarrow> AccountAddr \<Rightarrow> signed_log \<Rightarrow> ('e + unit) \<times> 's"
  assumes fetch_contents: "fetch s a = (Inr (contents s a), s)"
    and publish_refused: "publish s a log = (Inl e, s') \<Longrightarrow>
      s' = s \<and> (\<exists>old. contents s a = Some old \<and> \<not> prefix (payload old) (payload log))"
    and publish_taken: "publish s a log = (Inr u, s') \<Longrightarrow>
      contents s' = (contents s)(a \<mapsto> log)
      \<and> (\<forall>old. contents s a = Some old \<longrightarrow> prefix (payload old) (payload log))"
begin

lemma publish_extends: "publish s a log = (r, s') \<Longrightarrow> extends (contents s) (contents s')"
proof (cases r)
  case (Inl e)
  moreover assume "publish s a log = (r, s')"
  ultimately have "s' = s" using publish_refused by blast
  then show ?thesis by simp
next
  case (Inr u)
  moreover assume "publish s a log = (r, s')"
  ultimately have t: "publish s a log = (Inr u, s')" by simp
  show ?thesis using publish_taken [OF t] by (auto simp: extends_def)
qed

lemma published_is_fetched: "publish s a log = (Inr u, s') \<Longrightarrow> fetch s' a = (Inr (Some log), s')"
  by (simp add: fetch_contents publish_taken)

lemma publish_taken_iff:
  "is_ok (fst (publish s a log)) \<longleftrightarrow>
     (\<forall>old. contents s a = Some old \<longrightarrow> prefix (payload old) (payload log))"
  using publish_refused [of s a log] publish_taken [of s a log]
  by (cases "publish s a log"; cases "fst (publish s a log)") auto

lemma session_extends:
  "session (\<lambda>c s. publish s (fst c) (snd c)) cs s = (oks, s') \<Longrightarrow> extends (contents s) (contents s')"
proof (induction cs arbitrary: s oks)
  case Nil
  then show ?case by simp
next
  case (Cons c cs)
  then show ?case
    by (auto split: prod.splits intro: extends_trans publish_extends)
qed

end

sublocale append_store \<subseteq> extending: failure_atomic "\<lambda>s. True" contents
  "\<lambda>c s. publish s (fst c) (snd c)" extend_effect "\<lambda>c. True"
  by unfold_locales (auto simp: extend_effect_def dest: publish_refused publish_taken)

section \<open>The memory store keeps the contract\<close>

lemma mem_held_append: "mem_held (m @ [(a, log)]) b =
    (case mem_held m b of Some old \<Rightarrow> Some old | None \<Rightarrow> if a = b then Some log else None)"
  by (induction m) (auto simp: mem_held_def)

lemma mem_held_replace:
  "mem_held (mem_replace a log m) b = (if b = a \<and> mem_held m a \<noteq> None then Some log else mem_held m b)"
  by (induction a log m rule: mem_replace.induct) (auto simp: mem_held_def)

lemma mem_publish_taken:
  assumes "mem_publish w a log = (Inr u, w')"
  shows "mem_held (mem w') = (mem_held (mem w))(a \<mapsto> log)"
    and "\<forall>old. mem_held (mem w) a = Some old \<longrightarrow> prefix (payload old) (payload log)"
  using assms
  by (auto simp: mem_publish_def fun_eq_iff mem_held_append mem_held_replace split: option.splits if_splits)

interpretation memory_store: append_store
  "\<lambda>w. mem_held (mem w)" "store_fetch H Memory" "store_publish H Memory" for H
proof (unfold_locales, goal_cases)
  case (1 s a)
  show ?case by (simp add: store_fetch_def mem_fetch_def)
next
  case (2 s a log e s')
  then show ?case by (auto simp: store_publish_def mem_publish_def split: option.splits if_splits)
next
  case (3 s a log u s')
  then have "mem_publish s a log = (Inr u, s')" by (simp add: store_publish_def)
  from mem_publish_taken [OF this] show ?case by simp
qed

end
