(* ===== verification/Store_Properties.thy ===== *)
theory Store_Properties
  imports Store Sample_Crates
begin

text \<open>
  What the two stores promise: the memory store only ever extends a log and reads back what it
  took, and chat-store's answers over HTTP are told apart by status and body, so that "nothing
  published" is never concluded from a failure.
\<close>

section \<open>A network to run on\<close>

text \<open>The network is the answers it will give, in order, and then silence.\<close>

type_synonym script = "(ureq_error + response) list"

fun next_answer :: "script \<Rightarrow> (ureq_error + response) \<times> script" where
  "next_answer [] = (Inl Timeout, [])"
| "next_answer (x # xs) = (x, xs)"

definition sample_http :: "script http" where
  "sample_http = \<lparr>
     http_get = (\<lambda>url. next_answer), http_post = (\<lambda>redirects url ctype b. next_answer),
     ureq_text = (\<lambda>e. lit ''io: broken pipe''),
     error_body = (\<lambda>t. if t = [] then None else Some t),
     signed_to_bytes = (\<lambda>l. signature l @ payload l),
     signed_from_bytes = (\<lambda>b. if length b < 64 then Inl (lit ''too short'')
        else Inr \<lparr>payload = drop 64 b, signature = take 64 b\<rparr>),
     max_payload = 32768\<rparr>"

definition answer :: "nat \<Rightarrow> rstr \<Rightarrow> bytes \<Rightarrow> response" where
  "answer code text b = \<lparr>status = code, body_string = (\<lambda>limit. Some text),
     body_vec = (\<lambda>limit. if limit < length b then Inl (BodyExceedsLimit limit) else Inr b)\<rparr>"

definition sample_world :: "script \<Rightarrow> script world" where
  "sample_world xs = \<lparr>mem = [], net = xs, now = 1000000000, entropy = 1\<rparr>"

definition log_of :: "bytes \<Rightarrow> signed_log" where
  "log_of b = \<lparr>payload = b, signature = replicate 64 7\<rparr>"

section \<open>The memory store\<close>

text \<open>
  C15: Over any session of publishes the memory store's logs only grow: what it holds under an
  address afterwards opens with what it held before, and it is exactly what the publishes that
  were taken put there.
\<close>

theorem memory_store_only_extends:
  assumes "session (\<lambda>c w. store_publish H Memory w (fst c) (snd c)) cs w = (oks, w')"
  shows "extends (mem_held (mem w)) (mem_held (mem w'))
    \<and> mem_held (mem w') = effects extend_effect (zip cs oks) (mem_held (mem w))"
  using memory_store.session_extends [OF assms]
    memory_store.extending.session_refines [OF _ _ assms] by (simp add: list_all_iff)

definition sample_publishes :: "(AccountAddr \<times> signed_log) list" where
  "sample_publishes = map (Pair (addr_of sample_keys one_key)) [log_of [1], log_of [1, 2], log_of [3]]"

theorem memory_store_only_extends_witness:
  "let (oks, w') = session (\<lambda>c w. store_publish sample_http Memory w (fst c) (snd c)) sample_publishes (sample_world [])
   in oks = [True, True, False] \<and> mem_held (mem w') (addr_of sample_keys one_key) = Some (log_of [1, 2])"
proof -
  let ?s = "session (\<lambda>c w. store_publish sample_http Memory w (fst c) (snd c)) sample_publishes (sample_world [])"
  have oks: "fst ?s = [True, True, False]"
    by (simp add: sample_publishes_def store_publish_def mem_publish_def mem_held_def sample_world_def log_of_def)
  from memory_store_only_extends [where H = sample_http and cs = sample_publishes and w = "sample_world []",
      OF prod.collapse [symmetric]]
  have "mem_held (mem (snd ?s)) (addr_of sample_keys one_key) = Some (log_of [1, 2])"
    unfolding oks by (simp add: sample_publishes_def extend_effect_def)
  with oks show ?thesis by (simp add: case_prod_beta)
qed

text \<open>
  The memory store takes a log exactly when it holds none under the address or the log's
  payload opens with the payload it holds; a log it took is what a fetch then answers, and a
  refusal leaves everything as it was.
\<close>

theorem memory_publish_iff_extension:
  "(case store_publish H Memory w a log of
      (Inr u, w') \<Rightarrow>
        (case mem_held (mem w) a of None \<Rightarrow> True | Some old \<Rightarrow> prefix (payload old) (payload log))
        \<and> fst (store_fetch H Memory w' a) = Inr (Some log)
    | (Inl e, w') \<Rightarrow>
        e = Diverged \<and> w' = w
        \<and> (case mem_held (mem w) a of None \<Rightarrow> False | Some old \<Rightarrow> \<not> prefix (payload old) (payload log)))"
proof (cases "store_publish H Memory w a log")
  case (Pair r w')
  show ?thesis
  proof (cases r)
    case (Inl e)
    with Pair memory_store.publish_refused [of H w a log e w'] show ?thesis
      by (auto simp: store_publish_def mem_publish_def split: option.splits if_splits)
  next
    case (Inr u)
    with Pair memory_store.publish_taken [of H w a log u w'] memory_store.published_is_fetched [of H w a log u w']
    show ?thesis by (auto split: option.splits)
  qed
qed

section \<open>chat-store\<close>

text \<open>
  C34: Reading over HTTP: "nothing is published" is answered only to a 404 that carries
  chat-store's own error body, a log only to a success whose body fits the cap and decodes,
  and a 404 without that body is a store with no such route.
\<close>

theorem chat_fetch_classifies:
  assumes "http_get H (chat_url base a) (net w) = (Inr r, n)"
  shows "(fst (store_fetch H (Chat base) w a) = Inr None \<longleftrightarrow> status r = 404 \<and> reason H r \<noteq> None)
    \<and> (fst (store_fetch H (Chat base) w a) = Inr (Some log) \<longleftrightarrow>
         200 \<le> status r \<and> status r \<le> 299
         \<and> (\<exists>b. body_vec r (MAX_ARTIFACT_BYTES H) = Inr b \<and> signed_from_bytes H b = Inr log))
    \<and> (fst (store_fetch H (Chat base) w a) = Inl NoRoute \<longleftrightarrow> status r = 404 \<and> reason H r = None)"
  using assms
  by (auto simp: store_fetch_def chat_fetch_def chat_read_def transport_def split: sum.splits ureq_error.splits option.splits if_splits)

theorem chat_fetch_classifies_witness:
  "fst (store_fetch sample_http (Chat (lit ''http://x'')) (sample_world [Inr (answer 404 (lit ''unknown account'') [])]) (addr_of sample_keys one_key)) = Inr None
   \<and> fst (store_fetch sample_http (Chat (lit ''http://x'')) (sample_world [Inr (answer 404 [] [])]) (addr_of sample_keys one_key)) = Inl NoRoute"
proof -
  have g: "http_get sample_http u (net (sample_world [x])) = (x, [])" for u x
    by (simp add: sample_http_def sample_world_def)
  from chat_fetch_classifies [OF g [where x = "Inr (answer 404 (lit ''unknown account'') [])"]]
    chat_fetch_classifies [OF g [where x = "Inr (answer 404 [] [])"]]
  show ?thesis by (simp add: reason_def answer_def sample_http_def lit_def)
qed

text \<open>
  Publishing over HTTP: the log counts as taken only on a success status, as refused for
  not extending only on 409; no redirect is followed with the body, and the process's own
  memory store is not touched.
\<close>

theorem chat_publish_classifies:
  assumes "http_post H 0 (chat_url base a) (lit ''application/octet-stream'') (signed_to_bytes H log) (net w) = (x, n)"
    and "store_publish H (Chat base) w a log = (res, w')"
  shows "(is_ok res \<longleftrightarrow> (\<exists>r. x = Inr r \<and> 200 \<le> status r \<and> status r \<le> 299))
    \<and> (res = Inl Diverged \<longleftrightarrow> (\<exists>r. x = Inr r \<and> status r = 409))
    \<and> (res = Inl NoRoute \<longleftrightarrow> (\<exists>r. x = Inr r \<and> status r = 404))
    \<and> mem w' = mem w \<and> now w' = now w \<and> net w' = n"
  using assms
  by (auto simp: store_publish_def chat_publish_def transport_def split: sum.splits if_splits)

theorem chat_publish_classifies_witness:
  "fst (store_publish sample_http (Chat (lit ''http://x'')) (sample_world [Inr (answer 409 [] [])]) (addr_of sample_keys one_key) (log_of [1])) = Inl Diverged"
proof -
  have g: "http_post sample_http 0 u c b (net (sample_world [x])) = (x, [])" for u c b x
    by (simp add: sample_http_def sample_world_def)
  from chat_publish_classifies [where base = "lit ''http://x''" and a = "addr_of sample_keys one_key" and log = "log_of [1]"
      and x = "Inr (answer 409 [] [])", OF g prod.collapse [symmetric]]
  show ?thesis by (simp add: answer_def)
qed

text \<open>
  Any URL but the word \<open>memory\<close> selects chat-store, at the URL without its trailing
  slashes and with nothing else taken off, so the route's path never doubles one; the store
  describes itself by that base.
\<close>

theorem from_url_base:
  assumes "url \<noteq> lit ''memory''"
  shows "from_url url w = (Chat (chat_base_url url), w)
    \<and> store_describe (Chat (chat_base_url url)) = chat_base_url url
    \<and> (\<exists>n. url = chat_base_url url @ replicate n 47)
    \<and> (chat_base_url url = [] \<or> last (chat_base_url url) \<noteq> 47)"
proof (intro conjI)
  show "from_url url w = (Chat (chat_base_url url), w)" using assms by (simp add: from_url_def)
  show "store_describe (Chat (chat_base_url url)) = chat_base_url url" by (simp add: store_describe_def)
  let ?n = "length (takeWhile (\<lambda>c. c = 47) (rev url))"
  have "rev url = takeWhile (\<lambda>c. c = 47) (rev url) @ dropWhile (\<lambda>c. c = 47) (rev url)" by simp
  moreover have "takeWhile (\<lambda>c. c = 47) (rev url) = replicate ?n 47"
    by (rule replicate_length_same [symmetric]) (auto dest: set_takeWhileD)
  ultimately have "rev url = replicate ?n 47 @ dropWhile (\<lambda>c. c = 47) (rev url)" by metis
  then have "rev (rev url) = rev (dropWhile (\<lambda>c. c = 47) (rev url)) @ replicate ?n 47"
    by (metis rev_append rev_replicate)
  then show "\<exists>n. url = chat_base_url url @ replicate n 47"
    unfolding chat_base_url_def trim_end_by_def rev_rev_ident by (rule exI)
  show "chat_base_url url = [] \<or> last (chat_base_url url) \<noteq> 47"
    unfolding chat_base_url_def using trim_end_by_last by blast
qed

theorem from_url_base_witness:
  "from_url (lit ''http://x//'') (sample_world []) = (Chat (lit ''http://x''), sample_world [])"
  using from_url_base [of "lit ''http://x//''" "sample_world []"]
  by (simp add: lit_def chat_base_url_def trim_end_by_def)

end
