(* ===== verification/Core_Types.thy ===== *)
theory Core_Types
  imports Key_Store Address_Book Store
begin

text \<open>
  \<open>manager.rs\<close>, its types: the errors, staged edits, what a read left behind, the rows and
  summaries the view draws, the crates the core is built on, and the state \<open>AccountCore\<close>
  keeps. The handles the code holds (\<open>Vault\<close>, \<open>ObservedAccounts\<close>, \<open>Store\<close>) act on the
  directory and the outside world, which are part of the state here.
\<close>

section \<open>Constants and errors\<close>

definition DISPLAY_NAME_CONTEXT :: Context where
  "DISPLAY_NAME_CONTEXT = lit ''profile.displayname''"

definition MAX_DISPLAY_NAME_BYTES :: nat where "MAX_DISPLAY_NAME_BYTES = 64"

datatype CoreError =
    Vault VaultError
  | Account "StoreError AccountError"
  | LogRefused AccountLogError
  | StoreFailed StoreError
  | Observed ObservedError
  | Address
  | UnknownAccount
  | NotManaged
  | Locked
  | AlreadyManaged
  | Argument
  | Key rstr
  | EmptyDisplayName
  | DisplayNameCharacters
  | DisplayNameTooLong nat
  | NameUnchanged
  | InstallationLive
  | AlreadyStaged
  | OverBudget
  | NotRevocable u32
  | NothingStaged
  | Unreadable

section \<open>Edits and reads\<close>

datatype StagedEdit = AddInstallation VerifyingKey | SetDisplayName rstr | Revoke u32

datatype ReadProblem = Unverified | ForkedLog | Unanswered

definition ReadProblem_of :: "'e AccountError \<Rightarrow> ReadProblem" where
  "ReadProblem_of e = (case e of Log l \<Rightarrow> Unverified | Forked \<Rightarrow> ForkedLog | Provider p \<Rightarrow> Unanswered)"

record LastRead =
  lr_at :: "int option"                \<comment> \<open>\<open>SystemTime\<close>, in nanoseconds from the epoch\<close>
  lr_problem :: "ReadProblem option"

definition LastRead_default :: LastRead where
  "LastRead_default = \<lparr>lr_at = None, lr_problem = None\<rparr>"

section \<open>What the view draws\<close>

record AccountSummary =
  sum_address :: rstr
  sum_managed :: bool
  sum_protected :: bool
  sum_locked :: bool
  sum_resolved :: bool
  sum_display_name :: "rstr option"
  sum_pending :: nat
  sum_problem :: "ReadProblem option"

record EntryCosts =
  cost_installation :: nat
  cost_remove :: nat
  cost_display_name :: nat

record Installation =
  inst_index :: u32
  inst_key :: rstr

record Name =
  name_index :: u32
  name_value :: rstr

record EntryRow =
  row_index :: u32
  row_kind :: rstr
  row_context :: "rstr option"
  row_value :: rstr
  row_live :: bool
  row_target :: "u32 option"
  row_bytes :: nat
  row_superseded_by :: "u32 option"

record AccountState =
  st_address :: rstr
  st_managed :: bool
  st_protected :: bool
  st_locked :: bool
  st_resolved :: bool
  st_read_at_ms :: "u64 option"
  st_problem :: "ReadProblem option"
  st_published :: bool
  st_log_bytes :: nat
  st_max_bytes :: nat
  st_display_name :: "rstr option"
  st_display_name_index :: "u32 option"
  st_previous_names :: "Name list"
  st_installations :: "Installation list"
  st_entries :: "EntryRow list"
  st_other_entries :: "EntryRow list"
  st_unreadable :: "rstr option"
  st_pending :: "EntryRow list"
  st_costs :: EntryCosts

record Published =
  first_new_index :: "u32 option"
  pub_dropped :: nat

section \<open>The crates and the state\<close>

text \<open>\<open>Written\<close>: a log one publish wrote, until the read after it collects it.\<close>

type_synonym Written = "(AccountAddr \<times> signed_log) option"

record ('l, 'd, 'r, 'n) app =
  vlt :: vault_crates
  obs :: observed_crates
  net_http :: "'n http"
  fmt :: "('l, 'd) log_format"
  acct :: "('l, 'r, Written \<times> 'n world, 'n world, StoreError) account_crate"
  made_up_key :: VerifyingKey          \<comment> \<open>the one \<open>ENTRY_COSTS\<close> measures\<close>

record ('r, 'n) core =
  disk :: fs
  outside :: "'n world"
  store :: Store
  resolver :: 'r
  written :: Written
  read_of :: "AccountAddr \<rightharpoonup> LastRead"
  staged :: "AccountAddr \<rightharpoonup> StagedEdit list"
  dropped :: "AccountAddr \<rightharpoonup> nat"
  unlocked :: "AccountAddr \<rightharpoonup> SigningKey"

type_synonym ('r, 'n, 'x) core_op = "(('r, 'n) core, CoreError, 'x) op"

definition core_new :: "('l, 'd, 'r, 'n) app \<Rightarrow> fs \<Rightarrow> 'n world \<Rightarrow> Store \<Rightarrow> ('r, 'n) core" where
  "core_new X d w s = \<lparr>disk = d, outside = w, store = s, resolver = resolver_new (acct X), written = None,
     read_of = Map.empty, staged = Map.empty, dropped = Map.empty, unlocked = Map.empty\<rparr>"

text \<open>An operation of the vault or the observed list, on the core's directory.\<close>

definition on_disk :: "('e \<Rightarrow> CoreError) \<Rightarrow> (fs, 'e, 'x) op \<Rightarrow> ('r, 'n, 'x) core_op" where
  "on_disk f m = (\<lambda>c. case m (disk c) of (r, s) \<Rightarrow> (map_err f r, c\<lparr>disk := s\<rparr>))"

lemma on_disk_Inr: "on_disk f m c = (Inr x, c') \<longleftrightarrow> (\<exists>s. m (disk c) = (Inr x, s) \<and> c' = c\<lparr>disk := s\<rparr>)"
  by (auto simp: on_disk_def split: prod.splits)

lemma on_disk_Inl:
  "on_disk f m c = (Inl e, c') \<longleftrightarrow> (\<exists>e0 s. m (disk c) = (Inl e0, s) \<and> e = f e0 \<and> c' = c\<lparr>disk := s\<rparr>)"
  by (auto simp: on_disk_def map_err_Inl split: prod.splits)

end
