(* ===== verification/Log_View.thy ===== *)
theory Log_View
  imports Core_Types
begin

text \<open>
  \<open>manager.rs\<close>, its free functions: what text is taken from the person (installation keys,
  display names, addresses), and how a log is read for the view: the live names and keys, the
  rows, and what each entry costs.
\<close>

section \<open>Text taken from the person\<close>

definition parse_installation_key :: "hex \<Rightarrow> keys \<Rightarrow> rstr \<Rightarrow> CoreError + VerifyingKey" where
  "parse_installation_key H K key_hex =
     (case hex_decode H (trim key_hex) of
        Inl e \<Rightarrow> Inl (Key (lit ''an installation key is 64 hex characters''))
      | Inr b \<Rightarrow>
          if length b \<noteq> 32 then Inl (Key (lit ''an installation key is 32 bytes, this is '' @ dec (length b)))
          else if vk_canonical K b then Inr b
          else Inl (Key (lit ''those 32 bytes are not a valid Ed25519 public key'')))"

definition moves_text :: "rchar \<Rightarrow> bool" where
  "moves_text c \<longleftrightarrow>
     is_control c \<or> c = 0x2028 \<or> c = 0x2029 \<or> (0x202A \<le> c \<and> c \<le> 0x202E) \<or> (0x2066 \<le> c \<and> c \<le> 0x2069)"

definition invisible :: "rchar \<Rightarrow> bool" where
  "invisible c \<longleftrightarrow>
     c = 0x00AD \<or> c = 0x034F \<or> c = 0x061C
     \<or> (0x115F \<le> c \<and> c \<le> 0x1160) \<or> (0x17B4 \<le> c \<and> c \<le> 0x17B5) \<or> (0x180B \<le> c \<and> c \<le> 0x180F)
     \<or> (0x200B \<le> c \<and> c \<le> 0x200F) \<or> (0x202A \<le> c \<and> c \<le> 0x202E) \<or> (0x2060 \<le> c \<and> c \<le> 0x206F)
     \<or> c = 0x3164 \<or> (0xFE00 \<le> c \<and> c \<le> 0xFE0F) \<or> c = 0xFEFF \<or> c = 0xFFA0
     \<or> (0xFFF0 \<le> c \<and> c \<le> 0xFFF8) \<or> (0x1BCA0 \<le> c \<and> c \<le> 0x1BCA3) \<or> (0x1D173 \<le> c \<and> c \<le> 0x1D17A)
     \<or> (0xE0000 \<le> c \<and> c \<le> 0xE0FFF) \<or> c = 0x2800 \<or> (0xFFF9 \<le> c \<and> c \<le> 0xFFFB)"

definition display_name :: "rstr \<Rightarrow> CoreError + rstr" where
  "display_name given =
     (let name = trim given in
      if list_ex moves_text name then Inl DisplayNameCharacters
      else if list_all (\<lambda>c. is_whitespace c \<or> invisible c) name then Inl EmptyDisplayName
      else if str_len name > MAX_DISPLAY_NAME_BYTES then Inl (DisplayNameTooLong (str_len name))
      else Inr name)"

definition since_epoch_ms :: "int \<Rightarrow> u64" where
  "since_epoch_ms t = (if t < 0 then 0 else word_of_int (t div 1000000))"

definition parse_address :: "keys \<Rightarrow> rstr \<Rightarrow> CoreError + AccountAddr" where
  "parse_address K t = (case addr_parse K (trim t) of None \<Rightarrow> Inl Address | Some a \<Rightarrow> Inr a)"

section \<open>Names and keys of a log\<close>

definition name_of_entry :: "indexed \<Rightarrow> Name option" where
  "name_of_entry i = (case e_entry i of
     Add ctx (Text v) \<Rightarrow> Some \<lparr>name_index = e_index i, name_value = v\<rparr> | _ \<Rightarrow> None)"

definition live_display_names :: "('l, 'd) log_format \<Rightarrow> 'l \<Rightarrow> Name list" where
  "live_display_names F l = List.map_filter name_of_entry (entries_for F l DISPLAY_NAME_CONTEXT)"

definition live_display_name :: "('l, 'd) log_format \<Rightarrow> 'l \<Rightarrow> rstr option" where
  "live_display_name F l =
     (let names = live_display_names F l in if names = [] then None else Some (name_value (last names)))"

definition key_of_entry :: "indexed \<Rightarrow> bytes option" where
  "key_of_entry i = (case e_entry i of Add ctx (Ed25519Key k) \<Rightarrow> Some k | _ \<Rightarrow> None)"

definition live_keys :: "('l, 'd) log_format \<Rightarrow> 'd \<Rightarrow> bytes list" where
  "live_keys F d = List.map_filter key_of_entry (live_entries F d)"

definition live_installations :: "hex \<Rightarrow> ('l, 'd) log_format \<Rightarrow> 'l \<Rightarrow> Installation list" where
  "live_installations H F l =
     List.map_filter (\<lambda>i. map_option (\<lambda>k. \<lparr>inst_index = e_index i, inst_key = hex_encode H k\<rparr>) (key_of_entry i))
       (rev (entries_for F l (SIGNER_CONTEXT F)))"

section \<open>What an entry costs\<close>

text \<open>\<open>usize\<close> subtraction, which wraps in a release build.\<close>

definition usize_sub :: "nat \<Rightarrow> nat \<Rightarrow> nat" where
  "usize_sub a b = (if b \<le> a then a - b else a + 2 ^ 64 - b)"

definition DOMAIN_BYTES :: "('l, 'd) log_format \<Rightarrow> nat" where
  "DOMAIN_BYTES F = length (ACCOUNT_LOG_DOMAIN F)"

fun push_all :: "('l, 'd) log_format \<Rightarrow> 'd \<Rightarrow> AccountEntry list \<Rightarrow> AccountLogError + 'd" where
  "push_all F d [] = Inr d"
| "push_all F d (e # es) = bind_res (push F d e) (\<lambda>d'. push_all F d' es)"

definition encoded_size :: "('l, 'd) log_format \<Rightarrow> AccountEntry list \<Rightarrow> nat" where
  "encoded_size F es =
     (case push_all F (draft_new F) es of
        Inl e \<Rightarrow> DOMAIN_BYTES F
      | Inr d \<Rightarrow> (case encode F (draft_log F d) of Inl e \<Rightarrow> DOMAIN_BYTES F | Inr b \<Rightarrow> length b))"

definition own_size :: "('l, 'd) log_format \<Rightarrow> AccountEntry \<Rightarrow> nat" where
  "own_size F e = usize_sub (encoded_size F [e]) (DOMAIN_BYTES F)"

definition ENTRY_COSTS :: "('l, 'd) log_format \<Rightarrow> VerifyingKey \<Rightarrow> EntryCosts" where
  "ENTRY_COSTS F vk =
     (let empty_name = Add DISPLAY_NAME_CONTEXT (Text []);
          installation = Add (SIGNER_CONTEXT F) (Ed25519Key vk) in
      \<lparr>cost_installation = own_size F installation,
       cost_remove = usize_sub (encoded_size F [empty_name, Remove 0]) (encoded_size F [empty_name]),
       cost_display_name = own_size F empty_name\<rparr>)"

definition entry_size :: "('l, 'd) log_format \<Rightarrow> VerifyingKey \<Rightarrow> AccountEntry \<Rightarrow> nat" where
  "entry_size F vk e = (case e of Remove i \<Rightarrow> cost_remove (ENTRY_COSTS F vk) | _ \<Rightarrow> own_size F e)"

section \<open>Rows\<close>

definition hex_digit :: "nat \<Rightarrow> rchar" where
  "hex_digit n = (if n < 10 then 48 + n else 87 + n)"

definition describe :: "hex \<Rightarrow> ('l, 'd) log_format \<Rightarrow> AccountEntry \<Rightarrow> rstr \<times> rstr" where
  "describe H F e =
     (case e of
        Unknown opcode \<Rightarrow>
          (lit ''other'', lit ''opcode 0x'' @ [hex_digit (unat opcode div 16), hex_digit (unat opcode mod 16)])
      | Remove i \<Rightarrow> (lit ''revocation'', lit ''entry '' @ dec (unat i))
      | Add ctx ed \<Rightarrow>
          (case ed of
             Ed25519Key k \<Rightarrow>
               if ctx = SIGNER_CONTEXT F then (lit ''installation'', hex_encode H k) else (lit ''key'', hex_encode H k)
           | Text v \<Rightarrow> if ctx = DISPLAY_NAME_CONTEXT then (lit ''displayName'', v) else (lit ''text'', v)
           | OtherData \<Rightarrow> (lit ''other'', [])))"

definition context_of :: "AccountEntry \<Rightarrow> Context option" where
  "context_of e = (case e of Add ctx ed \<Rightarrow> Some ctx | _ \<Rightarrow> None)"

definition row_from :: "('l, 'd, 'r, 'n) app \<Rightarrow> u32 \<Rightarrow> AccountEntry \<Rightarrow> bool \<Rightarrow> EntryRow" where
  "row_from X i e live =
     (case describe (vhex (vlt X)) (fmt X) e of (kind, v) \<Rightarrow>
        \<lparr>row_index = i, row_kind = kind, row_context = context_of e, row_value = v, row_live = live,
         row_target = (case e of Remove j \<Rightarrow> Some j | _ \<Rightarrow> None),
         row_bytes = entry_size (fmt X) (made_up_key X) e, row_superseded_by = None\<rparr>)"

definition rows_from_draft :: "('l, 'd, 'r, 'n) app \<Rightarrow> 'd \<Rightarrow> EntryRow list" where
  "rows_from_draft X d =
     (let live = map e_index (live_entries (fmt X) d) in
      map (\<lambda>i. row_from X (e_index i) (e_entry i) (e_index i \<in> set live)) (entries (fmt X) d))"

definition rows_by_context :: "('l, 'd, 'r, 'n) app \<Rightarrow> 'l \<Rightarrow> EntryRow list" where
  "rows_by_context X l =
     sort_key row_index
       (map (\<lambda>i. row_from X (e_index i) (e_entry i) True)
          (concat (map (entries_for (fmt X) l) [SIGNER_CONTEXT (fmt X), DISPLAY_NAME_CONTEXT])))"

definition namespace :: "rstr \<Rightarrow> rstr" where
  "namespace ctx = before_first 46 ctx"

definition edited_here :: "('l, 'd) log_format \<Rightarrow> rstr \<Rightarrow> bool" where
  "edited_here F ctx \<longleftrightarrow>
     list_ex (\<lambda>edited. namespace edited = namespace ctx) [DISPLAY_NAME_CONTEXT, SIGNER_CONTEXT F]"

text \<open>The planned entries as rows, numbered from \<open>base\<close> in 32-bit arithmetic.\<close>

definition is_revocation :: "AccountEntry \<Rightarrow> bool" where
  "is_revocation e \<longleftrightarrow> (case e of Remove i \<Rightarrow> True | _ \<Rightarrow> False)"

definition pending_rows :: "('l, 'd, 'r, 'n) app \<Rightarrow> AccountEntry list \<Rightarrow> u32 \<Rightarrow> EntryRow list" where
  "pending_rows X planned base =
     map (\<lambda>(offset, e). row_from X (base + of_nat offset) e (\<not> is_revocation e))
       (enumerate 0 planned)"

section \<open>The plan of an update\<close>

definition revocation_of :: "StagedEdit \<Rightarrow> AccountEntry option" where
  "revocation_of s = (case s of Revoke i \<Rightarrow> Some (Remove i) | _ \<Rightarrow> None)"

definition addition_of :: "('l, 'd) log_format \<Rightarrow> StagedEdit \<Rightarrow> AccountEntry option" where
  "addition_of F s = (case s of
     AddInstallation k \<Rightarrow> Some (Add (SIGNER_CONTEXT F) (Ed25519Key k))
   | SetDisplayName n \<Rightarrow> Some (Add DISPLAY_NAME_CONTEXT (Text n))
   | Revoke i \<Rightarrow> None)"

definition plan :: "('l, 'd) log_format \<Rightarrow> StagedEdit list \<Rightarrow> AccountEntry list" where
  "plan F edits = List.map_filter revocation_of edits @ List.map_filter (addition_of F) edits"

end
