(* ===== verification/Manager.thy ===== *)
theory Manager
  imports Log_View
begin

text \<open>
  \<open>manager.rs\<close>, \<open>AccountCore\<close>: every method, as an operation on the state of
  \<open>Core_Types\<close>. A method that takes \<open>&self\<close> is a function of the state; one that takes
  \<open>&mut self\<close> answers a result and the new state, which on an error is the state at the
  point the error arose.
\<close>

section \<open>Reads of the state\<close>

definition read_at :: "AccountAddr \<Rightarrow> ('r, 'n) core \<Rightarrow> int option" where
  "read_at a c = Option.bind (read_of c a) lr_at"

definition answered :: "AccountAddr \<Rightarrow> ('r, 'n) core \<Rightarrow> bool" where
  "answered a c \<longleftrightarrow> read_at a c \<noteq> None"

definition problem :: "AccountAddr \<Rightarrow> ('r, 'n) core \<Rightarrow> ReadProblem option" where
  "problem a c = Option.bind (read_of c a) lr_problem"

definition manages :: "('l, 'd, 'r, 'n) app \<Rightarrow> AccountAddr \<Rightarrow> ('r, 'n) core \<Rightarrow> CoreError + bool" where
  "manages X a c =
     bind_res (map_err Vault (vault_accounts (vlt X) (disk c))) (\<lambda>held.
       Inr (list_ex (\<lambda>h. addr h = a) held))"

definition observes :: "('l, 'd, 'r, 'n) app \<Rightarrow> AccountAddr \<Rightarrow> ('r, 'n) core \<Rightarrow> CoreError + bool" where
  "observes X a c =
     bind_res (map_err Observed (observed_list (obs X) (disk c))) (\<lambda>held.
       Inr (list_ex (\<lambda>h. h = a) held))"

definition signing_key :: "('l, 'd, 'r, 'n) app \<Rightarrow> AccountAddr \<Rightarrow> ('r, 'n) core \<Rightarrow> CoreError + SigningKey" where
  "signing_key X a c =
     (case unlocked c a of
        Some key \<Rightarrow> Inr key
      | None \<Rightarrow> map_err (\<lambda>e. if e = PasswordRequired then Locked else Vault e) (vault_open (vlt X) a None (disk c)))"

definition require_managed :: "('l, 'd, 'r, 'n) app \<Rightarrow> AccountAddr \<Rightarrow> ('r, 'n) core \<Rightarrow> CoreError + unit" where
  "require_managed X a c =
     bind_res (manages X a c) (\<lambda>managed.
       if managed then Inr ()
       else bind_res (observes X a c) (\<lambda>observed.
         if observed then Inl NotManaged else Inl UnknownAccount))"

definition require_known :: "('l, 'd, 'r, 'n) app \<Rightarrow> AccountAddr \<Rightarrow> ('r, 'n) core \<Rightarrow> CoreError + unit" where
  "require_known X a c =
     bind_res (manages X a c) (\<lambda>managed.
       if managed then Inr ()
       else bind_res (observes X a c) (\<lambda>observed.
         if observed then Inr () else Inl UnknownAccount))"

definition record_of :: "('l, 'd, 'r, 'n) app \<Rightarrow> AccountAddr \<Rightarrow> ('r, 'n) core \<Rightarrow> 'l account_record option" where
  "record_of X a c =
     (case resolver_get (acct X) (resolver c) a of
        None \<Rightarrow> None
      | Some rec \<Rightarrow> if answered a c then Some rec else None)"

definition extendable :: "('l, 'd, 'r, 'n) app \<Rightarrow> AccountAddr \<Rightarrow> ('r, 'n) core \<Rightarrow> CoreError + 'd option" where
  "extendable X a c =
     (case record_of X a c of
        None \<Rightarrow> Inr None
      | Some rec \<Rightarrow>
          (case from_log (fmt X) (rec_log rec) of Inl e \<Rightarrow> Inl Unreadable | Inr d \<Rightarrow> Inr (Some d)))"

definition fits :: "('l, 'd, 'r, 'n) app \<Rightarrow> AccountAddr \<Rightarrow> StagedEdit list \<Rightarrow> ('r, 'n) core \<Rightarrow> CoreError + unit" where
  "fits X a edits c =
     bind_res (extendable X a c) (\<lambda>base.
     bind_res (map_err LogRefused
         (push_all (fmt X) (case base of None \<Rightarrow> draft_new (fmt X) | Some d \<Rightarrow> d) (plan (fmt X) edits))) (\<lambda>draft.
     bind_res (map_err (\<lambda>e. case e of TooLarge n \<Rightarrow> OverBudget | _ \<Rightarrow> LogRefused e)
         (encode (fmt X) (draft_log (fmt X) draft))) (\<lambda>_. Inr ())))"

definition live_name :: "('l, 'd, 'r, 'n) app \<Rightarrow> AccountAddr \<Rightarrow> ('r, 'n) core \<Rightarrow> rstr option" where
  "live_name X a c = Option.bind (record_of X a c) (\<lambda>rec. live_display_name (fmt X) (rec_log rec))"

definition staged_for :: "AccountAddr \<Rightarrow> ('r, 'n) core \<Rightarrow> StagedEdit list" where
  "staged_for a c = (case staged c a of None \<Rightarrow> [] | Some edits \<Rightarrow> edits)"

definition planned_entries :: "('l, 'd, 'r, 'n) app \<Rightarrow> AccountAddr \<Rightarrow> ('r, 'n) core \<Rightarrow> AccountEntry list" where
  "planned_entries X a c = plan (fmt X) (staged_for a c)"

definition accounts :: "('l, 'd, 'r, 'n) app \<Rightarrow> ('r, 'n) core \<Rightarrow> CoreError + AccountSummary list" where
  "accounts X c =
     bind_res (map_err Vault (vault_accounts (vlt X) (disk c))) (\<lambda>held.
     bind_res (map_err Observed (observed_list (obs X) (disk c))) (\<lambda>observed.
       Inr (map (\<lambda>h.
              \<lparr>sum_address = to_string (addr h), sum_managed = True, sum_protected = protected h,
               sum_locked = (protected h \<and> unlocked c (addr h) = None),
               sum_resolved = answered (addr h) c, sum_display_name = live_name X (addr h) c,
               sum_pending = length (planned_entries X (addr h) c), sum_problem = problem (addr h) c\<rparr>) held
            @ map (\<lambda>a.
              \<lparr>sum_address = to_string a, sum_managed = False, sum_protected = False, sum_locked = False,
               sum_resolved = answered a c, sum_display_name = live_name X a c,
               sum_pending = 0, sum_problem = problem a c\<rparr>)
              (filter (\<lambda>a. \<not> list_ex (\<lambda>h. addr h = a) held) observed))))"

definition mark_superseded :: "Name list \<Rightarrow> Name option \<Rightarrow> EntryRow list \<Rightarrow> EntryRow list" where
  "mark_superseded previous name rows =
     (case name of
        None \<Rightarrow> rows
      | Some n \<Rightarrow> map (\<lambda>row. if list_ex (\<lambda>alias. name_index alias = row_index row) previous
                            then row\<lparr>row_superseded_by := Some (name_index n)\<rparr> else row) rows)"

definition state_of :: "('l, 'd, 'r, 'n) app \<Rightarrow> AccountAddr \<Rightarrow> ('r, 'n) core \<Rightarrow> StoredAccount option \<Rightarrow> AccountState" where
  "state_of X a c held =
     (let F = fmt X;
          rec = record_of X a c;
          log = map_option rec_log rec;
          (rows, unreadable) = (case log of
             None \<Rightarrow> ([], None)
           | Some l \<Rightarrow> (case from_log F l of
                Inr draft \<Rightarrow> (rows_from_draft X draft, None)
              | Inl e \<Rightarrow> (rows_by_context X l, Some (log_error_text F e))));
          names = (case log of None \<Rightarrow> [] | Some l \<Rightarrow> live_display_names F l);
          name = (if names = [] then None else Some (last names));
          previous = rev (butlast names);
          rows = mark_superseded previous name rows;
          prot = (case held of None \<Rightarrow> False | Some h \<Rightarrow> protected h)
      in \<lparr>st_address = to_string a, st_managed = (held \<noteq> None), st_protected = prot,
          st_locked = (prot \<and> unlocked c a = None), st_resolved = answered a c,
          st_read_at_ms = map_option since_epoch_ms (read_at a c), st_problem = problem a c,
          st_published = (rec \<noteq> None),
          st_log_bytes = (case rec of None \<Rightarrow> DOMAIN_BYTES F | Some r \<Rightarrow> length (payload (rec_signed r))),
          st_max_bytes = MAX_PAYLOAD_BYTES F,
          st_display_name = map_option name_value name,
          st_display_name_index = map_option name_index name,
          st_previous_names = previous,
          st_installations = (case log of None \<Rightarrow> [] | Some l \<Rightarrow> live_installations (vhex (vlt X)) F l),
          st_entries = rows,
          st_other_entries = filter (\<lambda>row. row_live row \<and>
             (case row_context row of None \<Rightarrow> False | Some ctx \<Rightarrow> \<not> edited_here F ctx)) rows,
          st_unreadable = unreadable,
          st_pending = pending_rows X (planned_entries X a c) (of_nat (length rows)),
          st_costs = ENTRY_COSTS F (made_up_key X)\<rparr>)"

definition state :: "('l, 'd, 'r, 'n) app \<Rightarrow> AccountAddr \<Rightarrow> ('r, 'n) core \<Rightarrow> CoreError + AccountState" where
  "state X a c =
     bind_res (map_err Vault (vault_accounts (vlt X) (disk c))) (\<lambda>accts.
       let held = find (\<lambda>h. addr h = a) accts in
       if held = None
       then bind_res (observes X a c) (\<lambda>observed.
              if observed then Inr (state_of X a c held) else Inl UnknownAccount)
       else Inr (state_of X a c held))"

section \<open>Accounts\<close>

definition observe :: "('l, 'd, 'r, 'n) app \<Rightarrow> AccountAddr \<Rightarrow> ('r, 'n, bool) core_op" where
  "observe X a =
     and_then (of_read (manages X a)) (\<lambda>managed.
       if managed then fail AlreadyManaged else on_disk Observed (observed_add (obs X) a))"

definition stop_observing :: "('l, 'd, 'r, 'n) app \<Rightarrow> AccountAddr \<Rightarrow> ('r, 'n, unit) core_op" where
  "stop_observing X a =
     and_then (on_disk Observed (observed_remove (obs X) a)) (\<lambda>removed.
       if \<not> removed then fail UnknownAccount
       else (\<lambda>c. (Inr (), c\<lparr>read_of := (read_of c)(a := None), dropped := (dropped c)(a := None)\<rparr>)))"

text \<open>The key is kept for the session when it was sealed.\<close>

definition keep_unlocked :: "SigningKey \<Rightarrow> rstr option \<Rightarrow> AccountAddr \<Rightarrow> ('r, 'n) core \<Rightarrow> ('r, 'n) core" where
  "keep_unlocked key password a c =
     (if password \<noteq> None then c\<lparr>unlocked := (unlocked c)(a \<mapsto> key)\<rparr> else c)"

text \<open>A draw from the entropy source, and the state it leaves for the next one.\<close>

definition draw_key :: "('l, 'd, 'r, 'n) app \<Rightarrow> ('r, 'n) core \<Rightarrow> SigningKey \<times> ('r, 'n) core" where
  "draw_key X c =
     (case generate (vkeys (vlt X)) (entropy (outside c)) of
        (key, n) \<Rightarrow> (key, c\<lparr>outside := (outside c)\<lparr>entropy := n\<rparr>\<rparr>))"

text \<open>\<open>Vault::create\<close>, which draws what sealing needs from the same source.\<close>

definition take_into_vault :: "('l, 'd, 'r, 'n) app \<Rightarrow> SigningKey \<Rightarrow> rstr option \<Rightarrow> ('r, 'n, AccountAddr) core_op" where
  "take_into_vault X key password = (\<lambda>c.
     let n = entropy (outside c) in
     on_disk Vault (vault_create (vlt X) key password n) (c\<lparr>outside := (outside c)\<lparr>entropy := Suc n\<rparr>\<rparr>))"

definition create_account :: "('l, 'd, 'r, 'n) app \<Rightarrow> rstr option \<Rightarrow> ('r, 'n, AccountAddr) core_op" where
  "create_account X password = (\<lambda>c.
     case draw_key X c of (key, c1) \<Rightarrow>
       and_then (take_into_vault X key password) (\<lambda>a c2. (Inr a, keep_unlocked key password a c2)) c1)"

definition parse_secret :: "hex \<Rightarrow> rstr \<Rightarrow> CoreError + SigningKey" where
  "parse_secret H given =
     (let secret_hex = trim given in
      map_err (\<lambda>e. Key (if e = InvalidHexCharacter then lit ''an account key holds only 0-9 and a-f''
          else lit ''an account key is 64 hex characters, this is '' @ dec (str_len secret_hex)))
        (hex_decode_to_slice H secret_hex 32))"

definition import_account :: "('l, 'd, 'r, 'n) app \<Rightarrow> rstr \<Rightarrow> rstr option \<Rightarrow> ('r, 'n, AccountAddr) core_op" where
  "import_account X secret password =
     and_then (of_read (\<lambda>c. parse_secret (vhex (vlt X)) secret)) (\<lambda>key.
     and_then (take_into_vault X key password) (\<lambda>a.
     and_then (\<lambda>c. (Inr (), keep_unlocked key password a c)) (\<lambda>_.
     and_then (on_disk Observed (observed_remove (obs X) a)) (\<lambda>_. ok a))))"

definition export_account :: "('l, 'd, 'r, 'n) app \<Rightarrow> AccountAddr \<Rightarrow> rstr option \<Rightarrow> ('r, 'n) core \<Rightarrow> CoreError + rstr" where
  "export_account X a password c =
     bind_res (require_managed X a c) (\<lambda>_.
     bind_res (map_err Vault (vault_open (vlt X) a password (disk c))) (\<lambda>key.
       Inr (hex_encode (vhex (vlt X)) key)))"

definition unlock :: "('l, 'd, 'r, 'n) app \<Rightarrow> AccountAddr \<Rightarrow> rstr \<Rightarrow> ('r, 'n, unit) core_op" where
  "unlock X a password =
     and_then (of_read (require_managed X a)) (\<lambda>_.
     and_then (of_read (\<lambda>c. map_err Vault (vault_open (vlt X) a (Some password) (disk c)))) (\<lambda>key c.
       (Inr (), c\<lparr>unlocked := (unlocked c)(a \<mapsto> key)\<rparr>)))"

definition forget_account :: "('l, 'd, 'r, 'n) app \<Rightarrow> AccountAddr \<Rightarrow> ('r, 'n, unit) core_op" where
  "forget_account X a =
     and_then (of_read (require_managed X a)) (\<lambda>_.
     and_then (on_disk Vault (vault_forget (vlt X) a)) (\<lambda>_ c.
       (Inr (), c\<lparr>unlocked := (unlocked c)(a := None), staged := (staged c)(a := None),
                 read_of := (read_of c)(a := None), dropped := (dropped c)(a := None)\<rparr>)))"

section \<open>Reading the store\<close>

text \<open>\<open>Written::hold\<close>, \<open>Written::take\<close> and \<open>ReadBack::fetch\<close>.\<close>

definition written_hold :: "AccountAddr \<Rightarrow> signed_log \<Rightarrow> Written \<Rightarrow> Written" where
  "written_hold a log slot = Some (a, log)"

declare written_hold_def [simp]

definition written_take :: "AccountAddr \<Rightarrow> Written \<Rightarrow> signed_log option \<times> Written" where
  "written_take a slot =
     (case slot of
        None \<Rightarrow> (None, None)
      | Some (held, log) \<Rightarrow> if held = a then (Some log, None) else (None, slot))"

definition read_back_fetch :: "'n http \<Rightarrow> Store \<Rightarrow> (Written \<times> 'n world, StoreError) fetcher" where
  "read_back_fetch H s = (\<lambda>(slot, w) a.
     case written_take a slot of
       (Some log, slot') \<Rightarrow> (Inr (Some log), (slot', w))
     | (None, slot') \<Rightarrow> (case store_fetch H s w a of (r, w') \<Rightarrow> (r, (slot', w'))))"

definition resolve_core :: "('l, 'd, 'r, 'n) app \<Rightarrow> AccountAddr \<Rightarrow> (('r, 'n) core, StoreError AccountError, unit) op" where
  "resolve_core X a = (\<lambda>c.
     case resolve (acct X) (read_back_fetch (net_http X) (store c)) (resolver c) a (written c, outside c) of
       (outcome, r, (slot, w)) \<Rightarrow> (outcome, c\<lparr>resolver := r, written := slot, outside := w\<rparr>))"

text \<open>Which of the staged edits the log does not hold yet.\<close>

definition still_needed :: "indexed list \<Rightarrow> bytes list \<Rightarrow> rstr option \<Rightarrow> StagedEdit \<Rightarrow> bool" where
  "still_needed live keys name edit =
     (case edit of
        Revoke i \<Rightarrow> list_ex (\<lambda>e. e_index e = i) live
      | AddInstallation k \<Rightarrow> k \<notin> set keys
      | SetDisplayName n \<Rightarrow> name \<noteq> Some n)"

definition settle :: "('l, 'd, 'r, 'n) app \<Rightarrow> AccountAddr \<Rightarrow> ('r, 'n) core \<Rightarrow> ('r, 'n) core" where
  "settle X a c =
     (case record_of X a c of
        None \<Rightarrow> c
      | Some rec \<Rightarrow>
          (case from_log (fmt X) (rec_log rec) of
             Inl e \<Rightarrow> c
           | Inr draft \<Rightarrow>
               (case staged c a of
                  None \<Rightarrow> c
                | Some edits \<Rightarrow>
                    let kept = filter (still_needed (live_entries (fmt X) draft) (live_keys (fmt X) draft)
                                  (live_display_name (fmt X) (rec_log rec))) edits;
                        n = length edits - length kept;
                        c1 = c\<lparr>staged := (staged c)(a := if kept = [] then None else Some kept)\<rparr> in
                    if n > 0
                    then c1\<lparr>dropped := (dropped c)(a \<mapsto> (case dropped c a of None \<Rightarrow> 0 | Some k \<Rightarrow> k) + n)\<rparr>
                    else c1)))"

definition read_store :: "('l, 'd, 'r, 'n) app \<Rightarrow> AccountAddr \<Rightarrow> ('r, 'n, unit) core_op" where
  "read_store X a = (\<lambda>c.
     case resolve_core X a c of (outcome, c1) \<Rightarrow>
       let earlier = (case read_of c1 a of None \<Rightarrow> LastRead_default | Some l \<Rightarrow> l) in
       (case outcome of
          Inr u \<Rightarrow>
            (Inr (), settle X a (c1\<lparr>read_of := (read_of c1)
               (a \<mapsto> \<lparr>lr_at = Some (now (outside c1)), lr_problem = None\<rparr>)\<rparr>))
        | Inl e \<Rightarrow>
            (Inl (Account e), c1\<lparr>read_of := (read_of c1)(a \<mapsto> earlier\<lparr>lr_problem := Some (ReadProblem_of e)\<rparr>)\<rparr>)))"

definition take_dropped :: "AccountAddr \<Rightarrow> ('r, 'n) core \<Rightarrow> nat \<times> ('r, 'n) core" where
  "take_dropped a c =
     ((case dropped c a of None \<Rightarrow> 0 | Some n \<Rightarrow> n), c\<lparr>dropped := (dropped c)(a := None)\<rparr>)"

definition refresh :: "('l, 'd, 'r, 'n) app \<Rightarrow> AccountAddr \<Rightarrow> ('r, 'n, nat) core_op" where
  "refresh X a =
     and_then (of_read (require_known X a)) (\<lambda>_.
     and_then (read_store X a) (\<lambda>_ c.
       (case take_dropped a c of (n, c') \<Rightarrow> (Inr n, c'))))"

section \<open>Staging\<close>

definition restage :: "('l, 'd, 'r, 'n) app \<Rightarrow> AccountAddr \<Rightarrow> StagedEdit list \<Rightarrow> ('r, 'n, unit) core_op" where
  "restage X a edits =
     and_then (of_read (fits X a edits)) (\<lambda>_ c.
       (Inr (), c\<lparr>staged := (staged c)(a := if edits = [] then None else Some edits)\<rparr>))"

definition stage_add_installation :: "('l, 'd, 'r, 'n) app \<Rightarrow> AccountAddr \<Rightarrow> rstr \<Rightarrow> ('r, 'n, unit) core_op" where
  "stage_add_installation X a key_hex =
     and_then (of_read (require_managed X a)) (\<lambda>_.
     and_then (of_read (\<lambda>c. parse_installation_key (vhex (vlt X)) (vkeys (vlt X)) key_hex)) (\<lambda>key.
     and_then (of_read (extendable X a)) (\<lambda>base.
       if (case base of None \<Rightarrow> False | Some draft \<Rightarrow> key \<in> set (live_keys (fmt X) draft))
       then fail InstallationLive
       else (\<lambda>c. let edits = staged_for a c in
         if AddInstallation key \<in> set edits then (Inl AlreadyStaged, c)
         else restage X a (edits @ [AddInstallation key]) c))))"

definition is_name_edit :: "StagedEdit \<Rightarrow> bool" where
  "is_name_edit s \<longleftrightarrow> (case s of SetDisplayName n \<Rightarrow> True | _ \<Rightarrow> False)"

definition stage_set_display_name :: "('l, 'd, 'r, 'n) app \<Rightarrow> AccountAddr \<Rightarrow> rstr \<Rightarrow> ('r, 'n, unit) core_op" where
  "stage_set_display_name X a given =
     and_then (of_read (require_managed X a)) (\<lambda>_.
     and_then (of_read (\<lambda>c. display_name given)) (\<lambda>name.
     and_then (of_read (extendable X a)) (\<lambda>_ c.
       let edits = staged_for a c;
           others = filter (\<lambda>s. \<not> is_name_edit s) edits in
       if live_name X a c \<noteq> Some name then restage X a (others @ [SetDisplayName name]) c
       else if length others = length edits then (Inl NameUnchanged, c)
       else restage X a others c)))"

definition stage_revoke :: "('l, 'd, 'r, 'n) app \<Rightarrow> AccountAddr \<Rightarrow> u32 \<Rightarrow> ('r, 'n, unit) core_op" where
  "stage_revoke X a i =
     and_then (of_read (require_managed X a)) (\<lambda>_.
     and_then (of_read (extendable X a)) (\<lambda>base.
       if \<not> (case base of None \<Rightarrow> False | Some draft \<Rightarrow> list_ex (\<lambda>e. e_index e = i) (live_entries (fmt X) draft))
       then fail (NotRevocable i)
       else (\<lambda>c. let edits = staged_for a c in
         if Revoke i \<in> set edits then (Inl AlreadyStaged, c)
         else restage X a (edits @ [Revoke i]) c)))"

definition discard_pending :: "('l, 'd, 'r, 'n) app \<Rightarrow> AccountAddr \<Rightarrow> ('r, 'n, unit) core_op" where
  "discard_pending X a =
     and_then (of_read (require_managed X a)) (\<lambda>_ c. (Inr (), c\<lparr>staged := (staged c)(a := None)\<rparr>))"

section \<open>Publishing\<close>

text \<open>\<open>Extending\<close>, the provider an update is written through.\<close>

definition extending_fetch :: "signed_log option \<Rightarrow> ('n world, StoreError) fetcher" where
  "extending_fetch base = (\<lambda>w a. (Inr base, w))"

definition extending_publish :: "'n http \<Rightarrow> Store \<Rightarrow> ('n world, StoreError) publisher" where
  "extending_publish H s = (\<lambda>w a log. store_publish H s w a log)"

definition write_update ::
  "('l, 'd, 'r, 'n) app \<Rightarrow> AccountAddr \<Rightarrow> SigningKey \<Rightarrow> AccountEntry list \<Rightarrow> ('r, 'n, signed_log) core_op" where
  "write_update X a key es = (\<lambda>c.
     case update_publish (acct X) (extending_fetch (map_option rec_signed (record_of X a c)))
            (extending_publish (net_http X) (store c)) key es (outside c) of
       (r, w) \<Rightarrow> (map_err Account r, c\<lparr>outside := w\<rparr>))"

definition publish_staged ::
  "('l, 'd, 'r, 'n) app \<Rightarrow> AccountAddr \<Rightarrow> SigningKey \<Rightarrow> StagedEdit list \<Rightarrow> ('r, 'n, Published) core_op" where
  "publish_staged X a key edits =
     and_then (of_read (fits X a edits)) (\<lambda>_.
     and_then (of_read (extendable X a)) (\<lambda>base.
       let first_new = (case base of None \<Rightarrow> 0 | Some draft \<Rightarrow> of_nat (length (entries (fmt X) draft))) in
     and_then (\<lambda>c. write_update X a key (planned_entries X a c) c) (\<lambda>log.
     and_then (\<lambda>c. (Inr (), c\<lparr>staged := (staged c)(a := None), written := written_hold a log (written c)\<rparr>)) (\<lambda>_.
     and_then (map_err_op Account (resolve_core X a)) (\<lambda>_ c.
       (case take_dropped a c of (n, c') \<Rightarrow>
          (Inr \<lparr>first_new_index = Some first_new, pub_dropped = n\<rparr>, c')))))))"

definition publish :: "('l, 'd, 'r, 'n) app \<Rightarrow> AccountAddr \<Rightarrow> ('r, 'n, Published) core_op" where
  "publish X a =
     and_then (of_read (require_managed X a)) (\<lambda>_.
     and_then (\<lambda>c. if staged_for a c = [] then (Inl NothingStaged, c) else (Inr (), c)) (\<lambda>_.
     and_then (of_read (signing_key X a)) (\<lambda>key.
     and_then (read_store X a) (\<lambda>_ c.
       (case staged c a of
          None \<Rightarrow>
            (case take_dropped a c of (n, c') \<Rightarrow> (Inr \<lparr>first_new_index = None, pub_dropped = n\<rparr>, c'))
        | Some edits \<Rightarrow> publish_staged X a key edits c)))))"

end
