(* ===== verification/Manager_Facts.thy ===== *)
theory Manager_Facts
  imports Manager
begin

text \<open>
  What each operation of the account core can change of the session's state, and the
  invariant every reachable core satisfies.
\<close>

named_theorems core_ops \<open>inversion of the combinators the operations are built from\<close>

lemma of_read_Inr [core_ops]: "of_read f s = (Inr x, s') \<longleftrightarrow> f s = Inr x \<and> s' = s"
  by (auto simp: of_read_def)

lemma of_read_Inl [core_ops]: "of_read f s = (Inl e, s') \<longleftrightarrow> f s = Inl e \<and> s' = s"
  by (auto simp: of_read_def)

lemma fail_eq [core_ops]: "fail e s = (r, s') \<longleftrightarrow> r = Inl e \<and> s' = s"
  by (auto simp: fail_def)

lemma ok_eq [core_ops]: "ok x s = (r, s') \<longleftrightarrow> r = Inr x \<and> s' = s"
  by (auto simp: ok_def)

lemmas [core_ops] = and_then_Inr and_then_Inl on_disk_Inr on_disk_Inl map_err_op_Inl

section \<open>Staging\<close>

datatype stage_command = StageInstallation rstr | StageName rstr | StageRevoke u32

fun stage :: "('l, 'd, 'r, 'n) app \<Rightarrow> AccountAddr \<Rightarrow> stage_command \<Rightarrow> ('r, 'n, unit) core_op" where
  "stage X a (StageInstallation t) = stage_add_installation X a t"
| "stage X a (StageName t) = stage_set_display_name X a t"
| "stage X a (StageRevoke i) = stage_revoke X a i"

text \<open>What a staging that returned made of the edits waiting before.\<close>

fun staged_anew :: "stage_command \<Rightarrow> StagedEdit list \<Rightarrow> StagedEdit list \<Rightarrow> bool" where
  "staged_anew (StageInstallation t) old new \<longleftrightarrow>
     (\<exists>k. AddInstallation k \<notin> set old \<and> new = old @ [AddInstallation k])"
| "staged_anew (StageName t) old new \<longleftrightarrow>
     new = filter (\<lambda>s. \<not> is_name_edit s) old
     \<or> (\<exists>n. display_name t = Inr n \<and> new = filter (\<lambda>s. \<not> is_name_edit s) old @ [SetDisplayName n])"
| "staged_anew (StageRevoke i) old new \<longleftrightarrow> Revoke i \<notin> set old \<and> new = old @ [Revoke i]"

definition with_staged :: "AccountAddr \<Rightarrow> StagedEdit list \<Rightarrow> ('r, 'n) core \<Rightarrow> ('r, 'n) core" where
  "with_staged a edits c = c\<lparr>staged := (staged c)(a := if edits = [] then None else Some edits)\<rparr>"

lemma with_staged_sel [simp]:
  "disk (with_staged a es c) = disk c" "outside (with_staged a es c) = outside c"
  "store (with_staged a es c) = store c" "resolver (with_staged a es c) = resolver c"
  "written (with_staged a es c) = written c" "read_of (with_staged a es c) = read_of c"
  "dropped (with_staged a es c) = dropped c" "unlocked (with_staged a es c) = unlocked c"
  "staged (with_staged a es c) = (staged c)(a := if es = [] then None else Some es)"
  by (simp_all add: with_staged_def)

lemma staged_for_with [simp]: "staged_for b (with_staged a es c) = (if b = a then es else staged_for b c)"
  by (simp add: staged_for_def)

lemma restage_Inr [core_ops]: "restage X a es c = (Inr u, c') \<longleftrightarrow> fits X a es c = Inr () \<and> c' = with_staged a es c"
  by (auto simp: restage_def with_staged_def core_ops)

lemma restage_Inl [core_ops]: "restage X a es c = (Inl e, c') \<longleftrightarrow> fits X a es c = Inl e \<and> c' = c"
  by (auto simp: restage_def core_ops)

lemma require_managed_Inr: "require_managed X a c = Inr u \<longleftrightarrow> manages X a c = Inr True"
  by (auto simp: require_managed_def bind_res_Inr split: if_splits)

lemma stage_Inl: "stage X a cmd c = (Inl e, c') \<Longrightarrow> c' = c"
  by (cases cmd)
    (auto simp: stage_add_installation_def stage_set_display_name_def stage_revoke_def core_ops Let_def
      split: if_splits)

lemma stage_Inr:
  assumes "stage X a cmd c = (Inr u, c')"
  obtains es where "manages X a c = Inr True" and "fits X a es c = Inr ()" and "c' = with_staged a es c"
    and "staged_anew cmd (staged_for a c) es"
  using assms
  by (cases cmd)
    (auto simp: stage_add_installation_def stage_set_display_name_def stage_revoke_def core_ops Let_def
      require_managed_Inr split: if_splits)

section \<open>The edits waiting\<close>

definition edits_ok :: "StagedEdit list \<Rightarrow> bool" where
  "edits_ok es \<longleftrightarrow>
     distinct es \<and> length (filter is_name_edit es) \<le> 1
     \<and> (\<forall>n. SetDisplayName n \<in> set es \<longrightarrow> display_name n = Inr n)"

lemma edits_ok_Nil [simp]: "edits_ok []"
  by (simp add: edits_ok_def)

lemma edits_ok_filter: "edits_ok es \<Longrightarrow> edits_ok (filter P es)"
proof -
  have "length (filter is_name_edit (filter P es)) \<le> length (filter is_name_edit es)"
    by (induction es) auto
  then show "edits_ok es \<Longrightarrow> edits_ok (filter P es)" by (auto simp: edits_ok_def)
qed

lemma display_name_Inr:
  "display_name t = Inr n \<longleftrightarrow>
     n = trim t \<and> list_all (\<lambda>c. \<not> moves_text c) n
     \<and> list_ex (\<lambda>c. \<not> is_whitespace c \<and> \<not> invisible c) n \<and> str_len n \<le> MAX_DISPLAY_NAME_BYTES"
proof -
  have "list_ex moves_text m \<longleftrightarrow> \<not> list_all (\<lambda>c. \<not> moves_text c) m"
    and "list_all (\<lambda>c. is_whitespace c \<or> invisible c) m
      \<longleftrightarrow> \<not> list_ex (\<lambda>c. \<not> is_whitespace c \<and> \<not> invisible c) m" for m
    by (auto simp: list_all_iff list_ex_iff)
  then have "display_name t = Inr n \<longleftrightarrow>
     trim t = n \<and> list_all (\<lambda>c. \<not> moves_text c) (trim t)
     \<and> list_ex (\<lambda>c. \<not> is_whitespace c \<and> \<not> invisible c) (trim t) \<and> str_len (trim t) \<le> MAX_DISPLAY_NAME_BYTES"
    by (simp add: display_name_def Let_def not_less)
  then show ?thesis by metis
qed

lemma display_name_again: "display_name t = Inr n \<Longrightarrow> display_name n = Inr n"
  by (metis display_name_Inr trim_trim)

lemma staged_anew_ok: "edits_ok old \<Longrightarrow> staged_anew cmd old new \<Longrightarrow> edits_ok new"
proof (cases cmd)
  case (StageName t)
  moreover have "filter is_name_edit (filter (\<lambda>s. \<not> is_name_edit s) old) = []"
    by (simp add: filter_empty_conv)
  moreover have "SetDisplayName n \<notin> set (filter (\<lambda>s. \<not> is_name_edit s) old)" for n
    by (simp add: is_name_edit_def)
  moreover assume "edits_ok old" "staged_anew cmd old new"
  ultimately show ?thesis
    by (auto simp: edits_ok_def is_name_edit_def dest: display_name_again split: StagedEdit.splits)
qed (auto simp: edits_ok_def is_name_edit_def)

section \<open>The store reads\<close>

lemma resolve_core_sel:
  assumes "resolve_core X a c = (r, c')"
  shows "disk c' = disk c" and "store c' = store c" and "read_of c' = read_of c"
    and "staged c' = staged c" and "dropped c' = dropped c" and "unlocked c' = unlocked c"
  using assms by (auto simp: resolve_core_def split: prod.splits)

lemma settle_sel [simp]:
  "disk (settle X a c) = disk c" "outside (settle X a c) = outside c" "store (settle X a c) = store c"
  "resolver (settle X a c) = resolver c" "written (settle X a c) = written c"
  "read_of (settle X a c) = read_of c" "unlocked (settle X a c) = unlocked c"
  by (auto simp: settle_def Let_def split: option.splits sum.splits)

text \<open>Which of the edits waiting a read found not in the log yet, and how many are counted.\<close>

definition needed_now :: "('l, 'd, 'r, 'n) app \<Rightarrow> AccountAddr \<Rightarrow> ('r, 'n) core \<Rightarrow> StagedEdit \<Rightarrow> bool" where
  "needed_now X a c =
     (case record_of X a c of
        None \<Rightarrow> (\<lambda>_. True)
      | Some rec \<Rightarrow> (case from_log (fmt X) (rec_log rec) of
            Inl e \<Rightarrow> (\<lambda>_. True)
          | Inr draft \<Rightarrow> still_needed (live_entries (fmt X) draft) (live_keys (fmt X) draft)
                          (live_display_name (fmt X) (rec_log rec))))"

definition dropped_for :: "AccountAddr \<Rightarrow> ('r, 'n) core \<Rightarrow> nat" where
  "dropped_for a c = (case dropped c a of None \<Rightarrow> 0 | Some n \<Rightarrow> n)"

lemma settle_staged_for: "staged_for a (settle X a c) = filter (needed_now X a c) (staged_for a c)"
  by (auto simp: settle_def staged_for_def needed_now_def Let_def split: option.splits sum.splits)

lemma settle_other [simp]:
  "b \<noteq> a \<Longrightarrow> staged (settle X a c) b = staged c b" "b \<noteq> a \<Longrightarrow> dropped (settle X a c) b = dropped c b"
  by (auto simp: settle_def Let_def split: option.splits sum.splits)

lemma settle_dropped_for:
  "dropped_for a (settle X a c) + length (staged_for a (settle X a c)) = dropped_for a c + length (staged_for a c)"
proof -
  have "length (filter P es) = length es" if "\<not> length (filter P es) < length es"
    for P and es :: "StagedEdit list"
    using that length_filter_le [of P es] by linarith
  then show ?thesis
    by (auto simp: settle_def dropped_for_def staged_for_def Let_def split: option.splits sum.splits)
qed

text \<open>No account has an empty list waiting, and none a count of nothing.\<close>

definition tidy :: "('r, 'n) core \<Rightarrow> bool" where
  "tidy c \<longleftrightarrow> (\<forall>a. staged c a \<noteq> Some [] \<and> dropped c a \<noteq> Some 0)"

lemma tidy_settle: "tidy c \<Longrightarrow> tidy (settle X a c)"
  unfolding tidy_def
  by (auto simp: settle_def Let_def split: option.splits sum.splits if_splits)

text \<open>The outcomes of a read of the store.\<close>

definition answered_now :: "AccountAddr \<Rightarrow> ('r, 'n) core \<Rightarrow> ('r, 'n) core" where
  "answered_now a c = c\<lparr>read_of := (read_of c)(a \<mapsto> \<lparr>lr_at = Some (now (outside c)), lr_problem = None\<rparr>)\<rparr>"

definition failed_now :: "AccountAddr \<Rightarrow> ReadProblem \<Rightarrow> ('r, 'n) core \<Rightarrow> ('r, 'n) core" where
  "failed_now a p c = c\<lparr>read_of := (read_of c)
     (a \<mapsto> (case read_of c a of None \<Rightarrow> LastRead_default | Some l \<Rightarrow> l)\<lparr>lr_problem := Some p\<rparr>)\<rparr>"

lemma read_store_Inr:
  "read_store X a c = (Inr u, c') \<longleftrightarrow>
     (\<exists>c1. resolve_core X a c = (Inr (), c1) \<and> c' = settle X a (answered_now a c1))"
  by (auto simp: read_store_def answered_now_def Let_def split: prod.splits sum.splits)

lemma read_store_Inl:
  "read_store X a c = (Inl e, c') \<longleftrightarrow>
     (\<exists>e0 c1. resolve_core X a c = (Inl e0, c1) \<and> e = Account e0 \<and> c' = failed_now a (ReadProblem_of e0) c1)"
  by (auto simp: read_store_def failed_now_def Let_def split: prod.splits sum.splits)

lemma marked_sel [simp]:
  "disk (answered_now a c) = disk c" "outside (answered_now a c) = outside c" "store (answered_now a c) = store c"
  "resolver (answered_now a c) = resolver c" "written (answered_now a c) = written c"
  "staged (answered_now a c) = staged c" "dropped (answered_now a c) = dropped c"
  "unlocked (answered_now a c) = unlocked c"
  "disk (failed_now a p c) = disk c" "outside (failed_now a p c) = outside c" "store (failed_now a p c) = store c"
  "resolver (failed_now a p c) = resolver c" "written (failed_now a p c) = written c"
  "staged (failed_now a p c) = staged c" "dropped (failed_now a p c) = dropped c"
  "unlocked (failed_now a p c) = unlocked c"
  by (simp_all add: answered_now_def failed_now_def)

lemma marked_counts [simp]:
  "staged_for b (answered_now a c) = staged_for b c" "dropped_for b (answered_now a c) = dropped_for b c"
  "staged_for b (failed_now a p c) = staged_for b c" "dropped_for b (failed_now a p c) = dropped_for b c"
  by (simp_all add: staged_for_def dropped_for_def)

lemma read_at_marked [simp]:
  "read_at b (answered_now a c) = (if b = a then Some (now (outside c)) else read_at b c)"
  "read_at b (failed_now a p c) = read_at b c"
  "problem b (answered_now a c) = (if b = a then None else problem b c)"
  "problem b (failed_now a p c) = (if b = a then Some p else problem b c)"
  by (auto simp: read_at_def problem_def answered_now_def failed_now_def LastRead_default_def split: option.splits)

end
