(* ===== verification/Core_Steps.thy ===== *)
theory Core_Steps
  imports Manager_Facts
begin

text \<open>
  The account core as a state machine: a call made through the handle, or anything else on
  the machine or the network changing the directory and the outside world between two calls.
  The invariant holds of every core the machine reaches, from any directory.
\<close>

section \<open>The machine\<close>

datatype call =
    Create "rstr option"
  | Import rstr "rstr option"
  | Unlock AccountAddr rstr
  | ForgetAccount AccountAddr
  | ObserveAccount AccountAddr
  | StopObserving AccountAddr
  | Refresh AccountAddr
  | Stage AccountAddr stage_command
  | Discard AccountAddr
  | Publish AccountAddr

fun perform :: "('l, 'd, 'r, 'n) app \<Rightarrow> call \<Rightarrow> ('r, 'n, unit) core_op" where
  "perform X (Create pw) = void (create_account X pw)"
| "perform X (Import secret pw) = void (import_account X secret pw)"
| "perform X (Unlock a pw) = unlock X a pw"
| "perform X (ForgetAccount a) = forget_account X a"
| "perform X (ObserveAccount a) = void (observe X a)"
| "perform X (StopObserving a) = stop_observing X a"
| "perform X (Refresh a) = void (refresh X a)"
| "perform X (Stage a cmd) = stage X a cmd"
| "perform X (Discard a) = discard_pending X a"
| "perform X (Publish a) = void (publish X a)"

inductive step :: "('l, 'd, 'r, 'n) app \<Rightarrow> ('r, 'n) core \<Rightarrow> ('r, 'n) core \<Rightarrow> bool" for X where
  call: "perform X cl c = (r, c') \<Longrightarrow> step X c c'"
| elsewhere: "step X c (c\<lparr>disk := d, outside := w\<rparr>)"

inductive reachable :: "('l, 'd, 'r, 'n) app \<Rightarrow> ('r, 'n) core \<Rightarrow> bool" for X where
  start: "reachable X (core_new X d w s)"
| more: "reachable X c \<Longrightarrow> step X c c' \<Longrightarrow> reachable X c'"

inductive_cases step_cases: "step X c c'"

section \<open>The invariant\<close>

definition keys_ok :: "('l, 'd, 'r, 'n) app \<Rightarrow> ('r, 'n) core \<Rightarrow> bool" where
  "keys_ok X c \<longleftrightarrow> (\<forall>a k. unlocked c a = Some k \<longrightarrow> addr_of (vkeys (vlt X)) k = a)"

definition core_inv :: "('l, 'd, 'r, 'n) app \<Rightarrow> ('r, 'n) core \<Rightarrow> bool" where
  "core_inv X c \<longleftrightarrow> keys_ok X c \<and> tidy c \<and> (\<forall>a. edits_ok (staged_for a c)) \<and> written c = None"

lemma core_inv_new: "core_inv X (core_new X d w s)"
  by (simp add: core_inv_def keys_ok_def tidy_def staged_for_def core_new_def)

text \<open>The invariant reads four fields; what leaves them alone keeps it.\<close>

definition session_of :: "('r, 'n) core \<Rightarrow> _" where
  "session_of c = (unlocked c, staged c, dropped c, written c)"

lemma core_inv_session: "session_of c' = session_of c \<Longrightarrow> core_inv X c' = core_inv X c"
  by (simp add: session_of_def core_inv_def keys_ok_def tidy_def staged_for_def)

lemma core_inv_outside: "core_inv X (c\<lparr>disk := d, outside := w\<rparr>) = core_inv X c"
  by (rule core_inv_session) (simp add: session_of_def)

lemma core_inv_disk: "core_inv X (c\<lparr>disk := d\<rparr>) = core_inv X c"
  by (rule core_inv_session) (simp add: session_of_def)

lemma core_inv_fields:
  assumes "core_inv X c" and "staged c' = staged c" and "dropped c' = dropped c"
    and "written c' = None" and "keys_ok X c'"
  shows "core_inv X c'"
  using assms by (simp add: core_inv_def tidy_def staged_for_def)

lemma keys_ok_cleared:
  assumes "keys_ok X c" and "\<And>b. unlocked c' b = unlocked c b \<or> unlocked c' b = None"
  shows "keys_ok X c'"
  using assms unfolding keys_ok_def by (metis option.distinct(1))

lemma keys_ok_added:
  assumes "keys_ok X c" and "unlocked c' = (unlocked c)(a \<mapsto> k)" and "addr_of (vkeys (vlt X)) k = a"
  shows "keys_ok X c'"
  using assms by (auto simp: keys_ok_def)

section \<open>Every call keeps the invariant\<close>

lemma take_into_vault_sel:
  "take_into_vault X key pw c = (r, c') \<Longrightarrow> session_of c' = session_of c \<and> read_of c' = read_of c
     \<and> resolver c' = resolver c \<and> store c' = store c"
  by (auto simp: take_into_vault_def on_disk_def session_of_def Let_def split: prod.splits)

lemma take_into_vault_addr:
  "take_into_vault X key pw c = (Inr a, c') \<Longrightarrow> a = addr_of (vkeys (vlt X)) key"
  by (auto simp: take_into_vault_def on_disk_Inr Let_def elim: create_Inr [OF _ refl])

lemma draw_key_sel: "draw_key X c = (key, c') \<Longrightarrow> session_of c' = session_of c"
  by (auto simp: draw_key_def session_of_def split: prod.splits)

lemma inv_keep_unlocked:
  "core_inv X c \<Longrightarrow> addr_of (vkeys (vlt X)) key = a \<Longrightarrow> core_inv X (keep_unlocked key pw a c)"
  using keys_ok_added [of X c "c\<lparr>unlocked := (unlocked c)(a \<mapsto> key)\<rparr>" a key]
  by (auto simp: keep_unlocked_def core_inv_def tidy_def staged_for_def)

lemma inv_create:
  assumes "core_inv X c" and "create_account X pw c = (r, c')"
  shows "core_inv X c'"
proof -
  obtain key c1 where 1: "draw_key X c = (key, c1)" by fastforce
  have "core_inv X c1 = core_inv X c" by (rule core_inv_session [OF draw_key_sel [OF 1]])
  then have i1: "core_inv X c1" using assms(1) by blast
  have *: "core_inv X c2" if "take_into_vault X key pw c1 = (q, c2)" for q c2
    using core_inv_session [of c2 c1] take_into_vault_sel [OF that] i1 by blast
  show ?thesis
    using assms(2) 1 *
    by (cases r) (auto simp: create_account_def core_ops dest: take_into_vault_addr intro!: inv_keep_unlocked)
qed

lemma inv_import:
  assumes "core_inv X c" and "import_account X secret pw c = (r, c')"
  shows "core_inv X c'"
proof -
  have *: "core_inv X c2" if "take_into_vault X key pw c = (q, c2)" for key q c2
    using core_inv_session [of c2 c] take_into_vault_sel [OF that] assms(1) by blast
  have **: "core_inv X (keep_unlocked key pw a c2)" if "take_into_vault X key pw c = (Inr a, c2)" for key a c2
    using * [OF that] take_into_vault_addr [OF that] by (intro inv_keep_unlocked) simp_all
  show ?thesis
    using assms by (cases r) (auto simp: import_account_def core_ops core_inv_disk dest: * **)
qed

lemma inv_unlock:
  assumes "core_inv X c" and "unlock X a pw c = (r, c')"
  shows "core_inv X c'"
proof (cases r)
  case (Inl e)
  then show ?thesis using assms by (auto simp: unlock_def core_ops)
next
  case (Inr u)
  with assms(2) obtain k where k: "vault_open (vlt X) a (Some pw) (disk c) = Inr k"
    and c': "c' = c\<lparr>unlocked := (unlocked c)(a \<mapsto> k)\<rparr>"
    by (auto simp: unlock_def core_ops)
  have "keys_ok X c'"
    by (rule keys_ok_added [of X c _ a k]) (use assms(1) c' vault_open_proof [OF k] in \<open>auto simp: core_inv_def\<close>)
  then show ?thesis by (rule core_inv_fields [OF assms(1), rotated 3]) (use assms(1) c' in \<open>auto simp: core_inv_def\<close>)
qed

lemma inv_clear:
  assumes "core_inv X c" and "unlocked c' = (unlocked c)(a := None) \<or> unlocked c' = unlocked c"
    and "staged c' = (staged c)(a := None) \<or> staged c' = staged c"
    and "dropped c' = (dropped c)(a := None) \<or> dropped c' = dropped c" and "written c' = written c"
  shows "core_inv X c'"
proof -
  have "keys_ok X c'"
    by (rule keys_ok_cleared [of X c]) (use assms(1,2) in \<open>auto simp: core_inv_def split: if_splits\<close>)
  moreover have "tidy c'" using assms(1,3,4) by (auto simp: core_inv_def tidy_def split: if_splits)
  moreover have "staged_for b c' = staged_for b c \<or> staged_for b c' = []" for b
    using assms(3) by (auto simp: staged_for_def)
  then have "edits_ok (staged_for b c')" for b
    using assms(1) by (metis core_inv_def edits_ok_Nil)
  ultimately show ?thesis using assms(1,5) by (simp add: core_inv_def)
qed

lemma inv_forget: "core_inv X c \<Longrightarrow> forget_account X a c = (r, c') \<Longrightarrow> core_inv X c'"
  by (cases r) (auto simp: forget_account_def core_ops core_inv_disk intro!: inv_clear [of X c _ a])

lemma inv_observe: "core_inv X c \<Longrightarrow> observe X a c = (r, c') \<Longrightarrow> core_inv X c'"
  by (cases r) (auto simp: observe_def core_ops core_inv_disk split: if_splits)

lemma inv_stop: "core_inv X c \<Longrightarrow> stop_observing X a c = (r, c') \<Longrightarrow> core_inv X c'"
  by (cases r) (auto simp: stop_observing_def core_ops core_inv_disk split: if_splits intro!: inv_clear [of X c _ a])

lemma inv_discard: "core_inv X c \<Longrightarrow> discard_pending X a c = (r, c') \<Longrightarrow> core_inv X c'"
  by (cases r) (auto simp: discard_pending_def core_ops intro!: inv_clear [of X c _ a])

lemma inv_stage:
  assumes "core_inv X c" and "stage X a cmd c = (r, c')"
  shows "core_inv X c'"
proof (cases r)
  case (Inl e)
  with stage_Inl [of X a cmd c e c'] assms show ?thesis by simp
next
  case (Inr u)
  from stage_Inr [OF assms(2) [unfolded Inr]] obtain es where
    c': "c' = with_staged a es c" and s: "staged_anew cmd (staged_for a c) es" by metis
  have e: "edits_ok es" by (rule staged_anew_ok [OF _ s]) (use assms(1) in \<open>simp add: core_inv_def\<close>)
  have "keys_ok X c'" using assms(1) c' by (simp add: core_inv_def keys_ok_def)
  moreover have "tidy c'" using assms(1) c' by (auto simp: core_inv_def tidy_def)
  ultimately show ?thesis using assms(1) c' e by (simp add: core_inv_def)
qed

subsection \<open>Reads and publishes\<close>

lemma written_take_own: "written_take a (Some (a, log)) = (Some log, None)"
  by (simp add: written_take_def)

lemma written_take_None [simp]: "written_take a None = (None, None)"
  by (simp add: written_take_def)

text \<open>A resolve leaves the slot as one take of it does.\<close>

lemma read_back_fetch_eq:
  "read_back_fetch H s (slot, w) a =
     (case fst (written_take a slot) of
        Some log \<Rightarrow> (Inr (Some log), (snd (written_take a slot), w))
      | None \<Rightarrow> (fst (store_fetch H s w a), (snd (written_take a slot), snd (store_fetch H s w a))))"
  by (simp add: read_back_fetch_def split: prod.split option.split)

definition judged ::
  "('l, 'd, 'r, 'n) app \<Rightarrow> ('r \<Rightarrow> AccountAddr \<Rightarrow> StoreError + signed_log option \<Rightarrow> (StoreError AccountError + unit) \<times> 'r) \<Rightarrow>
   AccountAddr \<Rightarrow> (('r, 'n) core, StoreError AccountError, unit) op" where
  "judged X judge a c =
     (let f = read_back_fetch (net_http X) (store c) (written c, outside c) a;
          j = judge (resolver c) a (fst f)
      in (fst j, c\<lparr>resolver := snd j, written := fst (snd f), outside := snd (snd f)\<rparr>))"

lemma resolve_core_judged:
  assumes "resolve_law (acct X)"
  shows "\<exists>judge. judge_laws (acct X) judge \<and> (\<forall>a c. resolve_core X a c = judged X judge a c)"
proof -
  obtain judge where j: "judge_laws (acct X) judge"
    and r: "\<And>fetch r a s. resolve (acct X) fetch r a s =
      (case fetch s a of (x, s') \<Rightarrow> (case judge r a x of (res, r') \<Rightarrow> (res, r', s')))"
    using assms unfolding resolve_law_def by blast
  have "resolve_core X a c = judged X judge a c" for a c
    unfolding resolve_core_def judged_def r Let_def by (simp split: prod.split)
  with j show ?thesis by blast
qed

lemma resolve_core_written:
  assumes "resolve_law (acct X)" and "resolve_core X a c = (r, c')"
  shows "written c' = snd (written_take a (written c))"
proof -
  obtain judge where j: "\<forall>a c. resolve_core X a c = judged X judge a c"
    using resolve_core_judged [OF assms(1)] by blast
  show ?thesis
    using assms(2) unfolding j [rule_format] judged_def read_back_fetch_eq Let_def
    by (auto split: option.splits)
qed

lemma inv_settle:
  assumes "core_inv X c"
  shows "core_inv X (settle X a c)"
proof -
  have "edits_ok (staged_for b (settle X a c))" for b
    using assms settle_staged_for [of a X c] settle_other(1) [of b a X c]
    by (cases "b = a") (auto simp: core_inv_def edits_ok_filter staged_for_def)
  then show ?thesis using assms tidy_settle [of c X a] by (simp add: core_inv_def keys_ok_def)
qed

lemma inv_resolve:
  assumes "resolve_law (acct X)" and "core_inv X c" and "resolve_core X a c = (r, c')"
  shows "core_inv X c'"
proof (rule core_inv_fields [OF assms(2)])
  note s = resolve_core_sel [OF assms(3)]
  show "staged c' = staged c" "dropped c' = dropped c" by (rule s)+
  show "written c' = None" using resolve_core_written [OF assms(1,3)] assms(2) by (simp add: core_inv_def)
  show "keys_ok X c'" using s(6) assms(2) by (simp add: core_inv_def keys_ok_def)
qed

lemma core_inv_marked [simp]:
  "core_inv X (answered_now a c) = core_inv X c" "core_inv X (failed_now a p c) = core_inv X c"
  by (rule core_inv_session, simp add: session_of_def)+

lemma inv_read_store:
  assumes "resolve_law (acct X)" and "core_inv X c" and "read_store X a c = (r, c')"
  shows "core_inv X c'"
  using assms(3) inv_resolve [OF assms(1,2)]
  by (cases r) (auto simp: read_store_Inr read_store_Inl intro: inv_settle)

lemma inv_take_dropped: "core_inv X c \<Longrightarrow> core_inv X (snd (take_dropped a c))"
  by (auto simp: take_dropped_def intro!: inv_clear [of X c _ a])

lemma inv_refresh:
  assumes "resolve_law (acct X)" and "core_inv X c" and "refresh X a c = (r, c')"
  shows "core_inv X c'"
  using assms(3) inv_read_store [OF assms(1,2)] assms(2)
  by (cases r) (auto simp: refresh_def core_ops case_prod_beta intro: inv_take_dropped)

lemma write_update_sel:
  "write_update X a key es c = (r, c') \<Longrightarrow> \<exists>w. c' = c\<lparr>outside := w\<rparr>"
  by (auto simp: write_update_def split: prod.splits)

lemma core_inv_written:
  assumes "core_inv X c" and "resolve_law (acct X)"
    and "resolve_core X a (c\<lparr>staged := (staged c)(a := None), written := Some (a, log)\<rparr>) = (r, c')"
  shows "core_inv X c'"
proof -
  let ?c = "c\<lparr>staged := (staged c)(a := None), written := Some (a, log)\<rparr>"
  have 1: "core_inv X (c\<lparr>staged := (staged c)(a := None)\<rparr>)"
    by (rule inv_clear [OF assms(1), of _ a]) simp_all
  show ?thesis
  proof (rule core_inv_fields [OF 1])
    note s = resolve_core_sel [OF assms(3)]
    show "staged c' = staged (c\<lparr>staged := (staged c)(a := None)\<rparr>)" using s(4) by simp
    show "dropped c' = dropped (c\<lparr>staged := (staged c)(a := None)\<rparr>)" using s(5) by simp
    show "written c' = None" using resolve_core_written [OF assms(2,3)] by (simp add: written_take_own)
    show "keys_ok X c'" using s(6) assms(1) by (simp add: core_inv_def keys_ok_def)
  qed
qed

lemma inv_publish_staged:
  assumes "resolve_law (acct X)" and "core_inv X c" and "publish_staged X a key edits c = (r, c')"
  shows "core_inv X c'"
proof -
  have w: "core_inv X c1" if "write_update X a key es c = (q, c1)" for es q c1
    using write_update_sel [OF that] core_inv_session [of c1 c X] assms(2) by (auto simp: session_of_def)
  have "core_inv X c2" if "write_update X a key es c = (q, c1)"
    "resolve_core X a (c1\<lparr>staged := (staged c1)(a := None), written := Some (a, log)\<rparr>) = (p, c2)" for es q c1 log p c2
    by (rule core_inv_written [OF w [OF that(1)] assms(1) that(2)])
  with w assms(2,3) show ?thesis
    by (cases r) (auto simp: publish_staged_def core_ops Let_def case_prod_beta intro!: inv_take_dropped)
qed

lemma inv_publish:
  assumes "resolve_law (acct X)" and "core_inv X c" and "publish X a c = (r, c')"
  shows "core_inv X c'"
proof -
  note rs = inv_read_store [OF assms(1,2)]
  have ps: "core_inv X c2" if "read_store X a c = (q, c1)" "publish_staged X a key es c1 = (p, c2)" for q c1 key es p c2
    by (rule inv_publish_staged [OF assms(1) rs [OF that(1)] that(2)])
  show ?thesis
    using assms(2,3) rs ps
    by (cases r) (auto simp: publish_def core_ops case_prod_beta split: if_splits option.splits intro!: inv_take_dropped)
qed

section \<open>Every reachable core satisfies it\<close>

lemma void_cases: "void m c = (r, c') \<Longrightarrow> \<exists>q. m c = (q, c')"
  by (cases r) auto

lemma inv_perform:
  assumes "resolve_law (acct X)" and "core_inv X c" and "perform X cl c = (r, c')"
  shows "core_inv X c'"
  using assms(3) inv_create [OF assms(2)] inv_import [OF assms(2)] inv_unlock [OF assms(2)] inv_forget [OF assms(2)]
    inv_observe [OF assms(2)] inv_stop [OF assms(2)] inv_refresh [OF assms(1,2)] inv_stage [OF assms(2)]
    inv_discard [OF assms(2)] inv_publish [OF assms(1,2)]
  by (cases cl) (auto dest!: void_cases)

lemma reachable_inv:
  assumes "resolve_law (acct X)" and "reachable X c"
  shows "core_inv X c"
  using assms(2)
proof (induction rule: reachable.induct)
  case (start d w s)
  show ?case by (rule core_inv_new)
next
  case (more c c')
  from more(2) show ?case
    by (rule step_cases) (use more(3) inv_perform [OF assms(1)] in \<open>auto simp: core_inv_outside\<close>)
qed

end
