(* ===== verification/Log_Content.thy ===== *)
theory Log_Content
  imports Core_Steps
begin

text \<open>
  What a log says: the entries it lists, which of them are live, and which an update may
  append. The crates \<open>account_log\<close> and \<open>account\<close> are relied on to keep to it; each law names
  what it is read through.
\<close>

section \<open>Entries and their numbers\<close>

definition numbered_from :: "nat \<Rightarrow> AccountEntry list \<Rightarrow> indexed list" where
  "numbered_from k es = map (\<lambda>(i, e). \<lparr>e_index = of_nat i, e_entry = e\<rparr>) (enumerate k es)"

definition not_revoked :: "AccountEntry list \<Rightarrow> indexed \<Rightarrow> bool" where
  "not_revoked es x \<longleftrightarrow> \<not> is_revocation (e_entry x) \<and> Remove (e_index x) \<notin> set es"

definition live_in :: "AccountEntry list \<Rightarrow> indexed list" where
  "live_in es = filter (not_revoked es) (numbered_from 0 es)"

text \<open>What may be appended: a revocation of an entry that is live, a key that is not.\<close>

definition appendable :: "AccountEntry list \<Rightarrow> AccountEntry \<Rightarrow> bool" where
  "appendable es e = (case e of
     Remove i \<Rightarrow> list_ex (\<lambda>x. e_index x = i) (live_in es)
   | Unknown b \<Rightarrow> False
   | Add ctx (Ed25519Key k) \<Rightarrow> k \<notin> set (List.map_filter key_of_entry (live_in es))
   | _ \<Rightarrow> True)"

definition known_entry :: "AccountEntry \<Rightarrow> bool" where
  "known_entry e \<longleftrightarrow> (case e of Unknown b \<Rightarrow> False | _ \<Rightarrow> True)"

text \<open>Every revocation is of an earlier entry, and the entries have numbers of 32 bits.\<close>

definition sound_log :: "AccountEntry list \<Rightarrow> bool" where
  "sound_log es \<longleftrightarrow> length es < 2 ^ 32 \<and> (\<forall>j < length es. case es ! j of Remove i \<Rightarrow> unat i < j | _ \<Rightarrow> True)"

lemma numbered_from_simps [simp]:
  "numbered_from k [] = []"
  "numbered_from k (e # es) = \<lparr>e_index = of_nat k, e_entry = e\<rparr> # numbered_from (Suc k) es"
  "length (numbered_from k es) = length es"
  by (simp_all add: numbered_from_def)

lemma numbered_from_append: "numbered_from k (xs @ ys) = numbered_from k xs @ numbered_from (k + length xs) ys"
  by (induction xs arbitrary: k) simp_all

lemma numbered_from_index:
  "x \<in> set (numbered_from k es) \<Longrightarrow> \<exists>j. k \<le> j \<and> j < k + length es \<and> e_index x = of_nat j \<and> e_entry x \<in> set es"
proof (induction es arbitrary: k)
  case (Cons e es)
  show ?case
  proof (cases "x \<in> set (numbered_from (Suc k) es)")
    case True
    from Cons.IH [OF this] obtain j where "Suc k \<le> j" "j < Suc k + length es" "e_index x = of_nat j" "e_entry x \<in> set es"
      by blast
    then show ?thesis by (intro exI [of _ j]) simp
  next
    case False
    then show ?thesis using Cons.prems by (intro exI [of _ k]) auto
  qed
qed simp

lemma numbered_from_entry: "e \<in> set es \<Longrightarrow> \<exists>x \<in> set (numbered_from k es). e_entry x = e"
  by (induction es arbitrary: k) fastforce+

lemma unat_of_nat_le: "unat (of_nat j :: u32) \<le> j"
  by (simp add: unat_of_nat take_bit_eq_mod)

lemma sound_log_simps [simp]: "sound_log []" "sound_log [Add ctx d]"
  by (simp_all add: sound_log_def)

lemma sound_revokes_earlier: "sound_log es \<Longrightarrow> Remove i \<in> set es \<Longrightarrow> unat i < length es"
  by (fastforce simp: sound_log_def in_set_conv_nth)

lemma appendable_revokes_earlier:
  assumes "appendable es (Remove i)"
  shows "unat i < length es"
proof -
  obtain x where "x \<in> set (numbered_from 0 es)" "e_index x = i"
    using assms by (auto simp: appendable_def live_in_def list_ex_iff)
  then obtain j where "j < length es" "i = of_nat j" using numbered_from_index [of x 0 es] by auto
  then show ?thesis using unat_of_nat_le by (metis order_le_less_trans)
qed

text \<open>
  Entries appended after the last revocation are live, in their order, behind what is left
  of the others.
\<close>

lemma live_in_appended:
  assumes "length (xs @ ys) < 2 ^ 32" and "\<And>i. Remove i \<in> set (xs @ ys) \<Longrightarrow> unat i < length xs"
    and "list_all (\<lambda>e. \<not> is_revocation e) ys"
  shows "live_in (xs @ ys) = filter (not_revoked (xs @ ys)) (numbered_from 0 xs) @ numbered_from (length xs) ys"
proof -
  have "not_revoked (xs @ ys) x" if x: "x \<in> set (numbered_from (length xs) ys)" for x
  proof -
    obtain j where j: "length xs \<le> j" "j < length xs + length ys" "e_index x = of_nat j" "e_entry x \<in> set ys"
      using numbered_from_index [OF x] by blast
    have "unat (e_index x) = j"
      using j(2,3) assms(1) by (simp add: unat_of_nat take_bit_eq_mod)
    then have "Remove (e_index x) \<notin> set (xs @ ys)" using assms(2) [of "e_index x"] j(1) by fastforce
    then show ?thesis using j(4) assms(3) by (simp add: not_revoked_def list_all_iff)
  qed
  then show ?thesis by (simp add: live_in_def numbered_from_append filter_id_conv)
qed

section \<open>What the crates keep to\<close>

text \<open>
  \<open>account_log\<close>: the entries a log lists (\<open>contents\<close>) and a draft (\<open>drafted\<close>), the live ones under
  a context, and what \<open>push\<close> takes.
\<close>

definition log_laws :: "('l, 'd) log_format \<Rightarrow> ('l \<Rightarrow> AccountEntry list) \<Rightarrow> ('d \<Rightarrow> AccountEntry list) \<Rightarrow> bool" where
  "log_laws F contents drafted \<longleftrightarrow>
     (\<forall>l ctx. entries_for F l ctx = filter (\<lambda>x. context_of (e_entry x) = Some ctx) (live_in (contents l)))
     \<and> drafted (draft_new F) = []
     \<and> (\<forall>l d. from_log F l = Inr d \<longrightarrow> drafted d = contents l)
     \<and> (\<forall>l. (\<exists>d. from_log F l = Inr d) \<longleftrightarrow> list_all known_entry (contents l))
     \<and> (\<forall>d e d'. push F d e = Inr d' \<longrightarrow> appendable (drafted d) e \<and> drafted d' = drafted d @ [e])
     \<and> (\<forall>d. contents (draft_log F d) = drafted d)
     \<and> (\<forall>d. live_entries F d = live_in (drafted d)) \<and> (\<forall>d. entries F d = numbered_from 0 (drafted d))
     \<and> (\<forall>l b. encode F l = Inr b \<longrightarrow> length (contents l) < 2 ^ 32)"

lemma log_lawsD:
  assumes "log_laws F contents drafted"
  shows "entries_for F l ctx = filter (\<lambda>x. context_of (e_entry x) = Some ctx) (live_in (contents l))"
    and "drafted (draft_new F) = []" and "from_log F l = Inr d \<Longrightarrow> drafted d = contents l"
    and "push F d e = Inr d' \<Longrightarrow> appendable (drafted d) e" and "push F d e = Inr d' \<Longrightarrow> drafted d' = drafted d @ [e]"
    and "contents (draft_log F d) = drafted d" and "live_entries F d = live_in (drafted d)"
    and "entries F d = numbered_from 0 (drafted d)" and "encode F l = Inr b \<Longrightarrow> length (contents l) < 2 ^ 32"
    and "(\<exists>d. from_log F l = Inr d) \<longleftrightarrow> list_all known_entry (contents l)"
  using assms unfolding log_laws_def by blast+

text \<open>\<open>account\<close>: the record held of an account is of the log the store served, whose revocations are of earlier entries.\<close>

definition carries :: "('l \<Rightarrow> AccountEntry list) \<Rightarrow> (signed_log \<Rightarrow> AccountEntry list) \<Rightarrow> 'l account_record \<Rightarrow> bool" where
  "carries contents says rec \<longleftrightarrow> contents (rec_log rec) = says (rec_signed rec) \<and> sound_log (contents (rec_log rec))"

definition all_carry ::
  "('l, 'r, 's, 'w, 'e) account_crate \<Rightarrow> ('l \<Rightarrow> AccountEntry list) \<Rightarrow> (signed_log \<Rightarrow> AccountEntry list) \<Rightarrow> 'r \<Rightarrow> bool" where
  "all_carry A contents says r \<longleftrightarrow> (\<forall>a rec. resolver_get A r a = Some rec \<longrightarrow> carries contents says rec)"

definition content_laws ::
  "('l, 'r, 's, 'w, 'e) account_crate \<Rightarrow>
   (SigningKey \<Rightarrow> signed_log option \<Rightarrow> AccountEntry list \<Rightarrow> AccountLogError + signed_log) \<Rightarrow>
   ('l \<Rightarrow> AccountEntry list) \<Rightarrow> (signed_log \<Rightarrow> AccountEntry list) \<Rightarrow> bool" where
  "content_laws A build contents says \<longleftrightarrow>
     (\<forall>a. resolver_get A (resolver_new A) a = None)
     \<and> (\<forall>fetch r a s res r' s'. resolve A fetch r a s = (res, r', s') \<longrightarrow>
          all_carry A contents says r \<longrightarrow> all_carry A contents says r')
     \<and> (\<forall>k base es log. build k base es = Inr log \<longrightarrow>
          says log = (case base of None \<Rightarrow> [] | Some b \<Rightarrow> says b) @ es)"

text \<open>
  When it answers: a log the account's key signed is adopted where it extends the one held,
  nothing published is nothing held, and an update the log has room for is built on it.
\<close>

definition answer_laws ::
  "keys \<Rightarrow> ('l, 'd) log_format \<Rightarrow> ('l, 'r, 's, 'w, 'e) account_crate \<Rightarrow>
   (SigningKey \<Rightarrow> signed_log option \<Rightarrow> AccountEntry list \<Rightarrow> AccountLogError + signed_log) \<Rightarrow>
   (AccountAddr \<Rightarrow> signed_log \<Rightarrow> bool) \<Rightarrow> ('d \<Rightarrow> AccountEntry list) \<Rightarrow> (signed_log \<Rightarrow> AccountEntry list) \<Rightarrow> bool" where
  "answer_laws K F A build genuine drafted says \<longleftrightarrow>
     (\<forall>fetch r a s log s'. fetch s a = (Inr (Some log), s') \<longrightarrow> genuine a log \<longrightarrow>
        (\<forall>held. resolver_get A r a = Some held \<longrightarrow> prefix (payload (rec_signed held)) (payload log)) \<longrightarrow>
        (\<exists>r'. resolve A fetch r a s = (Inr (), r', s')))
     \<and> (\<forall>fetch r a s s'. fetch s a = (Inr None, s') \<longrightarrow> resolver_get A r a = None \<longrightarrow>
        (\<exists>r'. resolve A fetch r a s = (Inr (), r', s') \<and> resolver_get A r' a = None))
     \<and> (\<forall>k base es d d' b. drafted d = (case base of None \<Rightarrow> [] | Some l \<Rightarrow> says l) \<longrightarrow>
        (\<forall>l. base = Some l \<longrightarrow> genuine (addr_of K k) l) \<longrightarrow>
        push_all F d es = Inr d' \<longrightarrow> encode F (draft_log F d') = Inr b \<longrightarrow>
        (\<exists>log. build k base es = Inr log \<and> genuine (addr_of K k) log
           \<and> (\<forall>l. base = Some l \<longrightarrow> prefix (payload l) (payload log))))"

lemma answer_lawsD:
  assumes "answer_laws K F A build genuine drafted says"
  shows "fetch s a = (Inr (Some log), s') \<Longrightarrow> genuine a log \<Longrightarrow>
      (\<And>held. resolver_get A r a = Some held \<Longrightarrow> prefix (payload (rec_signed held)) (payload log)) \<Longrightarrow>
      \<exists>r'. resolve A fetch r a s = (Inr (), r', s')"
    and "fetch s a = (Inr None, s') \<Longrightarrow> resolver_get A r a = None \<Longrightarrow>
      \<exists>r'. resolve A fetch r a s = (Inr (), r', s') \<and> resolver_get A r' a = None"
    and "drafted d = (case base of None \<Rightarrow> [] | Some l \<Rightarrow> says l) \<Longrightarrow> (\<And>l. base = Some l \<Longrightarrow> genuine (addr_of K k) l) \<Longrightarrow>
      push_all F d es = Inr d' \<Longrightarrow> encode F (draft_log F d') = Inr b \<Longrightarrow>
      \<exists>log. build k base es = Inr log \<and> genuine (addr_of K k) log \<and> (\<forall>l. base = Some l \<longrightarrow> prefix (payload l) (payload log))"
proof -
  note l = assms [unfolded answer_laws_def]
  show "fetch s a = (Inr (Some log), s') \<Longrightarrow> genuine a log \<Longrightarrow>
      (\<And>held. resolver_get A r a = Some held \<Longrightarrow> prefix (payload (rec_signed held)) (payload log)) \<Longrightarrow>
      \<exists>r'. resolve A fetch r a s = (Inr (), r', s')" using l [THEN conjunct1] by blast
  show "fetch s a = (Inr None, s') \<Longrightarrow> resolver_get A r a = None \<Longrightarrow>
      \<exists>r'. resolve A fetch r a s = (Inr (), r', s') \<and> resolver_get A r' a = None"
    using l [THEN conjunct2, THEN conjunct1] by blast
  assume "drafted d = (case base of None \<Rightarrow> [] | Some l \<Rightarrow> says l)" "\<And>l. base = Some l \<Longrightarrow> genuine (addr_of K k) l"
    "push_all F d es = Inr d'" "encode F (draft_log F d') = Inr b"
  then show "\<exists>log. build k base es = Inr log \<and> genuine (addr_of K k) log \<and> (\<forall>l. base = Some l \<longrightarrow> prefix (payload l) (payload log))"
    using l [THEN conjunct2, THEN conjunct2, rule_format, of d base k es d' b] by blast
qed


lemma push_all_appends:
  "log_laws F contents drafted \<Longrightarrow> push_all F d es = Inr d' \<Longrightarrow>
     drafted d' = drafted d @ es \<and> (\<forall>j < length es. appendable (drafted d @ take j es) (es ! j))"
proof (induction es arbitrary: d)
  case Nil
  then show ?case by simp
next
  case (Cons e es)
  then obtain d1 where 1: "push F d e = Inr d1" and 2: "push_all F d1 es = Inr d'" by (auto simp: bind_res_Inr)
  note p = log_lawsD(4,5) [OF Cons.prems(1) 1]
  from Cons.IH [OF Cons.prems(1) 2] p show ?case by (auto simp: less_Suc_eq_0_disj)
qed

lemma sound_log_snoc:
  "sound_log (l @ [e]) \<longleftrightarrow> sound_log l \<and> length l + 1 < 2 ^ 32 \<and> (case e of Remove i \<Rightarrow> unat i < length l | _ \<Rightarrow> True)"
  unfolding sound_log_def by (auto simp: nth_append less_Suc_eq split: if_splits)

lemma push_all_sound:
  assumes "log_laws F contents drafted" and "push_all F d es = Inr d'" and "sound_log (drafted d)"
    and "length (drafted d') < 2 ^ 32"
  shows "sound_log (drafted d')"
  using assms(2,3)
proof (induction es arbitrary: d)
  case Nil
  then show ?case by simp
next
  case (Cons e es)
  then obtain d1 where 1: "push F d e = Inr d1" and 2: "push_all F d1 es = Inr d'" by (auto simp: bind_res_Inr)
  note p = log_lawsD(4,5) [OF assms(1) 1]
  have "length (drafted d) + 1 < 2 ^ 32" using push_all_appends [OF assms(1) 2] p(2) assms(4) by simp
  then have "sound_log (drafted d1)"
    using Cons.prems(2) p appendable_revokes_earlier [of "drafted d"] by (auto simp: sound_log_snoc split: AccountEntry.split)
  with Cons.IH [OF 2] show ?case by blast
qed

section \<open>Every reachable core's records carry their log\<close>

definition records_carry ::
  "('l, 'd, 'r, 'n) app \<Rightarrow> ('l \<Rightarrow> AccountEntry list) \<Rightarrow> (signed_log \<Rightarrow> AccountEntry list) \<Rightarrow> ('r, 'n) core \<Rightarrow> bool" where
  "records_carry X contents says c \<longleftrightarrow> all_carry (acct X) contents says (resolver c)"

lemma resolve_carries:
  assumes "content_laws (acct X) build contents says" and "records_carry X contents says c"
    and "resolve_core X a c = (r, c')"
  shows "records_carry X contents says c'"
proof -
  obtain res r' s' where r: "resolve (acct X) (read_back_fetch (net_http X) (store c)) (resolver c) a (written c, outside c) = (res, r', s')"
    by (metis prod_cases3)
  have "resolver c' = r'" using assms(3) r by (auto simp: resolve_core_def split: prod.splits)
  then show ?thesis using assms(1,2) r unfolding content_laws_def records_carry_def by blast
qed

text \<open>Only reads of the store change what is held of a log.\<close>

lemma read_store_carries:
  assumes "content_laws (acct X) build contents says" and "records_carry X contents says c"
    and "read_store X a c = (r, c')"
  shows "records_carry X contents says c'"
proof -
  obtain q c1 where 1: "resolve_core X a c = (q, c1)" by fastforce
  have "resolver c' = resolver c1"
    using assms(3) 1 by (cases q) (auto simp: read_store_def Let_def)
  then show ?thesis using resolve_carries [OF assms(1,2) 1] by (simp add: records_carry_def)
qed

lemma take_dropped_resolver: "take_dropped a c = (n, c') \<Longrightarrow> resolver c' = resolver c"
  by (auto simp: take_dropped_def)

lemma publish_staged_carries:
  assumes "content_laws (acct X) build contents says" and "records_carry X contents says c"
    and "publish_staged X a key edits c = (r, c')"
  shows "records_carry X contents says c'"
proof -
  have w: "records_carry X contents says c1" if "write_update X a key es c = (q, c1)" for es q c1
    using write_update_sel [OF that] assms(2) by (auto simp: records_carry_def)
  have "records_carry X contents says c2" if "write_update X a key es c = (q, c1)"
    "resolve_core X a (c1\<lparr>staged := (staged c1)(a := None), written := Some (a, log)\<rparr>) = (p, c2)" for es q c1 log p c2
    using resolve_carries [OF assms(1) _ that(2)] w [OF that(1)] by (simp add: records_carry_def)
  with w assms(2,3) show ?thesis
    by (cases r) (auto simp: publish_staged_def take_dropped_def of_read_Inr of_read_Inl and_then_Inr and_then_Inl
        map_err_op_Inl map_err_op_Inr Let_def records_carry_def)
qed

lemma publish_carries:
  assumes "content_laws (acct X) build contents says" and "records_carry X contents says c"
    and "publish X a c = (r, c')"
  shows "records_carry X contents says c'"
proof -
  have 1: "records_carry X contents says c1" if "read_store X a c = (q, c1)" for q c1
    by (rule read_store_carries [OF assms(1,2) that])
  have "records_carry X contents says c2"
    if "read_store X a c = (q, c1)" "publish_staged X a key es c1 = (p, c2)" for q c1 key es p c2
    by (rule publish_staged_carries [OF assms(1) 1 [OF that(1)] that(2)])
  with 1 assms(2,3) show ?thesis
    by (cases r) (auto simp: publish_def core_ops take_dropped_def records_carry_def split: if_splits option.splits)
qed

lemma refresh_carries:
  assumes "content_laws (acct X) build contents says" and "records_carry X contents says c"
    and "refresh X a c = (r, c')"
  shows "records_carry X contents says c'"
  using assms(3) read_store_carries [OF assms(1,2)] assms(2)
  by (cases r) (auto simp: refresh_def core_ops take_dropped_def records_carry_def)

lemma other_calls_resolver:
  "create_account X pw c = (r1, c') \<Longrightarrow> resolver c' = resolver c"
  "import_account X t pw c = (r1, c') \<Longrightarrow> resolver c' = resolver c"
  "unlock X a w c = (r2, c') \<Longrightarrow> resolver c' = resolver c"
  "forget_account X a c = (r2, c') \<Longrightarrow> resolver c' = resolver c"
  "observe X a c = (r3, c') \<Longrightarrow> resolver c' = resolver c"
  "stop_observing X a c = (r2, c') \<Longrightarrow> resolver c' = resolver c"
  "discard_pending X a c = (r2, c') \<Longrightarrow> resolver c' = resolver c"
  "stage X a cmd c = (r2, c') \<Longrightarrow> resolver c' = resolver c"
proof -
  show "create_account X pw c = (r1, c') \<Longrightarrow> resolver c' = resolver c"
    by (cases r1) (auto simp: create_account_def draw_key_def core_ops keep_unlocked_def
        dest!: take_into_vault_sel split: prod.splits)
  show "import_account X t pw c = (r1, c') \<Longrightarrow> resolver c' = resolver c"
    by (cases r1) (auto simp: import_account_def core_ops keep_unlocked_def dest!: take_into_vault_sel)
  show "unlock X a w c = (r2, c') \<Longrightarrow> resolver c' = resolver c"
    by (cases r2) (auto simp: unlock_def core_ops)
  show "forget_account X a c = (r2, c') \<Longrightarrow> resolver c' = resolver c"
    by (cases r2) (auto simp: forget_account_def core_ops)
  show "observe X a c = (r3, c') \<Longrightarrow> resolver c' = resolver c"
    by (cases r3) (auto simp: observe_def core_ops split: if_splits)
  show "stop_observing X a c = (r2, c') \<Longrightarrow> resolver c' = resolver c"
    by (cases r2) (auto simp: stop_observing_def core_ops split: if_splits)
  show "discard_pending X a c = (r2, c') \<Longrightarrow> resolver c' = resolver c"
    by (cases r2) (auto simp: discard_pending_def core_ops)
  show "stage X a cmd c = (r2, c') \<Longrightarrow> resolver c' = resolver c"
    using stage_Inl [of X a cmd c _ c'] stage_Inr [of X a cmd c "()" c'] by (cases r2) fastforce+
qed

lemma perform_carries:
  assumes "content_laws (acct X) build contents says" and "records_carry X contents says c"
    and "perform X cl c = (r, c')"
  shows "records_carry X contents says c'"
proof -
  have "resolver c' = resolver c \<or> records_carry X contents says c'"
    using assms(3) publish_carries [OF assms(1,2)] refresh_carries [OF assms(1,2)]
    by (cases cl) (auto dest!: void_cases dest: other_calls_resolver)
  then show ?thesis using assms(2) by (auto simp: records_carry_def)
qed

lemma reachable_carries:
  assumes "content_laws (acct X) build contents says" and "reachable X c"
  shows "records_carry X contents says c"
  using assms(2)
proof (induction rule: reachable.induct)
  case (start d w s)
  then show ?case using assms(1) by (simp add: records_carry_def all_carry_def content_laws_def core_new_def)
next
  case (more c c')
  from more(2) show ?case
    by (rule step_cases) (use more(3) perform_carries [OF assms(1)] in \<open>auto simp: records_carry_def\<close>)
qed

end
