(* ===== verification/Sample_Core.thy ===== *)
theory Sample_Core
  imports Log_Content Store_Properties
begin

text \<open>
  A concrete log format and account crate that keep the laws of \<open>Crates\<close>, and an app built on
  them: what the manager's witnesses run.
\<close>

section \<open>A log format\<close>

type_synonym slog = "AccountEntry list"

definition sample_domain :: bytes where
  "sample_domain = replicate 17 76"

fun entry_bytes :: "AccountEntry \<Rightarrow> bytes" where
  "entry_bytes (Add ctx (Text t)) = 1 # of_nat (length ctx) # of_nat (length t) # map of_nat ctx @ map of_nat t"
| "entry_bytes (Add ctx (Ed25519Key k)) = 2 # of_nat (length ctx) # of_nat (length k) # map of_nat ctx @ k"
| "entry_bytes (Add ctx OtherData) = [5, 0]"
| "entry_bytes (Remove i) = [3, of_nat (unat i)]"
| "entry_bytes (Unknown b) = [4, b]"

fun read_entries :: "nat \<Rightarrow> bytes \<Rightarrow> slog option" where
  "read_entries 0 b = None"
| "read_entries (Suc fuel) [] = Some []"
| "read_entries (Suc fuel) (op # b) =
     (if op = 3 then map_option ((#) (Remove (of_nat (unat (hd b))))) (read_entries fuel (tl b))
      else if op = 1 \<or> op = 2 then
        (let n = unat (hd b); m = unat (hd (tl b)); rest = drop 2 b; ctx = map unat (take n rest);
             d = take m (drop n rest) in
         map_option ((#) (Add ctx (if op = 1 then Text (map unat d) else Ed25519Key d)))
           (read_entries fuel (drop (n + m) rest)))
      else map_option ((#) (Unknown (hd b))) (read_entries fuel (tl b)))"

definition read_payload :: "bytes \<Rightarrow> slog option" where
  "read_payload b =
     (if take 17 b \<noteq> sample_domain then None
      else (case read_entries (length b) (drop 17 b) of
          None \<Rightarrow> None | Some l \<Rightarrow> if sound_log l then Some l else None))"

text \<open>What reads back as it was written: text of one-byte lengths and characters, small numbers.\<close>

definition byte_sized :: "AccountEntry \<Rightarrow> bool" where
  "byte_sized e \<longleftrightarrow> (case e of
     Add ctx (Text t) \<Rightarrow> length ctx < 256 \<and> length t < 256 \<and> list_all (\<lambda>c. c < 256) ctx \<and> list_all (\<lambda>c. c < 256) t
   | Add ctx (Ed25519Key k) \<Rightarrow> length ctx < 256 \<and> length k < 256 \<and> list_all (\<lambda>c. c < 256) ctx
   | Remove i \<Rightarrow> unat i < 256
   | _ \<Rightarrow> False)"

definition with_index :: "slog \<Rightarrow> indexed list" where
  "with_index l = map (\<lambda>(i, e). \<lparr>e_index = of_nat i, e_entry = e\<rparr>) (enumerate 0 l)"

definition is_live :: "slog \<Rightarrow> indexed \<Rightarrow> bool" where
  "is_live l i \<longleftrightarrow> \<not> is_revocation (e_entry i) \<and> Remove (e_index i) \<notin> set l"

definition live_of :: "slog \<Rightarrow> indexed list" where
  "live_of l = filter (is_live l) (with_index l)"

definition sample_max :: nat where "sample_max = 200"

definition sample_encode :: "slog \<Rightarrow> AccountLogError + bytes" where
  "sample_encode l =
     (let b = sample_domain @ concat (map entry_bytes l) in
      if \<not> list_all byte_sized l then Inl (OtherLogError (lit ''field too long''))
      else if length b \<le> sample_max then Inr b else Inl (TooLarge (length b)))"

definition sample_push :: "slog \<Rightarrow> AccountEntry \<Rightarrow> AccountLogError + slog" where
  "sample_push l e =
     (case e of
        Remove i \<Rightarrow> if list_ex (\<lambda>x. e_index x = i) (live_of l) then Inr (l @ [e]) else Inl (OtherLogError (lit ''not live''))
      | Add ctx (Ed25519Key k) \<Rightarrow>
          if k \<in> set (List.map_filter key_of_entry (live_of l)) then Inl (OtherLogError (lit ''key live twice'')) else Inr (l @ [e])
      | Unknown b \<Rightarrow> Inl (OtherLogError (lit ''unknown opcode''))
      | _ \<Rightarrow> Inr (l @ [e]))"

definition sample_fmt :: "(slog, slog) log_format" where
  "sample_fmt = \<lparr>
     entries_for = (\<lambda>l ctx. filter (\<lambda>i. context_of (e_entry i) = Some ctx) (live_of l)),
     encode = sample_encode, draft_new = [],
     from_log = (\<lambda>l. if list_ex (\<lambda>e. case e of Unknown b \<Rightarrow> True | _ \<Rightarrow> False) l
                     then Inl (OtherLogError (lit ''unknown opcode'')) else Inr l),
     push = sample_push, draft_log = (\<lambda>d. d), live_entries = live_of, entries = with_index,
     ACCOUNT_LOG_DOMAIN = sample_domain, MAX_PAYLOAD_BYTES = sample_max,
     SIGNER_CONTEXT = lit ''chat.signer'',
     log_error_text = (\<lambda>e. lit ''unknown opcode'')\<rparr>"

lemma sample_encode_law: "encode_law sample_fmt"
  by (auto simp: encode_law_def sample_fmt_def sample_encode_def Let_def split: if_splits)

section \<open>The account crate\<close>

type_synonym sresolver = "AccountAddr \<rightharpoonup> slog account_record"

definition sample_judge ::
  "sresolver \<Rightarrow> AccountAddr \<Rightarrow> StoreError + signed_log option \<Rightarrow> (StoreError AccountError + unit) \<times> sresolver" where
  "sample_judge r a x =
     (case x of
        Inl e \<Rightarrow> (Inl (Provider e), r)
      | Inr None \<Rightarrow> (Inr (), r)
      | Inr (Some log) \<Rightarrow>
          if AccountAddr (to_hex (signature log)) \<noteq> a
          then (Inl (Log (OtherLogError (lit ''bad signature''))), r)
          else (case read_payload (payload log) of
             None \<Rightarrow> (Inl (Log (OtherLogError (lit ''malformed''))), r)
           | Some l \<Rightarrow>
               (case r a of
                  Some held \<Rightarrow>
                    if prefix (payload (rec_signed held)) (payload log)
                    then (Inr (), r(a \<mapsto> \<lparr>rec_log = l, rec_signed = log\<rparr>)) else (Inl Forked, r)
                | None \<Rightarrow> (Inr (), r(a \<mapsto> \<lparr>rec_log = l, rec_signed = log\<rparr>)))))"

definition sample_build :: "SigningKey \<Rightarrow> signed_log option \<Rightarrow> AccountEntry list \<Rightarrow> AccountLogError + signed_log" where
  "sample_build k base es =
     (let b = (case base of None \<Rightarrow> sample_domain | Some l \<Rightarrow> payload l) in
      case read_payload b of
        None \<Rightarrow> Inl (OtherLogError (lit ''malformed''))
      | Some l \<Rightarrow>
          bind_res (push_all sample_fmt l es) (\<lambda>_.
            let p = b @ concat (map entry_bytes es) in
            if sample_max < length p then Inl (TooLarge (length p))
            else if read_payload p \<noteq> Some (l @ es) then Inl (OtherLogError (lit ''field too long''))
            else Inr \<lparr>payload = p, signature = k\<rparr>))"

definition sample_acct ::
  "(slog, sresolver, Written \<times> script world, script world, StoreError) account_crate" where
  "sample_acct = \<lparr>
     resolver_new = Map.empty,
     resolve = (\<lambda>fetch r a s. case fetch s a of (x, s') \<Rightarrow>
        (case sample_judge r a x of (res, r') \<Rightarrow> (res, r', s'))),
     resolver_get = (\<lambda>r. r),
     update_publish = (\<lambda>fetch publish k es w. case fetch w (addr_of sample_keys k) of
          (Inl e, w') \<Rightarrow> (Inl (Provider e), w')
        | (Inr base, w') \<Rightarrow>
            (case sample_build k base es of
               Inl e \<Rightarrow> (Inl (Log e), w')
             | Inr log \<Rightarrow> (case publish w' (addr_of sample_keys k) log of
                  (Inl e, w'') \<Rightarrow> (Inl (Provider e), w'') | (Inr u, w'') \<Rightarrow> (Inr log, w'')))),
     account_error_text = (\<lambda>e. lit ''account'')\<rparr>"

lemma sample_judge_laws: "judge_laws sample_acct sample_judge"
  by (auto simp: judge_laws_def sample_judge_def sample_acct_def split: sum.splits option.splits if_splits)

lemma sample_resolve_law: "resolve_law sample_acct"
  unfolding resolve_law_def using sample_judge_laws
  by (intro exI [of _ sample_judge]) (auto simp: sample_acct_def)

lemma sample_update_law: "update_law sample_keys sample_acct sample_build"
  by (simp add: update_law_def sample_acct_def)

text \<open>What a log says is what its payload reads as; a read log and a draft are their entries.\<close>

definition sample_says :: "signed_log \<Rightarrow> AccountEntry list" where
  "sample_says log = (case read_payload (payload log) of None \<Rightarrow> [] | Some l \<Rightarrow> l)"

lemma with_index_eq: "with_index l = numbered_from 0 l"
  by (simp add: with_index_def numbered_from_def)

lemma live_of_eq: "live_of l = live_in l"
proof -
  have "is_live l = not_revoked l" by (rule ext) (simp add: is_live_def not_revoked_def)
  then show ?thesis by (simp add: live_of_def live_in_def with_index_eq)
qed

lemma sample_push_Inr: "sample_push l e = Inr l' \<longleftrightarrow> appendable l e \<and> l' = l @ [e]"
  by (auto simp: sample_push_def appendable_def live_of_eq split: AccountEntry.split EntryData.split)

lemma entry_bytes_length: "0 < length (entry_bytes e)"
  by (cases e rule: entry_bytes.cases) simp_all

lemma codes_length: "length l \<le> length (concat (map entry_bytes l))"
proof (induction l)
  case (Cons e l)
  have "1 \<le> length (entry_bytes e)" using entry_bytes_length [of e] by linarith
  from add_mono [OF this Cons.IH] show ?case by simp
qed simp

lemma sample_log_laws: "log_laws sample_fmt (\<lambda>l. l) (\<lambda>l. l)"
proof -
  have "length l < 2 ^ 32" if "sample_encode l = Inr b" for l b
    using that codes_length [of l] by (auto simp: sample_encode_def Let_def sample_max_def split: if_splits)
  moreover have "(\<not> list_ex (\<lambda>e. case e of Unknown b \<Rightarrow> True | _ \<Rightarrow> False) l) = list_all known_entry l" for l
    by (auto simp: list_ex_iff list_all_iff known_entry_def split: AccountEntry.splits)
  ultimately show ?thesis
    by (auto simp: log_laws_def sample_fmt_def live_of_eq with_index_eq sample_push_Inr)
qed

lemma read_payload_sound: "read_payload b = Some l \<Longrightarrow> sound_log l"
  by (auto simp: read_payload_def split: if_splits option.splits)

lemma sample_judge_holds:
  "sample_judge r a x = (res, r') \<Longrightarrow>
     r' = r \<or> (\<exists>log l. read_payload (payload log) = Some l \<and> r' = r(a \<mapsto> \<lparr>rec_log = l, rec_signed = log\<rparr>))"
  by (auto simp: sample_judge_def split: sum.splits option.splits if_splits)

lemma sample_judge_carries:
  assumes "sample_judge r a x = (res, r')" and "all_carry sample_acct (\<lambda>l. l) sample_says r"
  shows "all_carry sample_acct (\<lambda>l. l) sample_says r'"
  using sample_judge_holds [OF assms(1)]
proof (elim disjE exE conjE)
  fix log l assume l: "read_payload (payload log) = Some l" and r': "r' = r(a \<mapsto> \<lparr>rec_log = l, rec_signed = log\<rparr>)"
  have "carries (\<lambda>l. l) sample_says \<lparr>rec_log = l, rec_signed = log\<rparr>"
    using l read_payload_sound [OF l] by (simp add: carries_def sample_says_def)
  then show ?thesis using assms(2) unfolding r' all_carry_def by (simp add: sample_acct_def)
qed (use assms(2) in simp)

lemma domain_read: "read_payload sample_domain = Some []"
proof -
  have "read_entries (length sample_domain) (drop 17 sample_domain) = Some []" and "take 17 sample_domain = sample_domain"
    by (simp_all add: sample_domain_def numeral_eq_Suc)
  then show ?thesis by (simp add: read_payload_def)
qed

lemma sample_build_Inr:
  assumes "sample_build k base es = Inr log"
  shows "sample_says log = (case base of None \<Rightarrow> [] | Some b \<Rightarrow> sample_says b) @ es"
proof -
  let ?b = "case base of None \<Rightarrow> sample_domain | Some l \<Rightarrow> payload l"
  obtain l where l: "read_payload ?b = Some l" and log: "read_payload (payload log) = Some (l @ es)"
    using assms by (cases "read_payload ?b") (auto simp: sample_build_def bind_res_Inr Let_def split: if_splits)
  have "l = (case base of None \<Rightarrow> [] | Some b \<Rightarrow> sample_says b)"
    using l domain_read by (cases base) (simp_all add: sample_says_def)
  then show ?thesis using log by (simp add: sample_says_def)
qed

lemma sample_content_laws: "content_laws sample_acct sample_build (\<lambda>l. l) sample_says"
proof -
  have r: "all_carry sample_acct (\<lambda>l. l) sample_says r'"
    if "resolve sample_acct fetch r a s = (res, r', s')" "all_carry sample_acct (\<lambda>l. l) sample_says r"
    for fetch r a s res r' s'
    using that sample_judge_carries [of r a "fst (fetch s a)" res r']
    by (simp add: sample_acct_def split: prod.splits)
  have n: "resolver_get sample_acct (resolver_new sample_acct) a = None" for a by (simp add: sample_acct_def)
  show ?thesis unfolding content_laws_def using n r sample_build_Inr by blast
qed

lemma byte_of_nat: "n < 256 \<Longrightarrow> unat (of_nat n :: byte) = n"
  by (simp add: unat_of_nat)

lemma map_byte_of_nat: "list_all (\<lambda>c. c < 256) t \<Longrightarrow> map (unat \<circ> (of_nat :: nat \<Rightarrow> byte)) t = t"
  by (induction t) (simp_all add: byte_of_nat)

lemma byte_index: "unat i < 256 \<Longrightarrow> ucast (ucast (i :: u32) :: byte) = i"
proof -
  assume "unat i < 256"
  then have "(of_nat (unat (of_nat (unat i) :: byte)) :: u32) = of_nat (unat i)" by (simp only: byte_of_nat)
  then show ?thesis by simp
qed

lemma read_sized_entry:
  "byte_sized e \<Longrightarrow> read_entries (Suc n) (entry_bytes e @ rest) = map_option ((#) e) (read_entries n rest)"
  by (cases e rule: entry_bytes.cases) (simp_all add: byte_sized_def byte_of_nat byte_index map_byte_of_nat Let_def)

lemma read_sized:
  "list_all byte_sized l \<Longrightarrow> length l < n \<Longrightarrow> read_entries n (concat (map entry_bytes l)) = Some l"
proof (induction l arbitrary: n)
  case Nil
  then show ?case by (cases n) simp_all
next
  case (Cons e l)
  then obtain m where n: "n = Suc m" by (cases n) simp_all
  have "byte_sized e" using Cons.prems(1) by simp
  from read_sized_entry [OF this] show ?case using Cons by (simp add: n)
qed

lemma sized_payload_reads:
  assumes "list_all byte_sized l" and "sound_log l"
  shows "read_payload (sample_domain @ concat (map entry_bytes l)) = Some l"
proof -
  let ?b = "concat (map entry_bytes l)"
  have d: "length sample_domain = 17" by (simp add: sample_domain_def)
  then have 1: "take 17 (sample_domain @ ?b) = sample_domain" and 2: "drop 17 (sample_domain @ ?b) = ?b"
    and 3: "length l < length (sample_domain @ ?b)" using codes_length [of l] by simp_all
  show ?thesis unfolding read_payload_def 1 2 using read_sized [OF assms(1) 3] assms(2) by simp
qed

text \<open>The account's own logs, spelled as the format spells them, are always adopted and extended.\<close>

definition sample_genuine :: "AccountAddr \<Rightarrow> signed_log \<Rightarrow> bool" where
  "sample_genuine a log \<longleftrightarrow> AccountAddr (to_hex (signature log)) = a
     \<and> (\<exists>l. payload log = sample_domain @ concat (map entry_bytes l) \<and> list_all byte_sized l \<and> sound_log l)"

lemma sample_genuine_says:
  "sample_genuine a log \<Longrightarrow> payload log = sample_domain @ concat (map entry_bytes (sample_says log))
     \<and> list_all byte_sized (sample_says log) \<and> sound_log (sample_says log) \<and> read_payload (payload log) = Some (sample_says log)"
  unfolding sample_genuine_def sample_says_def using sized_payload_reads by fastforce

lemma sample_build_answers:
  assumes "d = (case base of None \<Rightarrow> [] | Some l \<Rightarrow> sample_says l)"
    and "\<And>l. base = Some l \<Longrightarrow> sample_genuine (addr_of sample_keys k) l"
    and "push_all sample_fmt d es = Inr d'" and "sample_encode d' = Inr b"
  shows "\<exists>log. sample_build k base es = Inr log \<and> sample_genuine (addr_of sample_keys k) log
     \<and> (\<forall>l. base = Some l \<longrightarrow> prefix (payload l) (payload log))"
proof -
  let ?b = "case base of None \<Rightarrow> sample_domain | Some l \<Rightarrow> payload l"
  let ?p = "?b @ concat (map entry_bytes es)"
  have l: "?b = sample_domain @ concat (map entry_bytes d)" "sound_log d" "read_payload ?b = Some d"
    using assms(1,2) sample_genuine_says domain_read by (cases base; fastforce)+
  have d': "d' = d @ es" using push_all_appends [OF sample_log_laws assms(3)] by simp
  have e: "list_all byte_sized (d @ es)" "length ?p \<le> sample_max"
    using assms(4) l(1) by (auto simp: sample_encode_def d' Let_def split: if_splits)
  have "length (d @ es) < 2 ^ 32"
    using e(2) codes_length [of "d @ es"] l(1) by (simp add: sample_max_def)
  then have so: "sound_log (d @ es)" using push_all_sound [OF sample_log_laws assms(3) l(2)] by (simp add: d')
  have p: "?p = sample_domain @ concat (map entry_bytes (d @ es))" using l(1) by simp
  have r: "read_payload ?p = Some (d @ es)" unfolding p by (rule sized_payload_reads [OF e(1) so])
  have "sample_build k base es = Inr \<lparr>payload = ?p, signature = k\<rparr>"
    unfolding sample_build_def Let_def l(3) using assms(3) e(2) r by simp
  moreover have "sample_genuine (addr_of sample_keys k) \<lparr>payload = ?p, signature = k\<rparr>"
    unfolding sample_genuine_def using p e(1) so by (intro conjI exI [of _ "d @ es"]) (simp_all add: sample_keys_def)
  ultimately show ?thesis by auto
qed

lemma sample_answer_laws:
  "answer_laws sample_keys sample_fmt sample_acct sample_build sample_genuine (\<lambda>l. l) sample_says"
proof -
  have 1: "\<exists>r'. resolve sample_acct fetch r a s = (Inr (), r', s')"
    if "fetch s a = (Inr (Some log), s')" "sample_genuine a log"
      "\<forall>held. resolver_get sample_acct r a = Some held \<longrightarrow> prefix (payload (rec_signed held)) (payload log)"
    for fetch r a s log s'
    using that sample_genuine_says [OF that(2)]
    by (auto simp: sample_acct_def sample_judge_def sample_genuine_def split: option.split)
  have 2: "\<exists>r'. resolve sample_acct fetch r a s = (Inr (), r', s') \<and> resolver_get sample_acct r' a = None"
    if "fetch s a = (Inr None, s')" "resolver_get sample_acct r a = None" for fetch r a s s'
    using that by (simp add: sample_acct_def sample_judge_def)
  have f: "encode sample_fmt = sample_encode" "draft_log sample_fmt d = d" for d by (simp_all add: sample_fmt_def)
  show ?thesis unfolding answer_laws_def f
    by (intro conjI allI impI) (rule 1 2 sample_build_answers; blast)+
qed

section \<open>An app, and its core\<close>

type_synonym sapp = "(slog, slog, sresolver, script) app"
type_synonym score = "(sresolver, script) core"

definition sample_app :: sapp where
  "sample_app = \<lparr>vlt = sample_vault, obs = sample_observed, net_http = sample_http, fmt = sample_fmt,
     acct = sample_acct, made_up_key = replicate 32 9\<rparr>"

lemma sample_app_sel [simp]:
  "vlt sample_app = sample_vault" "obs sample_app = sample_observed" "net_http sample_app = sample_http"
  "fmt sample_app = sample_fmt" "acct sample_app = sample_acct"
  by (simp_all add: sample_app_def)

text \<open>A core over the memory store that holds one key in the clear; one sealed.\<close>

definition open_core :: score where
  "open_core = core_new sample_app open_disk (sample_world []) Memory"

definition sealed_core :: score where
  "sealed_core = core_new sample_app sealed_disk (sample_world []) Memory"

abbreviation one_addr :: AccountAddr where "one_addr \<equiv> addr_of sample_keys one_key"
abbreviation two_addr :: AccountAddr where "two_addr \<equiv> addr_of sample_keys two_key"

end
