(* ===== verification/Publish_Facts.thy ===== *)
theory Publish_Facts
  imports Core_Steps
begin

text \<open>
  A publish taken apart: the ways it can end, whose key signs it, what it writes and where,
  and what the read after it shows.
\<close>

section \<open>How a publish ends\<close>

lemma take_dropped_eq: "take_dropped a c = (dropped_for a c, c\<lparr>dropped := (dropped c)(a := None)\<rparr>)"
  by (simp add: take_dropped_def dropped_for_def)

definition first_new_of :: "('l, 'd, 'r, 'n) app \<Rightarrow> 'd option \<Rightarrow> u32" where
  "first_new_of X base = (case base of None \<Rightarrow> 0 | Some draft \<Rightarrow> of_nat (length (entries (fmt X) draft)))"

definition after_write :: "AccountAddr \<Rightarrow> signed_log \<Rightarrow> ('r, 'n) core \<Rightarrow> ('r, 'n) core" where
  "after_write a log c = c\<lparr>staged := (staged c)(a := None), written := Some (a, log)\<rparr>"

lemma after_write_sel [simp]:
  "disk (after_write a log c) = disk c" "outside (after_write a log c) = outside c"
  "store (after_write a log c) = store c" "resolver (after_write a log c) = resolver c"
  "read_of (after_write a log c) = read_of c" "dropped (after_write a log c) = dropped c"
  "unlocked (after_write a log c) = unlocked c" "written (after_write a log c) = Some (a, log)"
  "staged (after_write a log c) = (staged c)(a := None)"
  by (simp_all add: after_write_def)

lemma fits_extendable: "fits X a es c = Inr u \<Longrightarrow> \<exists>base. extendable X a c = Inr base"
  by (auto simp: fits_def bind_res_Inr)

inductive publish_staged_ends ::
  "('l, 'd, 'r, 'n) app \<Rightarrow> AccountAddr \<Rightarrow> SigningKey \<Rightarrow> StagedEdit list \<Rightarrow> ('r, 'n) core \<Rightarrow>
   CoreError + Published \<Rightarrow> ('r, 'n) core \<Rightarrow> bool" for X a key es c where
  refused: "fits X a es c = Inl e \<Longrightarrow> publish_staged_ends X a key es c (Inl e) c"
| unwritten: "fits X a es c = Inr () \<Longrightarrow> write_update X a key (planned_entries X a c) c = (Inl e, c') \<Longrightarrow>
    publish_staged_ends X a key es c (Inl e) c'"
| unread: "fits X a es c = Inr () \<Longrightarrow> write_update X a key (planned_entries X a c) c = (Inr log, c1) \<Longrightarrow>
    resolve_core X a (after_write a log c1) = (Inl e, c') \<Longrightarrow>
    publish_staged_ends X a key es c (Inl (Account e)) c'"
| published: "fits X a es c = Inr () \<Longrightarrow> extendable X a c = Inr base \<Longrightarrow>
    write_update X a key (planned_entries X a c) c = (Inr log, c1) \<Longrightarrow>
    resolve_core X a (after_write a log c1) = (Inr (), c2) \<Longrightarrow>
    publish_staged_ends X a key es c
      (Inr \<lparr>first_new_index = Some (first_new_of X base), pub_dropped = dropped_for a c2\<rparr>)
      (c2\<lparr>dropped := (dropped c2)(a := None)\<rparr>)"

lemma publish_staged_ends:
  assumes "publish_staged X a key es c = (r, c')"
  shows "publish_staged_ends X a key es c r c'"
proof (cases "fits X a es c")
  case (Inl e)
  then have "r = Inl e \<and> c' = c" using assms by (simp add: publish_staged_def and_then_def of_read_def)
  then show ?thesis using Inl by (simp add: publish_staged_ends.refused)
next
  case (Inr u)
  then have f: "fits X a es c = Inr ()" by simp
  obtain base where b: "extendable X a c = Inr base" using fits_extendable [OF f] by blast
  obtain q c1 where w: "write_update X a key (planned_entries X a c) c = (q, c1)" by fastforce
  show ?thesis
  proof (cases q)
    case (Inl e)
    then have "r = Inl e \<and> c' = c1"
      using assms f b w by (simp add: publish_staged_def and_then_def of_read_def Let_def)
    then show ?thesis using publish_staged_ends.unwritten f w Inl by blast
  next
    case (Inr log)
    obtain p c2 where p: "resolve_core X a (after_write a log c1) = (p, c2)" by fastforce
    show ?thesis
    proof (cases p)
      case (Inl e)
      then have "r = Inl (Account e) \<and> c' = c2"
        using assms f b w p Inr
        by (simp add: publish_staged_def and_then_def of_read_def Let_def map_err_op_def after_write_def)
      then show ?thesis using publish_staged_ends.unread f w p Inr Inl by blast
    next
      case (Inr v)
      then have "r = Inr \<lparr>first_new_index = Some (first_new_of X base), pub_dropped = dropped_for a c2\<rparr>
          \<and> c' = c2\<lparr>dropped := (dropped c2)(a := None)\<rparr>"
        using assms f b w p \<open>q = Inr log\<close>
        by (simp add: publish_staged_def and_then_def of_read_def Let_def map_err_op_def after_write_def
            take_dropped_eq first_new_of_def)
      then show ?thesis using publish_staged_ends.published f b w p Inr \<open>q = Inr log\<close> by fastforce
    qed
  qed
qed

inductive publish_ends ::
  "('l, 'd, 'r, 'n) app \<Rightarrow> AccountAddr \<Rightarrow> ('r, 'n) core \<Rightarrow> CoreError + Published \<Rightarrow> ('r, 'n) core \<Rightarrow> bool"
  for X a c where
  guarded: "publish_ends X a c (Inl e) c"
| unanswered: "read_store X a c = (Inl e, c') \<Longrightarrow> publish_ends X a c (Inl e) c'"
| not_needed: "read_store X a c = (Inr (), c1) \<Longrightarrow> staged c1 a = None \<Longrightarrow>
    publish_ends X a c (Inr \<lparr>first_new_index = None, pub_dropped = dropped_for a c1\<rparr>)
      (c1\<lparr>dropped := (dropped c1)(a := None)\<rparr>)"
| attempted: "manages X a c = Inr True \<Longrightarrow> signing_key X a c = Inr key \<Longrightarrow> read_store X a c = (Inr (), c1) \<Longrightarrow>
    staged c1 a = Some es \<Longrightarrow> publish_staged_ends X a key es c1 r c' \<Longrightarrow> publish_ends X a c r c'"

inductive_cases publish_ends_cases: "publish_ends X a c r c'"
inductive_cases publish_staged_ends_cases: "publish_staged_ends X a key es c r c'"

lemma publish_ends:
  assumes "publish X a c = (r, c')"
  shows "publish_ends X a c r c'"
proof (cases "require_managed X a c")
  case (Inl e)
  then show ?thesis using assms by (auto simp: publish_def and_then_def of_read_def intro: guarded)
next
  case (Inr u)
  then have m: "require_managed X a c = Inr ()" by simp
  show ?thesis
  proof (cases "staged_for a c = [] \<or> (\<exists>e. signing_key X a c = Inl e)")
    case True
    then have "\<exists>e. r = Inl e \<and> c' = c"
      using assms m by (cases "staged_for a c = []") (auto simp: publish_def and_then_def of_read_def)
    then show ?thesis by (auto intro: guarded)
  next
    case False
    then obtain key where k: "signing_key X a c = Inr key" and s: "staged_for a c \<noteq> []"
      by (cases "signing_key X a c") auto
    obtain q c1 where rs: "read_store X a c = (q, c1)" by fastforce
    show ?thesis
    proof (cases q)
      case (Inl e)
      then show ?thesis using assms m k s rs
        by (auto simp: publish_def and_then_def of_read_def intro: unanswered)
    next
      case (Inr v)
      then show ?thesis using assms m k s rs
        by (cases "staged c1 a")
          (auto simp: publish_def and_then_def of_read_def take_dropped_eq require_managed_Inr
            intro: not_needed attempted dest: publish_staged_ends)
    qed
  qed
qed

section \<open>Whose key signs, and what is written\<close>

lemma signing_key_addr: "keys_ok X c \<Longrightarrow> signing_key X a c = Inr k \<Longrightarrow> addr_of (vkeys (vlt X)) k = a"
  by (auto simp: signing_key_def keys_ok_def dest: vault_open_proof split: option.splits)

lemma write_update_eq:
  assumes "update_law (vkeys (vlt X)) (acct X) build" and "addr_of (vkeys (vlt X)) key = a"
  shows "write_update X a key es c =
    (case build key (map_option rec_signed (record_of X a c)) es of
       Inl e \<Rightarrow> (Inl (Account (Log e)), c)
     | Inr log \<Rightarrow>
         (case store_publish (net_http X) (store c) (outside c) a log of
            (Inl e, w) \<Rightarrow> (Inl (Account (Provider e)), c\<lparr>outside := w\<rparr>)
          | (Inr u, w) \<Rightarrow> (Inr log, c\<lparr>outside := w\<rparr>)))"
proof -
  note u = assms(1) [unfolded update_law_def, rule_format]
  show ?thesis
    unfolding write_update_def u extending_fetch_def extending_publish_def assms(2)
    by (simp split: sum.split prod.split)
qed

lemma write_update_Inl:
  assumes "update_law (vkeys (vlt X)) (acct X) build" and "addr_of (vkeys (vlt X)) key = a"
    and "write_update X a key es c = (Inl e, c')"
  shows "c' = c \<or> (\<exists>log e0. store_publish (net_http X) (store c) (outside c) a log = (Inl e0, outside c')
     \<and> c' = c\<lparr>outside := outside c'\<rparr>)"
  using assms(3) unfolding write_update_eq [OF assms(1,2)] by (fastforce split: sum.splits prod.splits)

lemma write_update_Inr:
  assumes "update_law (vkeys (vlt X)) (acct X) build" and "addr_of (vkeys (vlt X)) key = a"
    and "write_update X a key es c = (Inr log, c')"
  shows "build key (map_option rec_signed (record_of X a c)) es = Inr log"
    and "store_publish (net_http X) (store c) (outside c) a log = (Inr (), outside c')"
    and "c' = c\<lparr>outside := outside c'\<rparr>"
  using assms(3) unfolding write_update_eq [OF assms(1,2)] by (auto split: sum.splits prod.splits)

section \<open>Reads of the memory store\<close>

lemma resolve_core_memory:
  assumes "resolve_law (acct X)" and "store c = Memory" and "resolve_core X a c = (r, c')"
  shows "outside c' = outside c"
proof -
  obtain judge where j: "\<forall>a c. resolve_core X a c = judged X judge a c"
    using resolve_core_judged [OF assms(1)] by blast
  show ?thesis
    using assms(2,3) unfolding j [rule_format] judged_def read_back_fetch_eq Let_def
    by (auto simp: store_fetch_def mem_fetch_def split: option.splits)
qed

lemma read_store_via:
  assumes "read_store X a c = (r, c')"
  obtains q c1 where "resolve_core X a c = (q, c1)"
    and "c' = settle X a (answered_now a c1) \<or> (\<exists>p. c' = failed_now a p c1)"
  using assms by (cases r) (auto simp: read_store_Inr read_store_Inl)

lemma read_store_memory:
  assumes "resolve_law (acct X)" and "store c = Memory" and "read_store X a c = (r, c')"
  shows "outside c' = outside c"
proof -
  from read_store_via [OF assms(3)] obtain q c1 where 1: "resolve_core X a c = (q, c1)"
    and 2: "c' = settle X a (answered_now a c1) \<or> (\<exists>p. c' = failed_now a p c1)" by metis
  from 2 resolve_core_memory [OF assms(1,2) 1] show ?thesis by auto
qed

lemma read_store_sel:
  assumes "read_store X a c = (r, c')"
  shows "disk c' = disk c" and "store c' = store c" and "unlocked c' = unlocked c"
proof -
  from read_store_via [OF assms] obtain q c1 where 1: "resolve_core X a c = (q, c1)"
    and 2: "c' = settle X a (answered_now a c1) \<or> (\<exists>p. c' = failed_now a p c1)" by metis
  note s = resolve_core_sel [OF 1]
  from 2 s show "disk c' = disk c" "store c' = store c" "unlocked c' = unlocked c" by auto
qed

text \<open>The read after a write shows the log that was written.\<close>

lemma resolve_core_read_back:
  assumes "resolve_law (acct X)" and "written c = Some (a, log)" and "resolve_core X a c = (Inr (), c')"
  shows "\<exists>rec. resolver_get (acct X) (resolver c') a = Some rec \<and> rec_signed rec = log"
    and "outside c' = outside c"
proof -
  obtain judge where j: "judge_laws (acct X) judge" "\<forall>a c. resolve_core X a c = judged X judge a c"
    using resolve_core_judged [OF assms(1)] by blast
  have f: "read_back_fetch (net_http X) (store c) (written c, outside c) a = (Inr (Some log), (None, outside c))"
    by (simp add: read_back_fetch_eq assms(2) written_take_own)
  from assms(3) have q: "judge (resolver c) a (Inr (Some log)) = (Inr (), resolver c')" "outside c' = outside c"
    unfolding j(2) [rule_format] judged_def f Let_def by (auto simp: prod_eq_iff)
  then show "outside c' = outside c" by simp
  show "\<exists>rec. resolver_get (acct X) (resolver c') a = Some rec \<and> rec_signed rec = log"
    using j(1) q(1) unfolding judge_laws_def by blast
qed

lemma answered_fields: "read_of c' = read_of c \<Longrightarrow> answered a c' = answered a c"
  by (simp add: answered_def read_at_def)

lemma record_of_fields:
  "resolver c' = resolver c \<Longrightarrow> read_of c' = read_of c \<Longrightarrow> record_of X a c' = record_of X a c"
  using answered_fields [of c' c a] by (simp add: record_of_def split: option.split)

lemma record_of_answered: "answered a c \<Longrightarrow> record_of X a c = resolver_get (acct X) (resolver c) a"
  by (auto simp: record_of_def split: option.splits)

lemma read_store_answered: "read_store X a c = (Inr u, c') \<Longrightarrow> answered a c'"
  by (auto simp: read_store_Inr answered_def read_at_def answered_now_def)

lemma read_store_staged:
  assumes "read_store X a c = (Inr u, c')"
  shows "\<exists>P. staged_for a c' = filter P (staged_for a c)"
proof -
  obtain c1 where 1: "resolve_core X a c = (Inr (), c1)" and 2: "c' = settle X a (answered_now a c1)"
    using assms by (auto simp: read_store_Inr)
  have "staged_for a c1 = staged_for a c" using resolve_core_sel(4) [OF 1] by (simp add: staged_for_def)
  then show ?thesis unfolding 2 settle_staged_for by auto
qed

lemma read_store_Inl_staged:
  assumes "read_store X a c = (Inl e, c')"
  shows "staged c' = staged c" and "dropped c' = dropped c"
proof -
  obtain q c1 where 1: "resolve_core X a c = (q, c1)" and 2: "\<exists>p. c' = failed_now a p c1"
    using assms by (auto simp: read_store_Inl)
  note s = resolve_core_sel [OF 1]
  from 2 s show "staged c' = staged c" "dropped c' = dropped c" by auto
qed

section \<open>What a publish writes\<close>

text \<open>The two ways the store's log changes, from the core the read left.\<close>

lemma write_update_memory_Inl:
  assumes "update_law (vkeys (vlt X)) (acct X) build" and "addr_of (vkeys (vlt X)) key = a"
    and "store c = Memory" and "write_update X a key es c = (Inl e, c')"
  shows "c' = c"
proof -
  from write_update_Inl [OF assms(1,2,4)] consider "c' = c"
    | log e0 where "store_publish (net_http X) Memory (outside c) a log = (Inl e0, outside c')"
        "c' = c\<lparr>outside := outside c'\<rparr>" using assms(3) by auto
  then show ?thesis
  proof cases
    case 1
    then show ?thesis .
  next
    case (2 log e0)
    then have "outside c' = outside c" using memory_store.publish_refused [OF 2(1)] by simp
    with 2(2) show ?thesis by simp
  qed
qed

lemma publish_staged_memory:
  assumes "publish_staged_ends X a key es c r c'" and "resolve_law (acct X)"
    and "update_law (vkeys (vlt X)) (acct X) build" and "addr_of (vkeys (vlt X)) key = a"
    and "store c = Memory" and "answered a c"
  shows "(c' = c \<and> (\<exists>e. r = Inl e))
    \<or> (\<exists>log. mem_held (mem (outside c')) = (mem_held (mem (outside c)))(a \<mapsto> log) \<and> staged_for a c' = []
        \<and> (\<forall>old. mem_held (mem (outside c)) a = Some old \<longrightarrow> prefix (payload old) (payload log))
        \<and> (\<forall>p. r = Inr p \<longrightarrow> (\<exists>rec. record_of X a c' = Some rec \<and> rec_signed rec = log)))"
  using assms(1)
proof cases
  case (refused e)
  then show ?thesis by simp
next
  case (unwritten e)
  then show ?thesis using write_update_memory_Inl [OF assms(3-5)] by blast
next
  case (unread log c1 e)
  note w = write_update_Inr [OF assms(3,4) unread(3)]
  have s: "store (after_write a log c1) = Memory" using w(3) assms(5) by (metis after_write_sel(3) core.surjective core.update_convs(2) core.select_convs(3))
  have "outside c' = outside c1" using resolve_core_memory [OF assms(2) s unread(4)] by simp
  moreover have "staged c' a = None" using resolve_core_sel(4) [OF unread(4)] by simp
  ultimately show ?thesis
    using memory_store.publish_taken [of "net_http X" "outside c" a log "()" "outside c1"] w(2) assms(5) unread(1)
    by (auto simp: staged_for_def)
next
  case (published base log c1 c2)
  note w = write_update_Inr [OF assms(3,4) published(5)]
  note b = resolve_core_read_back [OF assms(2) _ published(6)]
  have o: "outside c2 = outside c1" using b(2) by simp
  have "read_of c2 = read_of c" using resolve_core_sel(3) [OF published(6)] w(3)
    by (metis after_write_sel(5) core.surjective core.update_convs(2) core.select_convs(6))
  then have an: "answered a c2" using assms(6) answered_fields by blast
  have "staged c2 a = None" using resolve_core_sel(4) [OF published(6)] by simp
  moreover obtain rec where "record_of X a c2 = Some rec" "rec_signed rec = log"
    using b(1) record_of_answered [OF an, of X] by auto
  moreover have "record_of X a c' = record_of X a c2"
    unfolding published(2) by (rule record_of_fields) simp_all
  ultimately show ?thesis
    using memory_store.publish_taken [of "net_http X" "outside c" a log "()" "outside c1"] w(2) assms(5) o published(2)
    by (auto simp: staged_for_def)
qed

lemma publish_memory:
  assumes "publish_ends X a c r c'" and "resolve_law (acct X)"
    and "update_law (vkeys (vlt X)) (acct X) build" and "keys_ok X c" and "store c = Memory"
  shows "(\<forall>b. b \<noteq> a \<longrightarrow> mem_held (mem (outside c')) b = mem_held (mem (outside c)) b)
    \<and> ((mem (outside c') = mem (outside c) \<and> (\<exists>P. staged_for a c' = filter P (staged_for a c))
          \<and> (\<forall>p. r = Inr p \<longrightarrow> first_new_index p = None))
       \<or> (\<exists>log. mem_held (mem (outside c')) a = Some log \<and> staged_for a c' = []
          \<and> (\<forall>old. mem_held (mem (outside c)) a = Some old \<longrightarrow> prefix (payload old) (payload log))
          \<and> (\<forall>p. r = Inr p \<longrightarrow> (\<exists>rec. record_of X a c' = Some rec \<and> rec_signed rec = log))))"
  using assms(1)
proof cases
  case (guarded e)
  then show ?thesis by (auto intro: exI [of _ "\<lambda>_. True"])
next
  case (unanswered e)
  have "staged_for a c' = filter (\<lambda>_. True) (staged_for a c)"
    using read_store_Inl_staged(1) [OF unanswered(2)] by (simp add: staged_for_def)
  then have "\<exists>P. staged_for a c' = filter P (staged_for a c)" by (rule exI [of _ "\<lambda>_. True"])
  then show ?thesis using read_store_memory [OF assms(2,5) unanswered(2)] unanswered(1) by simp
next
  case (not_needed c1)
  have "staged_for a c' = filter (\<lambda>_. False) (staged_for a c)"
    using not_needed by (simp add: staged_for_def)
  then have "\<exists>P. staged_for a c' = filter P (staged_for a c)" by (rule exI [of _ "\<lambda>_. False"])
  then show ?thesis using read_store_memory [OF assms(2,5) not_needed(3)] not_needed(1,2) by simp
next
  case (attempted key c1 es)
  have k: "addr_of (vkeys (vlt X)) key = a" by (rule signing_key_addr [OF assms(4) attempted(2)])
  have s: "store c1 = Memory" using read_store_sel(2) [OF attempted(3)] assms(5) by simp
  have o: "outside c1 = outside c" by (rule read_store_memory [OF assms(2,5) attempted(3)])
  obtain P where P: "staged_for a c1 = filter P (staged_for a c)" using read_store_staged [OF attempted(3)] by blast
  from publish_staged_memory [OF attempted(5) assms(2,3) k s read_store_answered [OF attempted(3)]]
  show ?thesis using o P by (elim disjE exE conjE) auto
qed

text \<open>The same on any store, for a publish that reports new entries.\<close>

lemma publish_staged_written:
  assumes "publish_staged_ends X a key es c (Inr p) c'" and "resolve_law (acct X)"
    and "update_law (vkeys (vlt X)) (acct X) build" and "addr_of (vkeys (vlt X)) key = a"
    and "answered a c" and "problem a c = None"
  shows "\<exists>w log rec. build key (map_option rec_signed (record_of X a c)) (planned_entries X a c) = Inr log
    \<and> store_publish (net_http X) (store c) w a log = (Inr (), outside c')
    \<and> record_of X a c' = Some rec \<and> rec_signed rec = log \<and> staged_for a c' = [] \<and> problem a c' = None"
  using assms(1)
proof cases
  case (published base log c1 c2)
  note w = write_update_Inr [OF assms(3,4) published(5)]
  note b = resolve_core_read_back [OF assms(2) _ published(6)]
  have "read_of c1 = read_of c" by (subst w(3)) simp
  then have rd: "read_of c2 = read_of c" using resolve_core_sel(3) [OF published(6)] by simp
  have an: "answered a c2" using assms(5) answered_fields [OF rd] by simp
  obtain rec where rec: "record_of X a c2 = Some rec" "rec_signed rec = log"
    using b(1) record_of_answered [OF an, of X] by auto
  have r: "record_of X a c' = record_of X a c2"
    unfolding published(2) by (rule record_of_fields) simp_all
  have o: "outside c' = outside c1" using b(2) published(2) by simp
  have "staged c' a = None" using resolve_core_sel(4) [OF published(6)] published(2) by simp
  moreover have "problem a c' = None" using rd assms(6) published(2) by (simp add: problem_def)
  ultimately show ?thesis using w(1,2) rec r o by (auto simp: staged_for_def)
qed

lemma publish_written:
  assumes "publish_ends X a c r c'" and "resolve_law (acct X)"
    and "update_law (vkeys (vlt X)) (acct X) build" and "keys_ok X c"
    and "r = Inr p" and "first_new_index p = Some i"
  shows "\<exists>key c1 w log rec. addr_of (vkeys (vlt X)) key = a \<and> read_store X a c = (Inr (), c1)
    \<and> build key (map_option rec_signed (record_of X a c1)) (planned_entries X a c1) = Inr log
    \<and> store_publish (net_http X) (store c) w a log = (Inr (), outside c')
    \<and> record_of X a c' = Some rec \<and> rec_signed rec = log
    \<and> staged_for a c' = [] \<and> problem a c' = None"
  using assms(1)
proof cases
  case (attempted key c1 es)
  have k: "addr_of (vkeys (vlt X)) key = a" by (rule signing_key_addr [OF assms(4) attempted(2)])
  have p: "problem a c1 = None"
    using attempted(3) by (auto simp: read_store_Inr problem_def answered_now_def)
  have "publish_staged_ends X a key es c1 (Inr p) c'" using attempted(5) assms(5) by simp
  from publish_staged_written [OF this assms(2,3) k read_store_answered [OF attempted(3)] p]
  show ?thesis using k attempted(3) read_store_sel(2) [OF attempted(3)] by metis
qed (use assms(5,6) in auto)

section \<open>What a refresh does to the edits and the copies\<close>

lemma refresh_cases:
  assumes "refresh X a c = (r, c')"
  obtains (guarded) e where "r = Inl e" and "c' = c" and "require_known X a c = Inl e"
  | (failed) e c1 where "r = Inl (Account e)" and "resolve_core X a c = (Inl e, c1)"
      and "c' = failed_now a (ReadProblem_of e) c1"
  | (settled) c1 c2 where "resolve_core X a c = (Inr (), c1)" and "c2 = settle X a (answered_now a c1)"
      and "r = Inr (dropped_for a c2)" and "c' = c2\<lparr>dropped := (dropped c2)(a := None)\<rparr>"
proof (cases "require_known X a c")
  case (Inl e)
  then have "r = Inl e" "c' = c" using assms by (simp_all add: refresh_def and_then_def of_read_def)
  then show ?thesis using that(1) Inl by blast
next
  case (Inr u)
  obtain q c2 where q: "read_store X a c = (q, c2)" by fastforce
  show ?thesis
  proof (cases q)
    case (Inl e)
    then have "r = Inl e" "c' = c2" using assms Inr q by (simp_all add: refresh_def and_then_def of_read_def)
    then show ?thesis using q Inl that(2) by (auto simp: read_store_Inl)
  next
    case (Inr v)
    then have "r = Inr (dropped_for a c2)" "c' = c2\<lparr>dropped := (dropped c2)(a := None)\<rparr>"
      using assms \<open>require_known X a c = Inr u\<close> q
      by (simp_all add: refresh_def and_then_def of_read_def take_dropped_eq)
    then show ?thesis using q Inr that(3) by (auto simp: read_store_Inr)
  qed
qed

lemma counts_fields:
  "staged c' = staged c \<Longrightarrow> staged_for a c' = staged_for a c"
  "dropped c' = dropped c \<Longrightarrow> dropped_for a c' = dropped_for a c"
  by (simp_all add: staged_for_def dropped_for_def)

lemma refresh_counts:
  assumes "refresh X a c = (r, c')"
  shows "(\<forall>n. r = Inr n \<longrightarrow> n + length (staged_for a c') = dropped_for a c + length (staged_for a c) \<and> dropped_for a c' = 0
          \<and> (\<exists>P. staged_for a c' = filter P (staged_for a c)))
    \<and> (\<not> is_ok r \<longrightarrow> staged c' = staged c \<and> dropped c' = dropped c)
    \<and> (\<forall>b. b \<noteq> a \<longrightarrow> staged_for b c' = staged_for b c \<and> dropped_for b c' = dropped_for b c)"
  using assms
proof (cases rule: refresh_cases)
  case (guarded e)
  then show ?thesis by simp
next
  case (failed e c1)
  note s = resolve_core_sel [OF failed(2)]
  have e: "staged c' = staged c" "dropped c' = dropped c" using s(4,5) failed(3) by simp_all
  show ?thesis using failed(1) e counts_fields(1) [OF e(1)] counts_fields(2) [OF e(2)] by simp
next
  case (settled c1 c2)
  note s = resolve_core_sel [OF settled(1)]
  let ?c1 = "answered_now a c1"
  have 1: "staged_for b ?c1 = staged_for b c" "dropped_for b ?c1 = dropped_for b c" for b
    using counts_fields(1) [OF s(4)] counts_fields(2) [OF s(5)] by simp_all
  have 2: "staged_for b c' = staged_for b c2" for b using settled(4) by (simp add: staged_for_def)
  have 3: "dropped_for a c' = 0" using settled(4) by (simp add: dropped_for_def)
  have 4: "dropped_for b c' = dropped_for b c2" if "b \<noteq> a" for b using settled(4) that by (simp add: dropped_for_def)
  have 5: "staged_for b c2 = staged_for b c" "dropped_for b c2 = dropped_for b c" if "b \<noteq> a" for b
    using settle_other [OF that, of X ?c1] 1 [of b] settled(2) by (simp_all add: staged_for_def dropped_for_def)
  have "\<exists>P. staged_for a c' = filter P (staged_for a c)"
    unfolding 2 settled(2) settle_staged_for 1 by (rule exI [of _ "needed_now X a ?c1"]) simp
  moreover have "\<forall>b. b \<noteq> a \<longrightarrow> staged_for b c' = staged_for b c \<and> dropped_for b c' = dropped_for b c"
  proof (intro allI impI conjI)
    fix b assume b: "b \<noteq> a"
    show "staged_for b c' = staged_for b c" using 2 5(1) [OF b] by simp
    show "dropped_for b c' = dropped_for b c" using 4 [OF b] 5(2) [OF b] by simp
  qed
  moreover have "dropped_for a c2 + length (staged_for a c') = dropped_for a c + length (staged_for a c)"
    using settle_dropped_for [of a X ?c1] unfolding 1 2 settled(2) .
  ultimately show ?thesis unfolding settled(3) using 3 by simp
qed

lemma resolve_core_failed:
  assumes "resolve_law (acct X)" and "resolve_core X a c = (Inl e, c')"
  shows "resolver_get (acct X) (resolver c') = resolver_get (acct X) (resolver c)"
proof -
  obtain judge where j: "judge_laws (acct X) judge" "\<forall>a c. resolve_core X a c = judged X judge a c"
    using resolve_core_judged [OF assms(1)] by blast
  from assms(2) obtain x where "judge (resolver c) a x = (Inl e, resolver c')"
    unfolding j(2) [rule_format] judged_def Let_def by (auto simp: prod_eq_iff)
  then show ?thesis using j(1) unfolding judge_laws_def by blast
qed

lemma refresh_copies:
  assumes "resolve_law (acct X)" and "refresh X a c = (r, c')"
  shows "(\<forall>e. r = Inl (Account e) \<longrightarrow> problem a c' = Some (ReadProblem_of e)
            \<and> (\<forall>b. record_of X b c' = record_of X b c \<and> read_at b c' = read_at b c))
    \<and> (is_ok r \<longrightarrow> problem a c' = None \<and> read_at a c' = Some (now (outside c')))
    \<and> disk c' = disk c \<and> unlocked c' = unlocked c"
  using assms(2)
proof (cases rule: refresh_cases)
  case (guarded e)
  have "e \<noteq> Account x" for x
    using guarded(3)
    by (auto simp: require_known_def manages_def observes_def bind_res_def map_err_def split: sum.splits if_splits)
  then show ?thesis using guarded by simp
next
  case (failed e c1)
  note s = resolve_core_sel [OF failed(2)]
  have g: "resolver_get (acct X) (resolver c') = resolver_get (acct X) (resolver c)"
    using resolve_core_failed [OF assms(1) failed(2)] failed(3) by simp
  have ra: "read_at b c' = read_at b c" for b
    using s(3) failed(3) by (simp add: read_at_def [of b c1] read_at_def [of b c])
  then have "record_of X b c' = record_of X b c" for b
    by (simp add: record_of_def g answered_def split: option.split)
  then show ?thesis using failed s ra by simp
next
  case (settled c1 c2)
  note s = resolve_core_sel [OF settled(1)]
  have "read_of c' = read_of (answered_now a c1)" using settled(2,4) by simp
  then have "problem a c' = None" "read_at a c' = Some (now (outside c1))"
    by (simp_all add: problem_def read_at_def answered_now_def)
  then show ?thesis using settled s by simp
qed

section \<open>What staging adds\<close>

lemma extendable_Inr:
  "extendable X a c = Inr base \<longleftrightarrow>
     (case record_of X a c of None \<Rightarrow> base = None
      | Some rec \<Rightarrow> (\<exists>d. from_log (fmt X) (rec_log rec) = Inr d \<and> base = Some d))"
  by (auto simp: extendable_def split: option.splits sum.splits)

lemma needed_nowI:
  assumes "extendable X a c = Inr base"
    and "\<And>rec d. record_of X a c = Some rec \<Longrightarrow> base = Some d \<Longrightarrow>
      still_needed (live_entries (fmt X) d) (live_keys (fmt X) d) (live_display_name (fmt X) (rec_log rec)) s"
  shows "needed_now X a c s"
  using assms by (auto simp: extendable_Inr needed_now_def split: option.splits)

lemma stage_needed:
  assumes "stage X a cmd c = (Inr u, c')" and "s \<in> set (staged_for a c')" and "s \<notin> set (staged_for a c)"
  shows "needed_now X a c s"
proof (cases cmd)
  case (StageInstallation t)
  with assms(1) obtain k base where b: "extendable X a c = Inr base"
    and n: "\<not> (case base of None \<Rightarrow> False | Some d \<Rightarrow> k \<in> set (live_keys (fmt X) d))"
    and c': "c' = with_staged a (staged_for a c @ [AddInstallation k]) c"
    by (auto simp: stage_add_installation_def core_ops Let_def split: if_splits)
  from c' assms(2,3) have "s = AddInstallation k" by simp
  then show ?thesis using n by (auto intro!: needed_nowI [OF b] simp: still_needed_def)
next
  case (StageName t)
  let ?others = "filter (\<lambda>s. \<not> is_name_edit s) (staged_for a c)"
  from assms(1) StageName obtain n base where b: "extendable X a c = Inr base"
    and c': "c' = with_staged a ?others c \<or> live_name X a c \<noteq> Some n \<and> c' = with_staged a (?others @ [SetDisplayName n]) c"
    by (auto simp: stage_set_display_name_def core_ops Let_def split: if_splits)
  from c' assms(2,3) have "s = SetDisplayName n" "live_name X a c \<noteq> Some n" by auto
  then show ?thesis by (auto intro!: needed_nowI [OF b] simp: still_needed_def live_name_def)
next
  case (StageRevoke i)
  with assms(1) obtain d where b: "extendable X a c = Inr (Some d)"
    and l: "list_ex (\<lambda>e. e_index e = i) (live_entries (fmt X) d)"
    and c': "c' = with_staged a (staged_for a c @ [Revoke i]) c"
    by (auto simp: stage_revoke_def core_ops Let_def split: if_splits option.splits)
  from c' assms(2,3) have "s = Revoke i" by simp
  then show ?thesis using l by (auto intro!: needed_nowI [OF b] simp: still_needed_def)
qed

end
