(* ===== verification/Sample_Runs.thy ===== *)
theory Sample_Runs
  imports Sample_Core Publish_Facts
begin

text \<open>
  Runs of the sample app, computed step by step for the witnesses: what the vault answers is
  taken from the vault's own theorems, the rest is evaluated.
\<close>

lemma sample_cores [simp]:
  "disk open_core = open_disk" "outside open_core = sample_world []" "store open_core = Memory"
  "resolver open_core = Map.empty" "written open_core = None" "read_of open_core = Map.empty"
  "staged open_core = Map.empty" "dropped open_core = Map.empty" "unlocked open_core = Map.empty"
  "disk sealed_core = sealed_disk" "outside sealed_core = sample_world []" "store sealed_core = Memory"
  "resolver sealed_core = Map.empty" "written sealed_core = None" "read_of sealed_core = Map.empty"
  "staged sealed_core = Map.empty" "dropped sealed_core = Map.empty" "unlocked sealed_core = Map.empty"
  by (simp_all add: open_core_def sealed_core_def core_new_def sample_acct_def)

lemma manages_held:
  assumes "addr_laws (vkeys (vlt X))" and "vault_ok (vkeys (vlt X)) (disk c)"
  shows "manages X a c = Inr (vault_held (vkeys (vlt X)) (disk c) a \<noteq> None)"
proof -
  obtain hs where hs: "vault_accounts (vlt X) (disk c) = Inr hs"
    using vault_accounts_total [OF assms] by blast
  show ?thesis
    using vault_accounts_addrs [OF assms hs, of a]
    by (auto simp: manages_def hs list_ex_addr vault_held_None)
qed

lemma sample_held [simp]:
  "vault_held sample_keys open_disk one_addr = Some False" "vault_held sample_keys sealed_disk two_addr = Some True"
  using vault_held_Some [OF sample_disks_ok(1), THEN iffD2, OF sample_disks_held(1)]
    vault_held_Some [OF sample_disks_ok(2), THEN iffD2, OF sample_disks_held(2)] by simp_all

lemma sample_manages [simp]:
  "disk c = open_disk \<Longrightarrow> manages sample_app one_addr c = Inr True"
  "disk c = sealed_disk \<Longrightarrow> manages sample_app two_addr c = Inr True"
  by (simp_all add: manages_held sample_addr_laws sample_disks_ok)

lemma sample_opens:
  "vault_open sample_vault one_addr None open_disk = Inr one_key"
  "vault_open sample_vault two_addr (Some sample_password) sealed_disk = Inr two_key"
  using create_open_roundtrip [OF _ _ sample_open_json_law sample_keystore_law _ _ open_disk_created]
    create_open_roundtrip [OF _ _ sample_open_json_law sample_keystore_law _ _ sealed_disk_created]
  by (simp_all add: sample_addr_laws sample_hex_laws)

lemma sample_disk_observed: "observed_list sample_observed open_disk = Inr []"
proof -
  have "observed_list sample_observed new_disk = Inr []" by (simp add: observed_list_def read_to_string_def)
  then show ?thesis
    using create_observed_list [of sample_vault one_key sample_observed None 0 new_disk]
    by (simp add: sample_addr_laws open_disk_def)
qed

lemma two_not_one: "two_addr \<noteq> one_addr"
proof
  assume "two_addr = one_addr"
  then have "to_hex two_key = to_hex one_key" by (simp add: sample_keys_def)
  then have "of_hex (to_hex two_key) = of_hex (to_hex one_key)" by simp
  then show False by (simp add: one_key_def two_key_def)
qed

lemma two_not_held: "vault_held sample_keys open_disk two_addr = None"
proof -
  have "vault_held sample_keys open_disk = (vault_held sample_keys new_disk)(one_addr \<mapsto> False)"
    using vault.insert_done [OF _ _ open_disk_created] by (simp add: sample_addr_laws)
  then show ?thesis using two_not_one by simp
qed

text \<open>A name staged on the open core, and the core after it is published.\<close>

definition saro :: rstr where "saro = lit ''Saro''"

definition named_core :: score where
  "named_core = with_staged one_addr [SetDisplayName saro] open_core"

definition saro_log :: signed_log where
  "saro_log = \<lparr>payload = sample_domain @ entry_bytes (Add DISPLAY_NAME_CONTEXT (Text saro)), signature = one_key\<rparr>"

lemma saro_name: "display_name saro = Inr saro"
  by (simp add: display_name_def saro_def lit_def trim_def trim_start_by_def trim_end_by_def is_whitespace_def
      moves_text_def is_control_def invisible_def str_len_def utf8_len_def MAX_DISPLAY_NAME_BYTES_def)

text \<open>A log signed with the first key.\<close>

definition own_log :: "slog \<Rightarrow> signed_log" where
  "own_log l = \<lparr>payload = sample_domain @ concat (map entry_bytes l), signature = one_key\<rparr>"

lemma own_read:
  assumes "list_all byte_sized l" and "sound_log l"
  shows "read_payload (payload (own_log l)) = Some l"
  using sized_payload_reads [OF assms] by (simp add: own_log_def)

lemma saro_codes: "length saro < 256" "list_all (\<lambda>c. c < 256) saro"
  "length DISPLAY_NAME_CONTEXT < 256" "list_all (\<lambda>c. c < 256) DISPLAY_NAME_CONTEXT"
  by (simp_all add: saro_def DISPLAY_NAME_CONTEXT_def lit_def)

lemma saro_read: "read_payload (payload saro_log) = Some [Add DISPLAY_NAME_CONTEXT (Text saro)]"
proof -
  have "saro_log = own_log [Add DISPLAY_NAME_CONTEXT (Text saro)]" by (simp add: saro_log_def own_log_def)
  then show ?thesis using own_read [of "[Add DISPLAY_NAME_CONTEXT (Text saro)]"] saro_codes by (simp add: byte_sized_def)
qed

lemma saro_length: "length (sample_domain @ entry_bytes (Add DISPLAY_NAME_CONTEXT (Text saro))) \<le> sample_max"
  by (simp add: saro_def lit_def DISPLAY_NAME_CONTEXT_def sample_domain_def sample_max_def)

lemma saro_built: "sample_build one_key None [Add DISPLAY_NAME_CONTEXT (Text saro)] = Inr saro_log"
  using domain_read saro_read saro_length by (simp add: sample_build_def sample_fmt_def sample_push_def saro_log_def)

lemma saro_encodes: "\<exists>b. sample_encode [Add DISPLAY_NAME_CONTEXT (Text saro)] = Inr b"
  by (simp add: sample_encode_def byte_sized_def saro_def lit_def DISPLAY_NAME_CONTEXT_def sample_domain_def sample_max_def)

lemma sample_resolve: "resolve_core sample_app a c = judged sample_app sample_judge a c"
  by (simp add: resolve_core_def judged_def Let_def sample_acct_def split: prod.split)

lemma sample_resolve_empty:
  "store c = Memory \<Longrightarrow> mem (outside c) = [] \<Longrightarrow> written c = None \<Longrightarrow> resolve_core sample_app a c = (Inr (), c)"
  by (simp add: sample_resolve judged_def read_back_fetch_eq store_fetch_def mem_fetch_def mem_held_def sample_judge_def)

lemma sample_record_of [simp]:
  "record_of sample_app a c = (if answered a c then resolver c a else None)"
  by (auto simp: record_of_def sample_acct_def split: option.split)

lemma sample_fmt_sel [simp]:
  "draft_new sample_fmt = []" "push sample_fmt = sample_push" "encode sample_fmt = sample_encode"
  "draft_log sample_fmt d = d" "entries sample_fmt = with_index" "live_entries sample_fmt = live_of"
  by (simp_all add: sample_fmt_def)

lemma named_sel [simp]:
  "disk named_core = open_disk" "outside named_core = sample_world []" "store named_core = Memory"
  "resolver named_core = Map.empty" "written named_core = None" "read_of named_core = Map.empty"
  "staged named_core = [one_addr \<mapsto> [SetDisplayName saro]]" "dropped named_core = Map.empty"
  "unlocked named_core = Map.empty"
  by (simp_all add: named_core_def)

lemma saro_plan: "plan sample_fmt [SetDisplayName saro] = [Add DISPLAY_NAME_CONTEXT (Text saro)]"
  by (simp add: plan_def revocation_of_def addition_of_def List.map_filter_simps)

lemma saro_fits: "resolver c = Map.empty \<Longrightarrow> fits sample_app one_addr [SetDisplayName saro] c = Inr ()"
  using saro_encodes by (auto simp: fits_def extendable_def saro_plan sample_push_def)

definition read_core :: score where
  "read_core = answered_now one_addr named_core"

lemma named_read: "read_store sample_app one_addr named_core = (Inr (), read_core)"
  by (simp add: read_store_Inr sample_resolve_empty sample_world_def read_core_def settle_def)

lemma read_core_sel [simp]:
  "disk read_core = open_disk" "outside read_core = sample_world []" "store read_core = Memory"
  "resolver read_core = Map.empty" "written read_core = None"
  "staged read_core = [one_addr \<mapsto> [SetDisplayName saro]]" "dropped read_core = Map.empty"
  "unlocked read_core = Map.empty"
  by (simp_all add: read_core_def)

lemma named_signs: "signing_key sample_app one_addr named_core = Inr one_key"
  by (simp add: signing_key_def sample_opens)

definition written_core :: score where
  "written_core = read_core\<lparr>outside := (sample_world [])\<lparr>mem := [(one_addr, saro_log)]\<rparr>\<rparr>"

lemma named_writes:
  "write_update sample_app one_addr one_key [Add DISPLAY_NAME_CONTEXT (Text saro)] read_core = (Inr saro_log, written_core)"
proof -
  have r: "map_option rec_signed (record_of sample_app one_addr read_core) = None" by simp
  have u: "update_law (vkeys (vlt sample_app)) (acct sample_app) sample_build" by (simp add: sample_update_law)
  show ?thesis
    unfolding write_update_eq [where key = one_key and a = one_addr, OF u, simplified] r
    by (simp add: saro_built store_publish_def mem_publish_def mem_held_def sample_world_def written_core_def)
qed

definition published_core :: score where
  "published_core = written_core\<lparr>staged := Map.empty,
     resolver := [one_addr \<mapsto> \<lparr>rec_log = [Add DISPLAY_NAME_CONTEXT (Text saro)], rec_signed = saro_log\<rparr>]\<rparr>"

lemma named_reads_back:
  "resolve_core sample_app one_addr (after_write one_addr saro_log written_core) = (Inr (), published_core)"
  by (simp add: sample_resolve judged_def read_back_fetch_eq written_take_own sample_judge_def Let_def
      saro_read published_core_def written_core_def after_write_def) (simp add: saro_log_def sample_keys_def)

lemma named_published:
  "publish sample_app one_addr named_core = (Inr \<lparr>first_new_index = Some 0, pub_dropped = 0\<rparr>, published_core)"
proof -
  have m: "require_managed sample_app one_addr named_core = Inr ()" by (simp add: require_managed_Inr)
  have e: "extendable sample_app one_addr read_core = Inr None" by (simp add: extendable_def)
  have p: "planned_entries sample_app one_addr read_core = [Add DISPLAY_NAME_CONTEXT (Text saro)]"
    by (simp add: planned_entries_def staged_for_def saro_plan)
  have d: "take_dropped one_addr published_core = (0, published_core)"
    by (simp add: take_dropped_def published_core_def written_core_def)
  show ?thesis
    using named_reads_back
    by (simp add: publish_def and_then_def of_read_def m named_signs named_read publish_staged_def saro_fits e p
        named_writes map_err_op_def after_write_def d staged_for_def Let_def)
qed

end
