(* ===== verification/Interleaving.thy ===== *)
theory Interleaving
  imports Rust_Prelude
begin

text \<open>
  Several processes on one shared state: each is at a point of its own program, and a run
  lets one of them after another make its next step, in any order. Two contracts for such
  programs, each a locale: an assertion for every point that the process establishes and the
  others cannot break, and a rank that every step lowers.
\<close>

type_synonym ('l, 's) process_step = "nat \<Rightarrow> 'l \<Rightarrow> 's \<Rightarrow> 'l \<Rightarrow> 's \<Rightarrow> bool"

text \<open>
  \<open>interleaved step ls s sched ks t\<close>: from points \<open>ls\<close> and shared state \<open>s\<close>, the processes
  named in \<open>sched\<close>, each making one step in that order, have led to \<open>ks\<close> and \<open>t\<close>.
\<close>

inductive interleaved ::
  "('l, 's) process_step \<Rightarrow> (nat \<Rightarrow> 'l) \<Rightarrow> 's \<Rightarrow> nat list \<Rightarrow> (nat \<Rightarrow> 'l) \<Rightarrow> 's \<Rightarrow> bool"
  for step ls s where
  still: "interleaved step ls s [] ls s"
| moves: "interleaved step ls s sched ks t \<Longrightarrow> step i (ks i) t l t' \<Longrightarrow>
     interleaved step ls s (sched @ [i]) (ks(i := l)) t'"

lemma interleaved_one:
  "step i (ls i) s l t \<Longrightarrow> interleaved step ls s [i] (ls(i := l)) t"
  using moves [OF still] by fastforce

lemma interleaved_trans:
  assumes "interleaved step ls s xs ks t" and "interleaved step ks t ys ms u"
  shows "interleaved step ls s (xs @ ys) ms u"
  using assms(2)
proof induction
  case still
  with assms(1) show ?case by simp
next
  case (moves sched ks' t' i l t'')
  from interleaved.moves [OF moves.IH moves.hyps(2)] show ?case by (simp only: append_assoc)
qed

lemma interleaved_then:
  assumes "step i (ls i) s p t" and "interleaved step (ls(i := p)) t sched ((ls(i := p))(i := q)) u"
  shows "interleaved step ls s (i # sched) (ls(i := q)) u"
  using interleaved_trans [OF interleaved_one [of step i ls, OF assms(1)] assms(2)] by simp

text \<open>Processes that made no step are where they were.\<close>

lemma interleaved_others:
  "interleaved step ls s sched ks t \<Longrightarrow> i \<notin> set sched \<Longrightarrow> ks i = ls i"
  by (induction rule: interleaved.induct) auto

section \<open>Assertions the other processes cannot break\<close>

locale non_interference =
  fixes step :: "('l, 's) process_step"
    and shared_ok :: "'s \<Rightarrow> bool"
    and local_ok :: "nat \<Rightarrow> 'l \<Rightarrow> 's \<Rightarrow> bool"
  assumes sequential: "shared_ok s \<Longrightarrow> local_ok i l s \<Longrightarrow> step i l s l' s' \<Longrightarrow>
      shared_ok s' \<and> local_ok i l' s'"
    and stable: "shared_ok s \<Longrightarrow> local_ok i l s \<Longrightarrow> step i l s l' s' \<Longrightarrow> j \<noteq> i \<Longrightarrow>
      local_ok j m s \<Longrightarrow> local_ok j m s'"
begin

lemma interleaved_ok:
  assumes "interleaved step ls s sched ks t" and "shared_ok s" and "\<And>i. local_ok i (ls i) s"
  shows "shared_ok t" and "local_ok i (ks i) t"
proof -
  have "shared_ok t \<and> (\<forall>i. local_ok i (ks i) t)"
    using assms(1)
  proof induction
    case still
    with assms(2,3) show ?case by blast
  next
    case (moves sched ks t i l t')
    then have "shared_ok t" and "\<And>j. local_ok j (ks j) t" by simp_all
    note seq = sequential [OF this moves.hyps(2)]
    have "local_ok j ((ks(i := l)) j) t'" for j
      using seq stable [OF \<open>shared_ok t\<close> \<open>local_ok i (ks i) t\<close> moves.hyps(2), of j "ks j"]
        \<open>local_ok j (ks j) t\<close> by simp
    with seq show ?case by blast
  qed
  then show "shared_ok t" "local_ok i (ks i) t" by simp_all
qed

end

section \<open>Ranks\<close>

locale ranked_process =
  fixes step :: "('l, 's) process_step" and rank :: "'l \<Rightarrow> nat"
  assumes descends: "step i l s l' s' \<Longrightarrow> rank l' < rank l"
begin

lemma steps_bounded:
  "interleaved step ls s sched ks t \<Longrightarrow> count_list sched i + rank (ks i) \<le> rank (ls i)"
proof (induction rule: interleaved.induct)
  case still
  then show ?case by simp
next
  case (moves sched ks t j l t')
  with descends [OF moves.hyps(2)] show ?case by auto
qed

end

end
