(* ===== verification/Publish_Race.thy ===== *)
theory Publish_Race
  imports Sample_Runs Interleaving
begin

text \<open>
  Several devices publishing through one store: a publish reads the store, plans against what
  it read, and writes, and between the read and the write other devices may have written. The
  store is one that keeps what it accepts and only ever lets a log be extended, which the
  memory store is.
\<close>

section \<open>A publish in two steps\<close>

text \<open>Up to the end of the read, and from the plan on.\<close>

definition publish_read ::
  "('l, 'd, 'r, 'n) app \<Rightarrow> AccountAddr \<Rightarrow> ('r, 'n, SigningKey \<times> StagedEdit list option) core_op" where
  "publish_read X a =
     and_then (of_read (require_managed X a)) (\<lambda>_.
     and_then (\<lambda>c. if staged_for a c = [] then (Inl NothingStaged, c) else (Inr (), c)) (\<lambda>_.
     and_then (of_read (signing_key X a)) (\<lambda>key.
     and_then (read_store X a) (\<lambda>_ c. (Inr (key, staged c a), c)))))"

fun publish_rest ::
  "('l, 'd, 'r, 'n) app \<Rightarrow> AccountAddr \<Rightarrow> SigningKey \<times> StagedEdit list option \<Rightarrow> ('r, 'n, Published) core_op" where
  "publish_rest X a (key, None) c =
     (case take_dropped a c of (n, c') \<Rightarrow> (Inr \<lparr>first_new_index = None, pub_dropped = n\<rparr>, c'))"
| "publish_rest X a (key, Some edits) c = publish_staged X a key edits c"

lemma publish_split: "publish X a = and_then (publish_read X a) (publish_rest X a)"
  by (rule ext) (simp add: publish_def publish_read_def and_then_def of_read_def
      split: prod.split sum.split option.split)

section \<open>The devices\<close>

datatype ('r, 'n) device =
    Ready "('r, 'n) core"
  | Planned SigningKey "StagedEdit list option" "('r, 'n) core"
  | Answered "CoreError + Published" "('r, 'n) core"

text \<open>
  Device \<open>i\<close>, publishing the account \<open>acc i\<close> (its own or another device's), on the world the
  devices share; and whatever else writes to the store, which extends logs.
\<close>

inductive device_step ::
  "('l, 'd, 'r, 'n) app \<Rightarrow> (nat \<Rightarrow> AccountAddr) \<Rightarrow> (('r, 'n) device, 'n world) process_step" for X acc where
  reads: "publish_read X (acc i) (c\<lparr>outside := w\<rparr>) = (Inr (key, es), c') \<Longrightarrow>
     device_step X acc i (Ready c) w (Planned key es c') (outside c')"
| stops: "publish_read X (acc i) (c\<lparr>outside := w\<rparr>) = (Inl e, c') \<Longrightarrow>
     device_step X acc i (Ready c) w (Answered (Inl e) c') (outside c')"
| writes: "publish_rest X (acc i) (key, es) (c\<lparr>outside := w\<rparr>) = (r, c') \<Longrightarrow>
     device_step X acc i (Planned key es c) w (Answered r c') (outside c')"
| elsewhere: "extends (mem_held (mem w)) (mem_held (mem w')) \<Longrightarrow> device_step X acc i d w d w'"

text \<open>Whose log a device that has answered reported as written, and shows.\<close>

definition log_kept :: "('l, 'd, 'r, 'n) app \<Rightarrow> AccountAddr \<Rightarrow> ('r, 'n) core \<Rightarrow> 'n world \<Rightarrow> bool" where
  "log_kept X a c w \<longleftrightarrow>
     (\<exists>rec cur. record_of X a c = Some rec \<and> mem_held (mem w) a = Some cur
        \<and> prefix (payload (rec_signed rec)) (payload cur))"

definition device_ok ::
  "('l, 'd, 'r, 'n) app \<Rightarrow> (nat \<Rightarrow> AccountAddr) \<Rightarrow> nat \<Rightarrow> ('r, 'n) device \<Rightarrow> 'n world \<Rightarrow> bool" where
  "device_ok X acc i d w \<longleftrightarrow>
     (case d of
        Ready c \<Rightarrow> store c = Memory \<and> keys_ok X c
      | Planned key es c \<Rightarrow> store c = Memory \<and> addr_of (vkeys (vlt X)) key = acc i \<and> answered (acc i) c
      | Answered r c \<Rightarrow> \<forall>p j. r = Inr p \<longrightarrow> first_new_index p = Some j \<longrightarrow> log_kept X (acc i) c w)"

text \<open>Nothing held when the devices started has been lost or cut.\<close>

definition store_ok ::
  "('l, 'd, 'r, 'n) app \<Rightarrow> (SigningKey \<Rightarrow> signed_log option \<Rightarrow> AccountEntry list \<Rightarrow> AccountLogError + signed_log) \<Rightarrow>
   (AccountAddr \<rightharpoonup> signed_log) \<Rightarrow> 'n world \<Rightarrow> bool" where
  "store_ok X build m w \<longleftrightarrow>
     resolve_law (acct X) \<and> update_law (vkeys (vlt X)) (acct X) build \<and> extends m (mem_held (mem w))"

lemma log_kept_extends:
  assumes "log_kept X a c w" and "extends (mem_held (mem w)) (mem_held (mem w'))"
  shows "log_kept X a c w'"
  using assms unfolding log_kept_def extends_def by (meson prefix_order.trans)

lemma publish_read_Inr:
  assumes "publish_read X a c = (Inr (key, es), c')"
  shows "signing_key X a c = Inr key" and "read_store X a c = (Inr (), c')" and "es = staged c' a"
  using assms by (auto simp: publish_read_def and_then_Inr of_read_def split: if_splits)

lemma publish_read_memory:
  assumes "resolve_law (acct X)" and "store c = Memory" and "publish_read X a c = (r, c')"
  shows "outside c' = outside c"
proof -
  have "c' = c \<or> (\<exists>q. read_store X a c = (q, c'))"
    using assms(3) by (auto simp: publish_read_def and_then_def of_read_def split: sum.splits prod.splits if_splits)
  with read_store_memory [OF assms(1,2)] show ?thesis by blast
qed

text \<open>The second step, from whatever world it finds.\<close>

lemma publish_rest_memory:
  assumes "publish_rest X a (key, es) c = (r, c')" and "resolve_law (acct X)"
    and "update_law (vkeys (vlt X)) (acct X) build" and "addr_of (vkeys (vlt X)) key = a"
    and "store c = Memory" and "answered a c"
  shows "(outside c' = outside c \<and> (\<forall>p j. r = Inr p \<longrightarrow> first_new_index p = Some j \<longrightarrow> False)
      \<and> staged c' = staged c)
    \<or> (\<exists>log. mem_held (mem (outside c')) = (mem_held (mem (outside c)))(a \<mapsto> log) \<and> staged_for a c' = []
        \<and> (\<forall>old. mem_held (mem (outside c)) a = Some old \<longrightarrow> prefix (payload old) (payload log))
        \<and> (\<forall>p. r = Inr p \<longrightarrow> (\<exists>rec. record_of X a c' = Some rec \<and> rec_signed rec = log)))"
proof (cases es)
  case None
  with assms(1) show ?thesis by (auto simp: take_dropped_eq)
next
  case (Some edits)
  with assms(1) have "publish_staged_ends X a key edits c r c'" by (auto intro: publish_staged_ends)
  from publish_staged_memory [OF this assms(2-6)] show ?thesis by auto
qed

lemma publish_rest_extends:
  assumes "publish_rest X a (key, es) c = (r, c')" and "resolve_law (acct X)"
    and "update_law (vkeys (vlt X)) (acct X) build" and "addr_of (vkeys (vlt X)) key = a"
    and "store c = Memory" and "answered a c"
  shows "extends (mem_held (mem (outside c))) (mem_held (mem (outside c')))"
    and "r = Inr p \<Longrightarrow> first_new_index p = Some j \<Longrightarrow> log_kept X a c' (outside c')"
  using publish_rest_memory [OF assms] by (auto simp: extends_def log_kept_def)

lemma core_outside_sel [simp]:
  "answered a (c\<lparr>outside := w\<rparr>) = answered a c" "keys_ok X (c\<lparr>outside := w\<rparr>) = keys_ok X c"
  by (simp_all add: answered_def read_at_def keys_ok_def)

text \<open>Every step extends the store.\<close>

lemma device_step_extends:
  assumes "store_ok X build m w" and "device_ok X acc i d w" and "device_step X acc i d w d' w'"
  shows "extends (mem_held (mem w)) (mem_held (mem w'))"
  using assms(3)
proof cases
  case (reads c key es c')
  then show ?thesis
    using publish_read_memory [OF _ _ reads(4)] assms(1,2) by (simp add: store_ok_def device_ok_def)
next
  case (stops c e c')
  then show ?thesis
    using publish_read_memory [OF _ _ stops(4)] assms(1,2) by (simp add: store_ok_def device_ok_def)
next
  case (writes key es c r c')
  then show ?thesis
    using publish_rest_extends(1) [OF writes(4), of build] assms(1,2) by (simp add: store_ok_def device_ok_def)
next
  case elsewhere
  then show ?thesis by simp
qed

lemma device_sequential:
  assumes "store_ok X build m w" and "device_ok X acc i d w" and "device_step X acc i d w d' w'"
  shows "store_ok X build m w' \<and> device_ok X acc i d' w'"
proof -
  note ext = device_step_extends [OF assms]
  have s: "store_ok X build m w'" using assms(1) ext by (auto simp: store_ok_def intro: extends_trans)
  have laws: "resolve_law (acct X)" "update_law (vkeys (vlt X)) (acct X) build"
    using assms(1) by (simp_all add: store_ok_def)
  from assms(3) have "device_ok X acc i d' w'"
  proof cases
    case (reads c key es c')
    have c: "store c = Memory" "keys_ok X c" using assms(2) reads(1) by (simp_all add: device_ok_def)
    note r = publish_read_Inr [OF reads(4)]
    have "answered (acc i) c'" using read_store_answered [OF r(2)] .
    moreover have "store c' = Memory" using read_store_sel(2) [OF r(2)] c by simp
    moreover have "addr_of (vkeys (vlt X)) key = acc i" using signing_key_addr [OF _ r(1)] c by simp
    ultimately show ?thesis using reads(2) by (simp add: device_ok_def)
  next
    case (stops c e c')
    then show ?thesis by (simp add: device_ok_def)
  next
    case (writes key es c r c')
    have c: "store c = Memory" "addr_of (vkeys (vlt X)) key = acc i" "answered (acc i) c"
      using assms(2) writes(1) by (simp_all add: device_ok_def)
    show ?thesis
      using publish_rest_extends(2) [OF writes(4) laws] c writes(2,3) by (auto simp: device_ok_def)
  next
    case elsewhere
    then show ?thesis using assms(2) log_kept_extends ext by (auto simp: device_ok_def split: device.splits)
  qed
  with s show ?thesis by simp
qed

interpretation devices: non_interference
  "device_step X acc" "store_ok X build m" "device_ok X acc"
  for X acc build m
proof (unfold_locales, goal_cases)
  case (1 s i l l' s')
  then show ?case by (rule device_sequential)
next
  case (2 s i l l' s' j k)
  from device_step_extends [OF 2(1-3)] 2(5) log_kept_extends show ?case
    by (auto simp: device_ok_def split: device.splits)
qed

end
