(* ===== verification/Publish_Properties.thy ===== *)
theory Publish_Properties
  imports Publish_Race
begin

text \<open>
  What holds of the account core over any run, and what a publish promises: it signs with the
  account's own key, writes its own log or nothing, and shows what it wrote.
\<close>

text \<open>
  C13: In every state the core can reach, whatever calls were made and whatever else changed
  the directory, the network or the clock in between: a key kept unlocked under an address is
  that address's key; no list of edits waiting is empty, repeats an edit, carries two names or
  a name that would be refused; no count of dropped edits is zero; and the slot a publish
  hands its log through is empty between calls, so every other read asks the store.
\<close>

theorem core_reachable_invariant:
  assumes "resolve_law (acct X)" and "reachable X c"
  shows "keys_ok X c \<and> tidy c \<and> (\<forall>a. edits_ok (staged_for a c)) \<and> written c = None"
  using reachable_inv [OF assms] by (simp add: core_inv_def)

theorem core_reachable_invariant_witness:
  "let c = snd (perform sample_app (Stage one_addr (StageName saro))
       (snd (perform sample_app (Create (Some sample_password)) (core_new sample_app new_disk (sample_world []) Memory))))
   in keys_ok sample_app c \<and> written c = None"
proof -
  have "step X c (snd (perform X cl c))" for X :: sapp and cl c
    by (rule step.call [OF prod.collapse [symmetric]])
  then have "reachable sample_app (snd (perform sample_app (Stage one_addr (StageName saro))
       (snd (perform sample_app (Create (Some sample_password)) (core_new sample_app new_disk (sample_world []) Memory)))))"
    by (intro reachable.more [OF reachable.more [OF reachable.start]])
  from core_reachable_invariant [OF _ this] show ?thesis by (simp add: sample_resolve_law Let_def)
qed



text \<open>
  C12: A publish that reports new entries has, on any store: signed with a key whose address is
  the account's, built its one log on exactly the log the read of this same call left, had it
  accepted by the store under this account's address, and left it as the log the app shows,
  with nothing waiting and no problem reported.
\<close>

theorem publish_reads_back:
  assumes "resolve_law (acct X)" and "update_law (vkeys (vlt X)) (acct X) build" and "keys_ok X c"
    and "publish X a c = (Inr p, c')" and "first_new_index p = Some i"
  shows "\<exists>key c1 w log rec. addr_of (vkeys (vlt X)) key = a \<and> read_store X a c = (Inr (), c1)
    \<and> build key (map_option rec_signed (record_of X a c1)) (planned_entries X a c1) = Inr log
    \<and> store_publish (net_http X) (store c) w a log = (Inr (), outside c')
    \<and> record_of X a c' = Some rec \<and> rec_signed rec = log
    \<and> staged_for a c' = [] \<and> problem a c' = None"
  by (rule publish_written [OF publish_ends [OF assms(4)] assms(1-3) refl assms(5)])

theorem publish_reads_back_witness:
  "\<exists>rec w. record_of sample_app one_addr published_core = Some rec
     \<and> store_publish sample_http Memory w one_addr (rec_signed rec) = (Inr (), outside published_core)"
proof -
  have u: "update_law (vkeys (vlt sample_app)) (acct sample_app) sample_build" by (simp add: sample_update_law)
  have k: "keys_ok sample_app named_core" by (simp add: keys_ok_def)
  obtain w log rec where
    "store_publish sample_http Memory w one_addr log = (Inr (), outside published_core)"
    "record_of sample_app one_addr published_core = Some rec" "rec_signed rec = log"
    using publish_reads_back [OF _ u k named_published] by (auto simp: sample_resolve_law)
  then show ?thesis by blast
qed

text \<open>
  C29: Publishing for a sealed account not unlocked this session is refused as locked before
  the store is asked anything: the whole state, the network included, is what it was.
\<close>

theorem publish_locked_costs_nothing:
  assumes "addr_laws (vkeys (vlt X))" and "vault_ok (vkeys (vlt X)) (disk c)"
    and "vault_held (vkeys (vlt X)) (disk c) a = Some True" and "unlocked c a = None" and "staged_for a c \<noteq> []"
  shows "publish X a c = (Inl Locked, c)"
proof -
  have m: "require_managed X a c = Inr ()"
    by (simp add: require_managed_Inr manages_held [OF assms(1,2)] assms(3))
  have "key_file (vkeys (vlt X)) (disk c) a True" using assms(2,3) by (simp add: vault_held_Some)
  from vault_open_held [OF assms(1,2) this, of None]
  have "vault_open (vlt X) a None (disk c) = Inl PasswordRequired" by simp
  then have "signing_key X a c = Inl Locked" by (simp add: signing_key_def assms(4))
  then show ?thesis by (simp add: publish_def and_then_def of_read_def m assms(5))
qed

theorem publish_locked_costs_nothing_witness:
  "publish sample_app two_addr (with_staged two_addr [SetDisplayName saro] sealed_core)
     = (Inl Locked, with_staged two_addr [SetDisplayName saro] sealed_core)"
  by (rule publish_locked_costs_nothing) (simp_all add: sample_addr_laws sample_disks_ok)









end
