(* ===== verification/Staging_Properties.thy ===== *)
theory Staging_Properties
  imports Sample_Runs
begin

text \<open>
  What the account core promises of the edits waiting and of the reads that settle them.
\<close>

section \<open>Who may write\<close>

text \<open>
  C14: An account whose key is elsewhere, or that the app does not know, cannot be written to
  whichever call is made: staging, discarding, publishing, unlocking, forgetting and exporting
  all answer the same refusal, and nothing at all has changed.
\<close>

theorem unmanaged_writes_refused:
  assumes "manages X a c = Inr False" and "observes X a c = Inr b" and "e = (if b then NotManaged else UnknownAccount)"
  shows "stage X a cmd c = (Inl e, c) \<and> discard_pending X a c = (Inl e, c) \<and> publish X a c = (Inl e, c)
    \<and> unlock X a pw c = (Inl e, c) \<and> forget_account X a c = (Inl e, c) \<and> export_account X a opw c = Inl e"
proof -
  have "require_managed X a c = Inl e" using assms by (simp add: require_managed_def)
  then show ?thesis
    by (cases cmd)
      (simp_all add: stage_add_installation_def stage_set_display_name_def stage_revoke_def discard_pending_def
        publish_def unlock_def forget_account_def export_account_def and_then_def of_read_def)
qed

theorem unmanaged_writes_refused_witness:
  "stage sample_app two_addr (StageName saro) open_core = (Inl UnknownAccount, open_core)
   \<and> publish sample_app two_addr open_core = (Inl UnknownAccount, open_core)"
proof -
  have m: "manages sample_app two_addr open_core = Inr False"
    by (simp add: manages_held sample_addr_laws sample_disks_ok two_not_held)
  have o: "observes sample_app two_addr open_core = Inr False"
    by (simp add: observes_def sample_disk_observed)
  from unmanaged_writes_refused [OF m o refl, of "StageName saro" "[]" None] show ?thesis by simp
qed

section \<open>Staging\<close>


lemma saro_staged: "stage sample_app one_addr (StageName saro) open_core = (Inr (), named_core)"
proof -
  have m: "require_managed sample_app one_addr open_core = Inr ()" by (simp add: require_managed_Inr)
  have e: "extendable sample_app one_addr open_core = Inr None" by (simp add: extendable_def answered_def read_at_def)
  show ?thesis
    by (simp add: stage_set_display_name_def and_then_def of_read_def m saro_name e staged_for_def live_name_def
        Let_def restage_Inr saro_fits named_core_def answered_def read_at_def)
qed


text \<open>
  C32: Nothing is staged that the log, as last read, already holds: a key already live, the name
  already in force, the revocation of an entry no longer live. What staging adds, the
  settling after the next read of the same log would keep.
\<close>

theorem staged_edits_are_needed:
  assumes "stage X a cmd c = (Inr u, c')" and "s \<in> set (staged_for a c')" and "s \<notin> set (staged_for a c)"
  shows "needed_now X a c s"
  by (rule stage_needed [OF assms])

theorem staged_edits_are_needed_witness:
  "needed_now sample_app one_addr open_core (SetDisplayName saro)"
  by (rule staged_edits_are_needed [OF saro_staged]) (simp_all add: staged_for_def)

section \<open>Reads\<close>

text \<open>
  C17: No edit is lost uncounted. A refresh that answers counts every edit dropped since the last
  answer, those a failed publish's read dropped included, and starts the count again; one that
  fails drops and counts nothing; and no other account's edits are touched.
\<close>

theorem refresh_counts_dropped:
  assumes "refresh X a c = (r, c')"
  shows "(\<forall>n. r = Inr n \<longrightarrow> n + length (staged_for a c') = dropped_for a c + length (staged_for a c) \<and> dropped_for a c' = 0
          \<and> (\<exists>P. staged_for a c' = filter P (staged_for a c)))
    \<and> (\<not> is_ok r \<longrightarrow> staged c' = staged c \<and> dropped c' = dropped c)
    \<and> (\<forall>b. b \<noteq> a \<longrightarrow> staged_for b c' = staged_for b c \<and> dropped_for b c' = dropped_for b c)"
  by (rule refresh_counts [OF assms])

theorem refresh_counts_dropped_witness:
  "\<exists>c'. refresh sample_app one_addr named_core = (Inr 0, c') \<and> staged_for one_addr c' = [SetDisplayName saro]"
proof -
  have k: "require_known sample_app one_addr named_core = Inr ()" by (simp add: require_known_def)
  obtain c' where r: "refresh sample_app one_addr named_core = (Inr 0, c')"
    using named_read by (simp add: refresh_def and_then_def of_read_def k take_dropped_eq dropped_for_def)
  have s: "length (staged_for one_addr c') = 1" "\<exists>P. staged_for one_addr c' = filter P [SetDisplayName saro]"
    using refresh_counts_dropped [OF r] by (simp_all add: dropped_for_def staged_for_def)
  then have "staged_for one_addr c' = [SetDisplayName saro]" by (auto split: if_splits)
  with r show ?thesis by blast
qed

text \<open>
  C27: A refresh that the store fails leaves every account's copy of its log, and when it was
  read, as they were, and records only what went wrong with this one; one that is answered
  stamps the copy with the clock and clears the problem.
\<close>

theorem failed_read_keeps_copy:
  assumes "resolve_law (acct X)" and "refresh X a c = (r, c')"
  shows "(\<forall>e. r = Inl (Account e) \<longrightarrow> problem a c' = Some (ReadProblem_of e)
            \<and> (\<forall>b. record_of X b c' = record_of X b c \<and> read_at b c' = read_at b c))
    \<and> (is_ok r \<longrightarrow> problem a c' = None \<and> read_at a c' = Some (now (outside c')))
    \<and> disk c' = disk c \<and> unlocked c' = unlocked c"
  by (rule refresh_copies [OF assms])

definition silent_core :: score where
  "silent_core = core_new sample_app open_disk (sample_world []) (Chat (lit ''http://x''))"

theorem failed_read_keeps_copy_witness:
  "problem one_addr (snd (refresh sample_app one_addr silent_core)) = Some Unanswered
   \<and> record_of sample_app one_addr (snd (refresh sample_app one_addr silent_core)) = None"
proof -
  have d: "disk silent_core = open_disk" by (simp add: silent_core_def core_new_def)
  have k: "require_known sample_app one_addr silent_core = Inr ()" by (simp add: require_known_def d)
  have n: "record_of sample_app b silent_core = None" for b
    by (simp add: silent_core_def core_new_def answered_def read_at_def)
  have "\<exists>e c1. resolve_core sample_app one_addr silent_core = (Inl (Provider e), c1)"
    by (simp add: sample_resolve judged_def read_back_fetch_eq store_fetch_def chat_fetch_def sample_http_def
        sample_judge_def silent_core_def core_new_def sample_world_def Let_def transport_def)
  then obtain e c1 where rc: "resolve_core sample_app one_addr silent_core = (Inl (Provider e), c1)" by blast
  then have rs: "read_store sample_app one_addr silent_core = (Inl (Account (Provider e)), failed_now one_addr Unanswered c1)"
    by (simp add: read_store_Inl ReadProblem_of_def)
  have r: "refresh sample_app one_addr silent_core = (Inl (Account (Provider e)), failed_now one_addr Unanswered c1)"
    by (simp add: refresh_def and_then_def of_read_def k rs)
  show ?thesis
    using failed_read_keeps_copy [OF _ r] n by (simp add: r sample_resolve_law ReadProblem_of_def)
qed

section \<open>Names and plans\<close>



text \<open>The entry an edit becomes.\<close>

fun entry_of :: "('l, 'd) log_format \<Rightarrow> StagedEdit \<Rightarrow> AccountEntry" where
  "entry_of F (Revoke i) = Remove i"
| "entry_of F (AddInstallation k) = Add (SIGNER_CONTEXT F) (Ed25519Key k)"
| "entry_of F (SetDisplayName n) = Add DISPLAY_NAME_CONTEXT (Text n)"

text \<open>
  An update writes one entry for each edit waiting, the revocations first and each group in
  the order it was staged.
\<close>

theorem plan_is_stable_partition:
  "plan F es = map (entry_of F)
     (filter (\<lambda>s. is_revocation (entry_of F s)) es @ filter (\<lambda>s. \<not> is_revocation (entry_of F s)) es)"
proof -
  have 1: "List.map_filter revocation_of es = map (entry_of F) (filter (\<lambda>s. is_revocation (entry_of F s)) es)"
    by (induction es) (auto simp: map_filter_Cons List.map_filter_simps revocation_of_def is_revocation_def split: StagedEdit.split)
  have 2: "List.map_filter (addition_of F) es = map (entry_of F) (filter (\<lambda>s. \<not> is_revocation (entry_of F s)) es)"
    by (induction es) (auto simp: map_filter_Cons List.map_filter_simps addition_of_def is_revocation_def split: StagedEdit.split)
  show ?thesis by (simp add: plan_def 1 2)
qed

end
