(* ===== verification/Account_Directory.thy ===== *)
theory Account_Directory
  imports Core_Steps Address_Book
begin

text \<open>
  The vault and the observed list as the manager uses them: two stores in one directory,
  neither of which disturbs the other. From their two interfaces and that they are apart
  follows what every call of the account core does to the accounts the app has.
\<close>

section \<open>Two stores in one directory\<close>

text \<open>What can be seen of both: the accounts held, sealed or not, and those only listed.\<close>

definition seen_by :: "('s \<Rightarrow> AccountAddr \<rightharpoonup> bool) \<Rightarrow> ('s \<Rightarrow> 'f + AccountAddr list) \<Rightarrow> 's \<Rightarrow>
    (AccountAddr \<rightharpoonup> bool) \<times> AccountAddr set" where
  "seen_by held listing s = (held s, listed listing s)"

locale account_directory =
  vaulted: key_store good held insert_key remove_key key_addr +
  listed_in: address_book good listing add_addr remove_addr valid
  for good :: "'s \<Rightarrow> bool"
    and held :: "'s \<Rightarrow> AccountAddr \<Rightarrow> bool option"
    and insert_key :: "SigningKey \<Rightarrow> rstr option \<Rightarrow> nat \<Rightarrow> ('s, 'e, AccountAddr) op"
    and remove_key :: "AccountAddr \<Rightarrow> ('s, 'e, unit) op"
    and key_addr :: "SigningKey \<Rightarrow> AccountAddr"
    and listing :: "'s \<Rightarrow> 'f + AccountAddr list"
    and add_addr :: "AccountAddr \<Rightarrow> ('s, 'f, bool) op"
    and remove_addr :: "AccountAddr \<Rightarrow> ('s, 'f, bool) op"
    and valid :: "AccountAddr \<Rightarrow> bool" +
  assumes insert_listing: "good s \<Longrightarrow> length k = 32 \<Longrightarrow> insert_key k pw n s = (r, s') \<Longrightarrow> listing s' = listing s"
    and remove_listing: "good s \<Longrightarrow> remove_key a s = (q, s') \<Longrightarrow> listing s' = listing s"
    and add_held: "good s \<Longrightarrow> add_addr a s = (b, s') \<Longrightarrow> held s' = held s"
    and drop_held: "good s \<Longrightarrow> remove_addr a s = (b, s') \<Longrightarrow> held s' = held s"
begin

lemma listed_same: "listing s' = listing s \<Longrightarrow> listed listing s' = listed listing s"
  by (simp add: listed_def)

lemma insert_seen:
  assumes "good s" and "length k = 32" and "insert_key k pw n s = (r, s')"
  shows "good s' \<and> (case r of Inl e \<Rightarrow> seen_by held listing s' = seen_by held listing s
     | Inr a \<Rightarrow> a = key_addr k \<and> held s a = None \<and> seen_by held listing s' = ((held s)(a \<mapsto> pw \<noteq> None), listed listing s))"
  using assms(3) vaulted.insert_failed [OF assms(1,2)] vaulted.insert_done [OF assms(1,2)]
    listed_same [OF insert_listing [OF assms]]
  by (cases r) (auto simp: seen_by_def)

lemma remove_seen:
  assumes "good s" and "remove_key a s = (q, s')"
  shows "good s' \<and> (case q of Inl e \<Rightarrow> seen_by held listing s' = seen_by held listing s
     | Inr u \<Rightarrow> held s a \<noteq> None \<and> seen_by held listing s' = ((held s)(a := None), listed listing s))"
  using assms(2) vaulted.remove_failed [OF assms(1)] vaulted.remove_done [OF assms(1)]
    listed_same [OF remove_listing [OF assms]]
  by (cases q) (auto simp: seen_by_def)

lemma add_seen:
  assumes "good s" and "valid a" and "add_addr a s = (q, s')"
  shows "good s' \<and> (case q of Inl e \<Rightarrow> seen_by held listing s' = seen_by held listing s
     | Inr b \<Rightarrow> b = (a \<notin> listed listing s) \<and> seen_by held listing s' = (held s, insert a (listed listing s)))"
proof (cases q)
  case (Inl e)
  with listed_in.add_failed [OF assms(1)] assms(3) have "good s' \<and> listing s' = listing s" by blast
  with listed_same [of s' s] add_held [OF assms(1,3)] Inl show ?thesis by (simp add: seen_by_def)
next
  case (Inr b)
  with listed_in.add_done [OF assms(1,2)] assms(3) add_held [OF assms(1,3)] show ?thesis by (simp add: seen_by_def)
qed

lemma drop_seen:
  assumes "good s" and "remove_addr a s = (q, s')"
  shows "good s' \<and> (case q of Inl e \<Rightarrow> seen_by held listing s' = seen_by held listing s
     | Inr b \<Rightarrow> b = (a \<in> listed listing s) \<and> seen_by held listing s' = (held s, listed listing s - {a}))"
proof (cases q)
  case (Inl e)
  with listed_in.remove_failed [OF assms(1)] assms(2) have "good s' \<and> listing s' = listing s" by blast
  with listed_same [of s' s] drop_held [OF assms] Inl show ?thesis by (simp add: seen_by_def)
next
  case (Inr b)
  with listed_in.remove_done [OF assms(1)] assms(2) drop_held [OF assms] show ?thesis by (simp add: seen_by_def)
qed

end

section \<open>The core's directory is one\<close>

definition disk_ok :: "('l, 'd, 'r, 'n) app \<Rightarrow> fs \<Rightarrow> bool" where
  "disk_ok X s \<longleftrightarrow> addr_laws (vkeys (vlt X)) \<and> okeys (obs X) = vkeys (vlt X)
     \<and> vault_ok (vkeys (vlt X)) s \<and> observed_ok (obs X) s"

lemma vault_ok_readable: "vault_ok K s \<Longrightarrow> readable s"
  by (simp add: vault_ok_def)

lemma disk_ok_listing:
  assumes "disk_ok X s" and "vault_ok (vkeys (vlt X)) s'" and "observed_list (obs X) s' = observed_list (obs X) s"
  shows "disk_ok X s'"
  using assms vault_ok_readable [OF assms(2)] by (simp add: disk_ok_def observed_ok_def)

lemma vault_held_frame:
  assumes "disk_ok X s" and "frame {Utf8 OBSERVED_STAGED, Utf8 OBSERVED_FILE} s s'"
  shows "vault_ok (vkeys (vlt X)) s'" and "vault_held (vkeys (vlt X)) s' = vault_held (vkeys (vlt X)) s"
proof -
  have l: "addr_laws (vkeys (vlt X))" and v: "vault_ok (vkeys (vlt X)) s" using assms(1) by (simp_all add: disk_ok_def)
  note k = key_file_observed_frame [OF l assms(2)]
  show "vault_ok (vkeys (vlt X)) s'" by (rule vault_ok_frame [OF v assms(2) k])
  show "vault_held (vkeys (vlt X)) s' = vault_held (vkeys (vlt X)) s" using k by (simp add: vault_held_def fun_eq_iff)
qed

lemma disk_ok_observed:
  assumes "disk_ok X s" and "frame {Utf8 OBSERVED_STAGED, Utf8 OBSERVED_FILE} s s'" and "observed_ok (obs X) s'"
  shows "disk_ok X s'"
  using assms vault_held_frame(1) [OF assms(1,2)] by (simp add: disk_ok_def)

interpretation directory: account_directory
  "disk_ok X" "vault_held (vkeys (vlt X))" "vault_create (vlt X)" "vault_forget (vlt X)" "addr_of (vkeys (vlt X))"
  "observed_list (obs X)" "observed_add (obs X)" "observed_remove (obs X)" "valid_addr (vkeys (vlt X))"
  for X :: "('l, 'd, 'r, 'n) app"
proof -
  have g: "addr_laws (vkeys (vlt X)) \<and> vault_ok (vkeys (vlt X)) s" "observed_ok (obs X) s"
    "okeys (obs X) = vkeys (vlt X)" if "disk_ok X s" for s
    using that by (simp_all add: disk_ok_def)
  have c: "observed_list (obs X) s' = observed_list (obs X) s"
    if "disk_ok X s" "length k = 32" "vault_create (vlt X) k pw n s = (r, s')" for s k pw n r s'
    using create_observed_list [of "vlt X" k "obs X" pw n s] that by (simp add: disk_ok_def)
  have f: "observed_list (obs X) s' = observed_list (obs X) s"
    if "disk_ok X s" "vault_forget (vlt X) a s = (q, s')" for s a q s'
    using forget_observed_list [of "vlt X" s "obs X" a] that by (simp add: disk_ok_def)
  have ac: "frame {Utf8 OBSERVED_STAGED, Utf8 OBSERVED_FILE} s s'" if "observed_add (obs X) a s = (b, s')" for s a b s'
    using observed_calls_frame(1) [of s "obs X" a] that by simp
  have rc: "frame {Utf8 OBSERVED_STAGED, Utf8 OBSERVED_FILE} s s'" if "observed_remove (obs X) a s = (b, s')" for s a b s'
    using observed_calls_frame(2) [of s "obs X" a] that by simp
  show "account_directory (disk_ok X) (vault_held (vkeys (vlt X))) (vault_create (vlt X)) (vault_forget (vlt X))
     (addr_of (vkeys (vlt X))) (observed_list (obs X)) (observed_add (obs X)) (observed_remove (obs X)) (valid_addr (vkeys (vlt X)))"
  proof (unfold_locales, goal_cases)
    case (1 s k pw n e s')
    with vault.insert_failed [OF g(1) [OF 1(1)] 1(2,3)] c [OF 1] disk_ok_listing [OF 1(1)] show ?case by blast
  next
    case (2 s k pw n a s')
    with vault.insert_done [OF g(1) [OF 2(1)] 2(2,3)] c [OF 2] disk_ok_listing [OF 2(1)] show ?case by blast
  next
    case (3 s a e s')
    with vault.remove_failed [OF g(1) [OF 3(1)] 3(2)] f [OF 3] disk_ok_listing [OF 3(1)] show ?case by blast
  next
    case (4 s a u s')
    with vault.remove_done [OF g(1) [OF 4(1)] 4(2)] f [OF 4] disk_ok_listing [OF 4(1)] show ?case by blast
  next
    case (5 s)
    then show ?case by (rule observed.listing_total [OF g(2)])
  next
    case (6 s)
    then show ?case by (rule observed.listing_finite [OF g(2)])
  next
    case (7 s a e s')
    with observed.add_failed [OF g(2) [OF 7(1)] 7(2)] disk_ok_observed [OF 7(1) ac [OF 7(2)]] show ?case by blast
  next
    case (8 s a b s')
    then have "valid_addr (okeys (obs X)) a" by (simp add: g(3))
    with observed.add_done [OF g(2) [OF 8(1)] this 8(3)] disk_ok_observed [OF 8(1) ac [OF 8(3)]] show ?case by blast
  next
    case (9 s a e s')
    with observed.remove_failed [OF g(2) [OF 9(1)] 9(2)] disk_ok_observed [OF 9(1) rc [OF 9(2)]] show ?case by blast
  next
    case (10 s a b s')
    with observed.remove_done [OF g(2) [OF 10(1)] 10(2)] disk_ok_observed [OF 10(1) rc [OF 10(2)]] show ?case by blast
  next
    case (11 s k pw n r s')
    then show ?case by (rule c)
  next
    case (12 s a q s')
    then show ?case by (rule f)
  next
    case (13 s a b s')
    then show ?case using vault_held_frame(2) ac by blast
  next
    case (14 s a b s')
    then show ?case using vault_held_frame(2) rc by blast
  qed
qed

end
