(* ===== verification/Account_Calls.thy ===== *)
theory Account_Calls
  imports Account_Directory Sample_Runs
begin

text \<open>
  What each call of the account core does to the accounts the app has: the keys its vault
  holds and the addresses it observes.
\<close>

section \<open>The effect of a call\<close>

type_synonym account_sets = "(AccountAddr \<rightharpoonup> bool) \<times> AccountAddr set"

definition accounts_of :: "('l, 'd, 'r, 'n) app \<Rightarrow> ('r, 'n) core \<Rightarrow> account_sets" where
  "accounts_of X c = seen_by (vault_held (vkeys (vlt X))) (observed_list (obs X)) (disk c)"

text \<open>A key taken under a password or none, if its address was not held.\<close>

definition taken :: "('l, 'd, 'r, 'n) app \<Rightarrow> SigningKey \<Rightarrow> rstr option \<Rightarrow> account_sets \<Rightarrow> account_sets \<Rightarrow> bool" where
  "taken X k pw p q \<longleftrightarrow>
     fst p (addr_of (vkeys (vlt X)) k) = None \<and> q = ((fst p)(addr_of (vkeys (vlt X)) k \<mapsto> pw \<noteq> None), snd p)"

text \<open>
  The specification: what a call that returned, or one that failed, may do to the accounts. Of
  the calls that fail, only an import can have changed something.
\<close>

fun account_effect :: "('l, 'd, 'r, 'n) app \<Rightarrow> call \<Rightarrow> bool \<Rightarrow> account_sets \<Rightarrow> account_sets \<Rightarrow> bool" where
  "account_effect X (Create pw) True p q \<longleftrightarrow> (\<exists>k. taken X k pw p q)"
| "account_effect X (Import secret pw) True p q \<longleftrightarrow>
     (\<exists>k. parse_secret (vhex (vlt X)) secret = Inr k
        \<and> taken X k pw (fst p, snd p - {addr_of (vkeys (vlt X)) k}) q)"
| "account_effect X (Import secret pw) False p q \<longleftrightarrow>
     q = p \<or> (\<exists>k. parse_secret (vhex (vlt X)) secret = Inr k \<and> taken X k pw p q)"
| "account_effect X (ForgetAccount a) True p q \<longleftrightarrow> fst p a \<noteq> None \<and> q = ((fst p)(a := None), snd p)"
| "account_effect X (ObserveAccount a) True p q \<longleftrightarrow> fst p a = None \<and> q = (fst p, insert a (snd p))"
| "account_effect X (StopObserving a) True p q \<longleftrightarrow> a \<in> snd p \<and> q = (fst p, snd p - {a})"
| "account_effect X cl success p q \<longleftrightarrow> q = p"

fun call_legal :: "('l, 'd, 'r, 'n) app \<Rightarrow> call \<Rightarrow> bool" where
  "call_legal X (ObserveAccount a) \<longleftrightarrow> valid_addr (vkeys (vlt X)) a"
| "call_legal X cl \<longleftrightarrow> True"

section \<open>Each call keeps it\<close>

lemma accounts_of_disk: "disk c' = disk c \<Longrightarrow> accounts_of X c' = accounts_of X c"
  by (simp add: accounts_of_def)

lemma take_into_vault_outcome:
  assumes "disk_ok X (disk c)" and "length k = 32" and "take_into_vault X k pw c = (r, c')"
  shows "disk_ok X (disk c') \<and> (case r of Inl e \<Rightarrow> accounts_of X c' = accounts_of X c
     | Inr a \<Rightarrow> a = addr_of (vkeys (vlt X)) k \<and> taken X k pw (accounts_of X c) (accounts_of X c'))"
proof -
  obtain q s where v: "vault_create (vlt X) k pw (entropy (outside c)) (disk c) = (q, s)" and
    r: "r = map_err Vault q" and d: "disk c' = s"
    using assms(3) by (auto simp: take_into_vault_def on_disk_def Let_def split: prod.splits)
  from directory.insert_seen [OF assms(1,2) v] show ?thesis
    by (cases q) (auto simp: r d accounts_of_def taken_def seen_by_def)
qed

lemma parse_secret_length: "hex_laws H \<Longrightarrow> parse_secret H t = Inr k \<Longrightarrow> length k = 32"
  by (auto simp: parse_secret_def hex_laws_def Let_def)

lemma keep_unlocked_disk [simp]: "disk (keep_unlocked k pw a c) = disk c"
  by (simp add: keep_unlocked_def)

lemma create_effect:
  assumes "disk_ok X (disk c)" and "generate_law (vkeys (vlt X))" and "create_account X pw c = (r, c')"
  shows "disk_ok X (disk c') \<and> account_effect X (Create pw) (is_ok r) (accounts_of X c) (accounts_of X c')"
proof -
  obtain k c1 where 1: "draw_key X c = (k, c1)" by fastforce
  then have l: "length k = 32" and d: "disk c1 = disk c"
    using assms(2) by (auto simp: draw_key_def generate_law_def split: prod.splits) (metis fst_conv)
  obtain q c2 where 2: "take_into_vault X k pw c1 = (q, c2)" by fastforce
  have s: "accounts_of X c1 = accounts_of X c" using d by (rule accounts_of_disk)
  from take_into_vault_outcome [of X c1 k, OF _ l 2] assms(1) d s
  have t: "disk_ok X (disk c2) \<and> (case q of Inl e \<Rightarrow> accounts_of X c2 = accounts_of X c
     | Inr a \<Rightarrow> taken X k pw (accounts_of X c) (accounts_of X c2))" by (auto split: sum.splits)
  show ?thesis
  proof (cases q)
    case (Inl e)
    with assms(3) 1 2 t show ?thesis by (auto simp: create_account_def and_then_def)
  next
    case (Inr a)
    with assms(3) 1 2 have "r = Inr a" "c' = keep_unlocked k pw a c2" by (auto simp: create_account_def and_then_def)
    with t Inr accounts_of_disk [of c' c2 X] show ?thesis by auto
  qed
qed

lemma import_ends:
  assumes "import_account X secret pw c = (r, c')"
  obtains (unparsed) e where "parse_secret (vhex (vlt X)) secret = Inl e" "r = Inl e" "c' = c"
  | (untaken) k e where "parse_secret (vhex (vlt X)) secret = Inr k" "take_into_vault X k pw c = (Inl e, c')" "r = Inl e"
  | (listed) k a c1 q s where "parse_secret (vhex (vlt X)) secret = Inr k" "take_into_vault X k pw c = (Inr a, c1)"
      "observed_remove (obs X) a (disk c1) = (q, s)" "c' = (keep_unlocked k pw a c1)\<lparr>disk := s\<rparr>"
      "r = (case q of Inl e \<Rightarrow> Inl (Observed e) | Inr b \<Rightarrow> Inr a)"
proof (cases "parse_secret (vhex (vlt X)) secret")
  case (Inl e)
  with assms show ?thesis by (intro unparsed) (auto simp: import_account_def and_then_def of_read_def)
next
  case (Inr k)
  obtain q1 c1 where 1: "take_into_vault X k pw c = (q1, c1)" by fastforce
  show ?thesis
  proof (cases q1)
    case (Inl e)
    with assms Inr 1 show ?thesis by (intro untaken) (auto simp: import_account_def and_then_def of_read_def)
  next
    case a: (Inr a)
    obtain q s where 2: "observed_remove (obs X) a (disk c1) = (q, s)" by fastforce
    show ?thesis
      by (rule listed [OF Inr 1 [unfolded a] 2])
        (use assms Inr 1 a 2 in \<open>auto simp: import_account_def and_then_def of_read_def on_disk_def ok_def split: sum.splits\<close>)
  qed
qed

lemma import_effect:
  assumes "disk_ok X (disk c)" and "hex_laws (vhex (vlt X))" and "import_account X secret pw c = (r, c')"
  shows "disk_ok X (disk c') \<and> account_effect X (Import secret pw) (is_ok r) (accounts_of X c) (accounts_of X c')"
  using assms(3)
proof (cases rule: import_ends)
  case (unparsed e)
  with assms(1) show ?thesis by simp
next
  case (untaken k e)
  with take_into_vault_outcome [OF assms(1) parse_secret_length [OF assms(2)]] show ?thesis by fastforce
next
  case (listed k a c1 q s)
  from take_into_vault_outcome [OF assms(1) parse_secret_length [OF assms(2) listed(1)] listed(2)]
  have 1: "disk_ok X (disk c1)" "a = addr_of (vkeys (vlt X)) k" "taken X k pw (accounts_of X c) (accounts_of X c1)" by auto
  from directory.drop_seen [OF 1(1) listed(3)]
  have 2: "disk_ok X s" "case q of Inl e \<Rightarrow> accounts_of X c' = accounts_of X c1
    | Inr b \<Rightarrow> accounts_of X c' = (fst (accounts_of X c1), snd (accounts_of X c1) - {a})"
    by (auto simp: listed(4) accounts_of_def seen_by_def split: sum.splits)
  show ?thesis
  proof (cases q)
    case (Inl e)
    with 1 2 listed show ?thesis by auto
  next
    case (Inr b)
    with 2 have q: "accounts_of X c' = (fst (accounts_of X c1), snd (accounts_of X c1) - {a})" by simp
    from 1(2,3) have "taken X k pw (fst (accounts_of X c), snd (accounts_of X c) - {a}) (accounts_of X c')"
      unfolding q by (simp add: taken_def)
    moreover have "r = Inr a" "disk c' = s" using listed Inr by simp_all
    ultimately show ?thesis using 1(2) 2(1) listed(1) by auto
  qed
qed

lemma forget_effect:
  assumes "disk_ok X (disk c)" and "forget_account X a c = (r, c')"
  shows "disk_ok X (disk c') \<and> account_effect X (ForgetAccount a) (is_ok r) (accounts_of X c) (accounts_of X c')"
proof (cases "require_managed X a c")
  case (Inl e)
  then have "r = Inl e \<and> c' = c" using assms(2) by (auto simp: forget_account_def and_then_def of_read_def)
  with assms(1) show ?thesis by simp
next
  case (Inr u)
  then have m: "require_managed X a c = Inr ()" by simp
  obtain q s where v: "vault_forget (vlt X) a (disk c) = (q, s)" by fastforce
  then have "is_ok r = is_ok q \<and> disk c' = s"
    using assms(2) by (cases q) (auto simp: m forget_account_def and_then_def of_read_def on_disk_def)
  with directory.remove_seen [OF assms(1) v] show ?thesis
    by (cases q) (auto simp: accounts_of_def seen_by_def)
qed

lemma manages_eq: "disk_ok X (disk c) \<Longrightarrow> manages X a c = Inr (vault_held (vkeys (vlt X)) (disk c) a \<noteq> None)"
  by (rule manages_held) (simp_all add: disk_ok_def)

lemma observe_effect:
  assumes "disk_ok X (disk c)" and "valid_addr (vkeys (vlt X)) a" and "observe X a c = (r, c')"
  shows "disk_ok X (disk c') \<and> account_effect X (ObserveAccount a) (is_ok r) (accounts_of X c) (accounts_of X c')"
proof (cases "vault_held (vkeys (vlt X)) (disk c) a = None")
  case False
  with assms show ?thesis by (auto simp: observe_def and_then_def of_read_def manages_eq fail_def)
next
  case True
  obtain q s where v: "observed_add (obs X) a (disk c) = (q, s)" by fastforce
  then have "is_ok r = is_ok q \<and> disk c' = s"
    using assms(3) True
    by (cases q) (auto simp: observe_def and_then_def of_read_def on_disk_def manages_eq [OF assms(1)])
  with directory.add_seen [OF assms(1,2) v] True show ?thesis
    by (cases q) (auto simp: accounts_of_def seen_by_def)
qed

lemma stop_effect:
  assumes "disk_ok X (disk c)" and "stop_observing X a c = (r, c')"
  shows "disk_ok X (disk c') \<and> account_effect X (StopObserving a) (is_ok r) (accounts_of X c) (accounts_of X c')"
proof -
  obtain q s where v: "observed_remove (obs X) a (disk c) = (q, s)" by fastforce
  have "is_ok r = (q = Inr True) \<and> disk c' = s"
  proof (cases q)
    case (Inl e)
    with assms(2) v show ?thesis by (auto simp: stop_observing_def and_then_def on_disk_def)
  next
    case (Inr b)
    with assms(2) v show ?thesis by (cases b) (auto simp: stop_observing_def and_then_def on_disk_def fail_def)
  qed
  then have r: "is_ok r = (q = Inr True)" and d: "disk c' = s" by simp_all
  note t = directory.drop_seen [OF assms(1) v]
  show ?thesis
  proof (cases "q = Inr True")
    case True
    with t r d show ?thesis by (simp add: accounts_of_def seen_by_def)
  next
    case False
    then have "\<not> is_ok r" using r by simp
    moreover have "disk_ok X s \<and> accounts_of X c' = accounts_of X c"
      using t d False by (cases q) (simp_all add: accounts_of_def seen_by_def)
    ultimately show ?thesis using d by simp
  qed
qed

section \<open>The calls that leave the directory alone\<close>

lemma stage_disk: "stage X a cmd c = (r, c') \<Longrightarrow> disk c' = disk c"
  by (cases r) (auto dest: stage_Inl elim: stage_Inr)

lemma publish_staged_disk:
  assumes "publish_staged_ends X a key es c r c'"
  shows "disk c' = disk c"
  using assms
  by (cases rule: publish_staged_ends_cases) (auto dest!: write_update_sel dest: resolve_core_sel(1))

lemma publish_disk:
  assumes "publish X a c = (r, c')"
  shows "disk c' = disk c"
  using publish_ends [OF assms]
  by (cases rule: publish_ends_cases) (auto dest!: read_store_sel(1) publish_staged_disk)

lemma refresh_disk: "refresh X a c = (r, c') \<Longrightarrow> disk c' = disk c"
  by (cases r) (auto simp: refresh_def core_ops take_dropped_eq dest: read_store_sel(1))

lemma unlock_disk: "unlock X a pw c = (r, c') \<Longrightarrow> disk c' = disk c"
  by (cases r) (auto simp: unlock_def core_ops)

lemma discard_disk: "discard_pending X a c = (r, c') \<Longrightarrow> disk c' = disk c"
  by (cases r) (auto simp: discard_pending_def core_ops)

lemmas quiet_calls = stage_disk publish_disk refresh_disk unlock_disk discard_disk

section \<open>Every call\<close>

definition account_laws :: "('l, 'd, 'r, 'n) app \<Rightarrow> bool" where
  "account_laws X \<longleftrightarrow> generate_law (vkeys (vlt X)) \<and> hex_laws (vhex (vlt X))"

lemma is_ok_void: "void m s = (r, s') \<Longrightarrow> \<exists>q. m s = (q, s') \<and> is_ok q = is_ok r"
  by (cases r) auto

lemma perform_effect:
  assumes "account_laws X" and "disk_ok X (disk c)" and "call_legal X cl" and "perform X cl c = (r, c')"
  shows "disk_ok X (disk c') \<and> account_effect X cl (is_ok r) (accounts_of X c) (accounts_of X c')"
proof -
  have q: ?thesis if "disk c' = disk c" and "\<And>b p. account_effect X cl b p p"
    using that assms(2) accounts_of_disk [OF that(1), of X] by simp
  have g: "generate_law (vkeys (vlt X))" and h: "hex_laws (vhex (vlt X))"
    using assms(1) by (simp_all add: account_laws_def)
  show ?thesis
  proof (cases cl)
    case (Create pw)
    with assms(4) is_ok_void create_effect [OF assms(2) g] show ?thesis by fastforce
  next
    case (Import t pw)
    with assms(4) is_ok_void import_effect [OF assms(2) h] show ?thesis by fastforce
  next
    case (ForgetAccount a)
    with assms(4) forget_effect [OF assms(2)] show ?thesis by fastforce
  next
    case (ObserveAccount a)
    with assms(3,4) is_ok_void observe_effect [OF assms(2)] show ?thesis by fastforce
  next
    case (StopObserving a)
    with assms(4) stop_effect [OF assms(2)] show ?thesis by fastforce
  qed (rule q; use assms(4) in \<open>auto dest!: is_ok_void dest: quiet_calls\<close>)+
qed

text \<open>A run of calls: the accounts at the end are reached by the effects of the calls in order.\<close>

fun account_run :: "('l, 'd, 'r, 'n) app \<Rightarrow> (call \<times> bool) list \<Rightarrow> account_sets \<Rightarrow> account_sets \<Rightarrow> bool" where
  "account_run X [] p q \<longleftrightarrow> q = p"
| "account_run X ((cl, success) # log) p q \<longleftrightarrow> (\<exists>m. account_effect X cl success p m \<and> account_run X log m q)"

lemma perform_session:
  assumes "account_laws X"
  shows "disk_ok X (disk c) \<Longrightarrow> list_all (call_legal X) cls \<Longrightarrow> session (perform X) cls c = (oks, c') \<Longrightarrow>
    disk_ok X (disk c') \<and> length oks = length cls \<and> account_run X (zip cls oks) (accounts_of X c) (accounts_of X c')"
proof (induction cls arbitrary: c oks)
  case Nil
  then show ?case by simp
next
  case (Cons cl cls)
  obtain r c1 oks' where 1: "perform X cl c = (r, c1)" and 2: "session (perform X) cls c1 = (oks', c')"
    and o: "oks = is_ok r # oks'" using Cons.prems(3) by (auto split: prod.splits)
  have e: "disk_ok X (disk c1) \<and> account_effect X cl (is_ok r) (accounts_of X c) (accounts_of X c1)"
    using perform_effect [OF assms Cons.prems(1) _ 1] Cons.prems(2) by simp
  then have "disk_ok X (disk c') \<and> length oks' = length cls \<and> account_run X (zip cls oks') (accounts_of X c1) (accounts_of X c')"
    using Cons.IH [OF _ _ 2] Cons.prems(2) by simp
  then show ?case using e unfolding o by (auto simp del: split_paired_Ex)
qed

section \<open>Keys that are opened, exported and taken\<close>

lemma vault_open_length: "hex_laws (vhex V) \<Longrightarrow> vault_open V a pw s = Inr k \<Longrightarrow> length k = 32"
  by (auto simp: vault_open_def open_sealed_def read_open_def bind_res_Inr hex_laws_def Let_def
      split: if_splits bool.splits option.splits)

lemma hex_digit_not_white: "c \<in> hex_digits \<Longrightarrow> \<not> is_whitespace c"
  by (auto simp: hex_digits_def lit_def is_whitespace_def)

lemma parse_secret_encode:
  assumes "hex_laws H" and "length k = 32"
  shows "parse_secret H (hex_encode H k) = Inr k"
proof -
  have d: "set (hex_encode H k) \<subseteq> hex_digits" and i: "hex_decode_to_slice H (hex_encode H k) 32 = Inr k"
    using assms unfolding hex_laws_def by (blast, metis)
  have "trim (hex_encode H k) = hex_encode H k"
    using d hex_digit_not_white by (intro trim_id) (metis hd_in_set last_in_set subsetD)
  with i show ?thesis by (simp add: parse_secret_def)
qed

text \<open>What the observed list's files hold changes nothing of what a vault opens.\<close>

lemma vault_open_observed:
  assumes "disk_ok X s" and "frame {Utf8 OBSERVED_STAGED, Utf8 OBSERVED_FILE} s s'"
  shows "vault_open (vlt X) a pw s' = vault_open (vlt X) a pw s"
proof -
  have l: "addr_laws (vkeys (vlt X))" and v: "vault_ok (vkeys (vlt X)) s" using assms(1) by (simp_all add: disk_ok_def)
  note v' = vault_held_frame [OF assms]
  note k = key_file_observed_frame [OF l assms(2)]
  show ?thesis
  proof (cases "\<exists>p. key_file (vkeys (vlt X)) s a p")
    case False
    then show ?thesis using vault_open_unheld [OF l v] vault_open_unheld [OF l v'(1)] k by simp
  next
    case True
    then obtain p where p: "key_file (vkeys (vlt X)) s a p" by blast
    have "addr_parse (vkeys (vlt X)) (to_string a) = Some a" using p by (simp add: key_file_def)
    from observed_not_key_file [OF l this, of p]
    have "read_to_string (file_name a p) s' = read_to_string (file_name a p) s"
      by (intro read_to_string_frame [OF assms(2)]) auto
    then have same: "open_sealed (vlt X) (file_name a p) w s' = open_sealed (vlt X) (file_name a p) w s"
      "read_open (vlt X) (file_name a p) s' = read_open (vlt X) (file_name a p) s" for w
      by (simp_all add: open_sealed_def read_open_def)
    show ?thesis
      unfolding vault_open_held [OF l v p] vault_open_held [OF l v'(1) k [THEN iffD2, OF p]]
      by (cases p; cases pw) (use same in simp_all)
  qed
qed

lemma managed_held:
  assumes "disk_ok X (disk c)" and "fst (accounts_of X c) a \<noteq> None"
  shows "require_managed X a c = Inr ()"
  using assms by (simp add: require_managed_Inr manages_eq accounts_of_def seen_by_def)

lemma import_opens:
  assumes "account_laws X" and "open_json_law (vlt X)" and "keystore_law (vlt X)" and "disk_ok X (disk c)"
    and "parse_secret (vhex (vlt X)) t = Inr k" and "import_account X t pw c = (Inr b, c')"
  shows "b = addr_of (vkeys (vlt X)) k" and "vault_open (vlt X) b pw (disk c') = Inr k"
    and "require_managed X b c' = Inr ()" and "disk_ok X (disk c')"
proof -
  have h: "hex_laws (vhex (vlt X))" using assms(1) by (simp add: account_laws_def)
  have k: "length k = 32" by (rule parse_secret_length [OF h assms(5)])
  from assms(6) obtain c1 s q where 1: "take_into_vault X k pw c = (Inr b, c1)"
    and 2: "observed_remove (obs X) b (disk c1) = (Inr q, s)" and d: "disk c' = s"
    by (cases rule: import_ends) (use assms(5) in \<open>auto split: sum.splits\<close>)
  have t: "disk_ok X (disk c1)" "b = addr_of (vkeys (vlt X)) k"
    using take_into_vault_outcome [OF assms(4) k 1] by simp_all
  then show "b = addr_of (vkeys (vlt X)) k" by simp
  obtain n where vc: "vault_create (vlt X) k pw n (disk c) = (Inr b, disk c1)"
    using 1 by (auto simp: take_into_vault_def on_disk_Inr Let_def)
  have "addr_laws (vkeys (vlt X))" "vault_ok (vkeys (vlt X)) (disk c)" using assms(4) by (simp_all add: disk_ok_def)
  from create_open_roundtrip [OF this(1) h assms(2,3) this(2) k vc]
  have o: "vault_open (vlt X) b pw (disk c1) = Inr k" .
  have f: "frame {Utf8 OBSERVED_STAGED, Utf8 OBSERVED_FILE} (disk c1) s"
    using observed_calls_frame(2) [of "disk c1" "obs X" b] 2 by simp
  show "vault_open (vlt X) b pw (disk c') = Inr k" unfolding d vault_open_observed [OF t(1) f] by (rule o)
  have e: "disk_ok X (disk c') \<and> account_effect X (Import t pw) True (accounts_of X c) (accounts_of X c')"
    using import_effect [OF assms(4) h assms(6)] by simp
  then show "disk_ok X (disk c')" by blast
  from e have "fst (accounts_of X c') b \<noteq> None" using assms(5) t(2) by (auto simp: taken_def)
  with e show "require_managed X b c' = Inr ()" by (intro managed_held) blast+
qed

lemma export_Inr:
  "export_account X a pw c = Inr t \<longleftrightarrow>
     require_managed X a c = Inr () \<and> (\<exists>k. vault_open (vlt X) a pw (disk c) = Inr k \<and> t = hex_encode (vhex (vlt X)) k)"
  by (auto simp: export_account_def bind_res_Inr)

lemma plan_length: "length (plan F es) = length es"
proof (induction es)
  case Nil
  then show ?case by (simp add: plan_def List.map_filter_simps)
next
  case (Cons s es)
  then show ?case
    by (cases s) (simp_all add: plan_def map_filter_Cons revocation_of_def addition_of_def)
qed

end
