(* ===== verification/Account_Properties.thy ===== *)
theory Account_Properties
  imports Account_Calls
begin

text \<open>
  What the account core promises of the accounts themselves: which it has after any run of
  calls, what an exported key is worth, what forgetting leaves, and what the listing shows.
\<close>

section \<open>Runs\<close>

text \<open>
  C7: Over any run of calls, with the directory failing by any schedule, the keys held and the
  addresses observed are those the calls' effects give, in order: a create or import adds one
  account that was not held, a forget removes the one it names, an observe adds an address not
  held, a stop removes one observed, and nothing else changes either. A call that failed changed
  nothing, but for an import whose key was taken before it failed.
\<close>

theorem account_runs_refine_sets:
  assumes "account_laws X" and "disk_ok X (disk c)" and "list_all (call_legal X) cls"
    and "session (perform X) cls c = (oks, c')"
  shows "disk_ok X (disk c') \<and> length oks = length cls
    \<and> account_run X (zip cls oks) (accounts_of X c) (accounts_of X c')"
  by (rule perform_session [OF assms])

lemma sample_account_laws [simp]: "account_laws sample_app"
  by (simp add: account_laws_def sample_generate_law sample_hex_laws)

lemma sample_disk_ok: "disk_ok sample_app new_disk" "disk_ok sample_app open_disk"
proof -
  have n: "disk_ok sample_app new_disk" by (simp add: disk_ok_def sample_addr_laws)
  then show "disk_ok sample_app new_disk" .
  show "disk_ok sample_app open_disk"
    using directory.insert_seen [OF n, of one_key None 0] open_disk_created by auto
qed

definition sample_calls :: "call list" where
  "sample_calls = [ObserveAccount two_addr, ForgetAccount one_addr, Import (to_hex two_key) None]"

theorem account_runs_refine_sets_witness:
  "let (oks, c') = session (perform sample_app) sample_calls open_core in
     length oks = 3 \<and> account_run sample_app (zip sample_calls oks) (accounts_of sample_app open_core) (accounts_of sample_app c')"
proof -
  have v: "list_all (call_legal sample_app) sample_calls"
    by (simp add: sample_calls_def valid_addr_def addr_laws_of [OF sample_addr_laws])
  from account_runs_refine_sets [OF _ _ v prod.collapse [symmetric], of open_core]
  show ?thesis by (simp add: sample_disk_ok case_prod_beta sample_calls_def)
qed

section \<open>Export and import\<close>

text \<open>
  C26: An exported key is the account, on any machine: what an import makes of the exported text
  is the account it was exported from, under any new password or none, and exporting it again
  there gives the same text.
\<close>

theorem export_import_roundtrip:
  assumes "account_laws X" and "open_json_law (vlt X)" and "keystore_law (vlt X)" and "disk_ok X (disk c1)"
    and "export_account X a pw c = Inr t" and "import_account X t pw1 c1 = (Inr b, c2)"
  shows "b = a \<and> export_account X a pw1 c2 = Inr t"
proof -
  have h: "hex_laws (vhex (vlt X))" using assms(1) by (simp add: account_laws_def)
  obtain k where o: "vault_open (vlt X) a pw (disk c) = Inr k" and t: "t = hex_encode (vhex (vlt X)) k"
    using assms(5) by (auto simp: export_Inr)
  have p: "parse_secret (vhex (vlt X)) t = Inr k" unfolding t by (rule parse_secret_encode [OF h vault_open_length [OF h o]])
  note i = import_opens [OF assms(1-4) p assms(6)]
  have "b = a" using i(1) vault_open_proof [OF o] by simp
  with i(2,3) t show ?thesis by (simp add: export_Inr)
qed

lemma sample_exports: "export_account sample_app one_addr None open_core = Inr (to_hex one_key)"
  by (simp add: export_Inr require_managed_Inr sample_opens) (simp add: sample_hex_def)

lemma sample_parses: "parse_secret sample_hex (to_hex one_key) = Inr one_key"
  using parse_secret_encode [OF sample_hex_laws, of one_key] by (simp add: sample_hex_def)

lemma sample_imports:
  "\<exists>c2. import_account sample_app (to_hex one_key) None (core_new sample_app new_disk (sample_world []) Memory) = (Inr one_addr, c2)"
proof -
  let ?c = "core_new sample_app new_disk (sample_world []) Memory"
  obtain s where v: "vault_create sample_vault one_key None (entropy (outside ?c)) new_disk = (Inr one_addr, s)"
    using create_succeeds [of sample_vault new_disk one_key None] by (auto simp: sample_addr_laws)
  have e: "disk ?c = new_disk" by (simp add: core_new_def)
  have "observed_list sample_observed s = observed_list sample_observed new_disk"
    using create_observed_list [of sample_vault one_key sample_observed None _ new_disk] v by (metis sample_addr_laws sample_vault_sel(1) sample_key_lengths(1) snd_conv)
  also have "\<dots> = Inr []" by (simp add: observed_list_def read_to_string_def)
  finally have l: "observed_list sample_observed s = Inr []" .
  have r: "observed_remove sample_observed one_addr s = (Inr False, s)"
    by (simp add: observed_remove_def and_then_def of_read_def l ok_def)
  show ?thesis
    by (simp add: import_account_def and_then_def of_read_def sample_parses take_into_vault_def on_disk_def v e r ok_def Let_def)
qed

theorem export_import_roundtrip_witness:
  "\<exists>c2. import_account sample_app (to_hex one_key) None (core_new sample_app new_disk (sample_world []) Memory) = (Inr one_addr, c2)
     \<and> export_account sample_app one_addr None c2 = Inr (to_hex one_key)"
proof -
  obtain c2 where i: "import_account sample_app (to_hex one_key) None (core_new sample_app new_disk (sample_world []) Memory) = (Inr one_addr, c2)"
    using sample_imports by blast
  have d: "disk (core_new sample_app new_disk w Memory) = new_disk" for w by (simp add: core_new_def)
  from export_import_roundtrip [OF _ _ _ _ sample_exports i] i d
  show ?thesis by (simp add: sample_open_json_law sample_keystore_law sample_disk_ok)
qed

text \<open>
  C36: An import that fails has taken nothing and unlocked nothing, unless what failed is the list of
  observed accounts: then the key is in the vault, the account is managed, and under a
  password it is unlocked as well, though the call reports an error.
\<close>

theorem import_failures:
  assumes "account_laws X" and "disk_ok X (disk c)" and "import_account X t pw c = (Inl e, c')"
  shows "case e of
      Observed e0 \<Rightarrow> \<exists>k. parse_secret (vhex (vlt X)) t = Inr k \<and> taken X k pw (accounts_of X c) (accounts_of X c')
        \<and> require_managed X (addr_of (vkeys (vlt X)) k) c' = Inr ()
        \<and> (pw \<noteq> None \<longrightarrow> unlocked c' (addr_of (vkeys (vlt X)) k) = Some k)
    | _ \<Rightarrow> accounts_of X c' = accounts_of X c \<and> unlocked c' = unlocked c"
  using assms(3)
proof (cases rule: import_ends)
  case (unparsed e1)
  then have "\<exists>w. e = Key w" by (auto simp: parse_secret_def Let_def map_err_Inl)
  with unparsed show ?thesis by auto
next
  case (untaken k e1)
  have h: "hex_laws (vhex (vlt X))" using assms(1) by (simp add: account_laws_def)
  have s: "unlocked c' = unlocked c" using take_into_vault_sel [OF untaken(2)] by (simp add: session_of_def)
  have "\<exists>v. e = Vault v" using untaken by (auto simp: take_into_vault_def on_disk_Inl Let_def)
  with take_into_vault_outcome [OF assms(2) parse_secret_length [OF h untaken(1)] untaken(2)] s show ?thesis by auto
next
  case (listed k a c1 q s)
  have h: "hex_laws (vhex (vlt X))" using assms(1) by (simp add: account_laws_def)
  from take_into_vault_outcome [OF assms(2) parse_secret_length [OF h listed(1)] listed(2)]
  have 1: "disk_ok X (disk c1)" "a = addr_of (vkeys (vlt X)) k" "taken X k pw (accounts_of X c) (accounts_of X c1)" by simp_all
  from listed(5) obtain e0 where q: "q = Inl e0" and e: "e = Observed e0" by (auto split: sum.splits)
  from directory.drop_seen [OF 1(1) listed(3)] q
  have 2: "disk_ok X (disk c')" "accounts_of X c' = accounts_of X c1" by (simp_all add: listed(4) accounts_of_def)
  have "fst (accounts_of X c') a \<noteq> None" unfolding 2 1(2) using 1(3) by (auto simp: taken_def)
  with managed_held [OF 2(1), of a] have "require_managed X a c' = Inr ()" by blast
  moreover have "unlocked c' a = Some k" if "pw \<noteq> None" using that by (simp add: listed(4) keep_unlocked_def)
  ultimately show ?thesis using 1 2 listed(1) e by auto
qed

text \<open>A directory that fails from the call after the one that makes the key's file durable.\<close>

definition torn_disk :: fs where
  "torn_disk = snd (observed_add sample_observed one_addr (dying_disk 20))"

definition torn_core :: score where
  "torn_core = core_new sample_app torn_disk (sample_world []) Memory"

lemma torn_disk_ok: "disk_ok sample_app torn_disk"
proof -
  have d: "disk_ok sample_app (dying_disk 20)" by (simp add: disk_ok_def sample_addr_laws)
  have "valid_addr sample_keys one_addr" by (simp add: valid_addr_def addr_laws_of [OF sample_addr_laws])
  with directory.add_seen [OF d _ prod.collapse [symmetric], of one_addr] show ?thesis by (simp add: torn_disk_def)
qed

lemma torn_import: "\<exists>e c'. import_account sample_app (to_hex one_key) None torn_core = (Inl (Observed e), c')"
proof -
  let ?v = "vault_create sample_vault one_key None 1 torn_disk"
  have "is_ok (fst ?v)" by code_simp
  then obtain a s where v: "?v = (Inr a, s)" by (cases ?v; cases "fst ?v") auto
  have a: "a = one_addr"
    using create_returned(2) [OF _ _ _ v] torn_disk_ok by (simp add: disk_ok_def)
  have "\<not> is_ok (fst (observed_remove sample_observed one_addr (snd ?v)))" by code_simp
  then obtain e s' where r: "observed_remove sample_observed one_addr s = (Inl e, s')"
    using v by (cases "observed_remove sample_observed one_addr s"; cases "fst (observed_remove sample_observed one_addr s)") auto
  show ?thesis
    using v r by (simp add: import_account_def and_then_def of_read_def sample_parses take_into_vault_def on_disk_def
        torn_core_def core_new_def sample_world_def Let_def a)
qed

theorem import_failures_witness:
  "\<exists>e c'. import_account sample_app (to_hex one_key) None torn_core = (Inl (Observed e), c')
     \<and> require_managed sample_app one_addr c' = Inr ()"
proof -
  obtain e c' where i: "import_account sample_app (to_hex one_key) None torn_core = (Inl (Observed e), c')"
    using torn_import by blast
  have "disk torn_core = torn_disk" by (simp add: torn_core_def core_new_def)
  with import_failures [OF _ _ i] i show ?thesis by (auto simp: torn_disk_ok sample_parses)
qed

section \<open>Forgetting\<close>



section \<open>The listing\<close>

text \<open>What a row of the listing says of its account.\<close>

definition row_tells :: "('l, 'd, 'r, 'n) app \<Rightarrow> ('r, 'n) core \<Rightarrow> AccountAddr \<Rightarrow> AccountSummary \<Rightarrow> bool" where
  "row_tells X c a row \<longleftrightarrow> (let held = fst (accounts_of X c) a in
     sum_address row = to_string a \<and> sum_managed row = (held \<noteq> None) \<and> sum_protected row = (held = Some True)
     \<and> sum_locked row = (held = Some True \<and> unlocked c a = None)
     \<and> sum_pending row = (if held = None then 0 else length (staged_for a c))
     \<and> sum_display_name row = live_name X a c \<and> sum_resolved row = answered a c \<and> sum_problem row = problem a c)"

lemma accounts_rows:
  assumes "disk_ok X (disk c)"
  obtains as rows where "accounts X c = Inr rows" and "list_all2 (row_tells X c) as rows" and "distinct as"
    and "set as = dom (fst (accounts_of X c)) \<union> snd (accounts_of X c)"
proof -
  have l: "addr_laws (vkeys (vlt X))" and v: "vault_ok (vkeys (vlt X)) (disk c)" and o: "observed_ok (obs X) (disk c)"
    using assms by (simp_all add: disk_ok_def)
  obtain hs where hs: "vault_accounts (vlt X) (disk c) = Inr hs" using vault_accounts_total [OF l v] by blast
  obtain xs where xs: "observed_list (obs X) (disk c) = Inr xs" "distinct xs" "snd (accounts_of X c) = set xs"
    using o by (metis observed_total accounts_of_def seen_by_def snd_conv)
  have h: "fst (accounts_of X c) a = Some p \<longleftrightarrow> StoredAccount a p \<in> set hs" for a p
    using vault_held_accounts [OF l v hs] by (simp add: accounts_of_def seen_by_def)
  have d: "distinct (map addr hs)" using vault_accounts_Inr [OF hs] l by blast
  have m: "a \<in> addr ` set hs \<longleftrightarrow> fst (accounts_of X c) a \<noteq> None" for a
  proof -
    have "a \<in> addr ` set hs \<longleftrightarrow> (\<exists>p. StoredAccount a p \<in> set hs)"
      by (metis (no_types, lifting) StoredAccount.collapse StoredAccount.sel(1) image_iff)
    with h [of a] show ?thesis by (cases "fst (accounts_of X c) a") auto
  qed
  define others where "others = filter (\<lambda>a. \<not> list_ex (\<lambda>h. addr h = a) hs) xs"
  have n: "fst (accounts_of X c) a = None" if "a \<in> set others" for a
    using that m by (simp add: others_def list_ex_addr)
  have 1: "list_all2 (row_tells X c) (map addr hs) (map (\<lambda>h.
              \<lparr>sum_address = to_string (addr h), sum_managed = True, sum_protected = protected h,
               sum_locked = (protected h \<and> unlocked c (addr h) = None),
               sum_resolved = answered (addr h) c, sum_display_name = live_name X (addr h) c,
               sum_pending = length (planned_entries X (addr h) c), sum_problem = problem (addr h) c\<rparr>) hs)"
  proof -
    have "fst (accounts_of X c) (addr h) = Some (protected h)" if "h \<in> set hs" for h
      using h [of "addr h" "protected h"] that by (cases h) simp
    then show ?thesis
      by (simp add: list_all2_map1 list_all2_map2 list_all2_same row_tells_def Let_def planned_entries_def plan_length)
  qed
  have 2: "list_all2 (row_tells X c) others (map (\<lambda>a.
              \<lparr>sum_address = to_string a, sum_managed = False, sum_protected = False, sum_locked = False,
               sum_resolved = answered a c, sum_display_name = live_name X a c,
               sum_pending = 0, sum_problem = problem a c\<rparr>) others)"
    using n by (simp add: list_all2_map2 list_all2_same row_tells_def Let_def)
  show ?thesis
  proof (rule that [OF _ list_all2_appendI [OF 1 2]])
    show "accounts X c = Inr (map (\<lambda>h.
              \<lparr>sum_address = to_string (addr h), sum_managed = True, sum_protected = protected h,
               sum_locked = (protected h \<and> unlocked c (addr h) = None),
               sum_resolved = answered (addr h) c, sum_display_name = live_name X (addr h) c,
               sum_pending = length (planned_entries X (addr h) c), sum_problem = problem (addr h) c\<rparr>) hs @ map (\<lambda>a.
              \<lparr>sum_address = to_string a, sum_managed = False, sum_protected = False, sum_locked = False,
               sum_resolved = answered a c, sum_display_name = live_name X a c,
               sum_pending = 0, sum_problem = problem a c\<rparr>) others)"
      by (simp add: accounts_def hs xs(1) others_def)
    show "distinct (map addr hs @ others)"
      using d xs(2) by (auto simp: others_def list_ex_addr)
    show "set (map addr hs @ others) = dom (fst (accounts_of X c)) \<union> snd (accounts_of X c)"
      using m by (auto simp: others_def list_ex_addr xs(3))
  qed
qed

text \<open>
  C37: The listing has one row for each account the app holds or observes and no other, an account
  it both holds and observes included; each row says whether its key is here, is sealed and is
  not unlocked, and how many edits are waiting, which for an observed account is none.
\<close>

theorem accounts_one_row_each:
  assumes "disk_ok X (disk c)"
  shows "\<exists>as rows. accounts X c = Inr rows \<and> list_all2 (row_tells X c) as rows \<and> distinct as
    \<and> distinct (map sum_address rows) \<and> set as = dom (fst (accounts_of X c)) \<union> snd (accounts_of X c)"
proof -
  obtain as rows where a: "accounts X c = Inr rows" and r: "list_all2 (row_tells X c) as rows" and d: "distinct as"
    and s: "set as = dom (fst (accounts_of X c)) \<union> snd (accounts_of X c)"
    by (rule accounts_rows [OF assms])
  have "list_all2 (\<lambda>a row. to_string a = sum_address row) as rows"
    by (rule list_all2_mono [OF r]) (simp add: row_tells_def Let_def)
  then have "map sum_address rows = map to_string as"
    by (intro nth_equalityI) (simp_all add: list_all2_conv_all_nth)
  then have "distinct (map sum_address rows)"
    using d by (simp add: distinct_map inj_on_def AccountAddr.expand)
  with a r d s show ?thesis by blast
qed

theorem accounts_one_row_each_witness:
  "\<exists>row. accounts sample_app named_core = Inr [row] \<and> row_tells sample_app named_core one_addr row"
proof -
  have h: "vault_held sample_keys open_disk = [one_addr \<mapsto> False]"
    using directory.insert_seen [OF sample_disk_ok(1), of one_key None 0] open_disk_created
    by (auto simp: seen_by_def fun_eq_iff)
  have s: "dom (fst (accounts_of sample_app named_core)) \<union> snd (accounts_of sample_app named_core) = {one_addr}"
    using directory.insert_seen [OF sample_disk_ok(1), of one_key None 0] open_disk_created
    by (simp add: accounts_of_def seen_by_def h listed_def observed_list_def [of _ new_disk] read_to_string_def)
      (auto simp: dom_def)
  obtain as rows where a: "accounts sample_app named_core = Inr rows" "list_all2 (row_tells sample_app named_core) as rows"
    "distinct as" "set as = {one_addr}"
    using accounts_one_row_each [of sample_app named_core] by (auto simp: sample_disk_ok s)
  then have "as = [one_addr]"
    by (metis distinct_length_2_or_more empty_set list.distinct(1) list.set_cases set_ConsD singletonD list.set_intros insert_not_empty neq_Nil_conv)
  with a show ?thesis by (auto simp: list_all2_Cons1)
qed

text \<open>
  A list of observed accounts that cannot be read takes nothing from an account whose key is
  here: it can still be read, shown and written. Only what needs the list reports the error,
  and changes nothing: the listing of all accounts, stopping, and any call for an account
  not held.
\<close>

theorem unreadable_list_costs_only_itself:
  assumes "addr_laws (vkeys (vlt X))" and "vault_ok (vkeys (vlt X)) (disk c)"
    and "vault_held (vkeys (vlt X)) (disk c) a \<noteq> None" and "vault_held (vkeys (vlt X)) (disk c) b = None"
    and "observed_list (obs X) (disk c) = Inl e"
  shows "require_managed X a c = Inr () \<and> require_known X a c = Inr ()
    \<and> (\<exists>st. state X a c = Inr st \<and> st_managed st)
    \<and> accounts X c = Inl (Observed e) \<and> stop_observing X a c = (Inl (Observed e), c)
    \<and> require_managed X b c = Inl (Observed e) \<and> require_known X b c = Inl (Observed e)
    \<and> observe X b c = (Inl (Observed e), c)"
proof -
  have m: "manages X a c = Inr True" "manages X b c = Inr False"
    using assms(3,4) by (simp_all add: manages_held [OF assms(1,2)])
  have o: "observes X b c = Inl (Observed e)" by (simp add: observes_def assms(5))
  obtain hs where hs: "vault_accounts (vlt X) (disk c) = Inr hs" using vault_accounts_total [OF assms(1,2)] by blast
  have "\<exists>h. find (\<lambda>h. addr h = a) hs = Some h"
    using m(1) hs by (auto simp: manages_def list_ex_iff find_None_iff simp flip: not_None_eq)
  then obtain h where h: "find (\<lambda>h. addr h = a) hs = Some h" by blast
  have "st_managed (state_of X a c (Some h))"
    by (simp add: state_of_def Let_def split: option.split sum.split prod.split)
  moreover have "state X a c = Inr (state_of X a c (Some h))" by (simp add: state_def hs h Let_def)
  ultimately have st: "\<exists>st. state X a c = Inr st \<and> st_managed st" by blast
  have "observed_remove (obs X) a (disk c) = (Inl e, disk c)" "observed_add (obs X) b (disk c) = (Inl e, disk c)"
    by (simp_all add: observed_remove_def observed_add_def and_then_def of_read_def assms(5))
  then show ?thesis
    using m o st hs
    by (simp add: require_managed_def require_known_def accounts_def assms(5) stop_observing_def observe_def
        and_then_def of_read_def on_disk_def)
qed

definition spoilt_core :: score where
  "spoilt_core = open_core\<lparr>disk := set_node (Utf8 OBSERVED_FILE) (File \<lparr>data = NotText, fmode = octal 6 0 0\<rparr>) open_disk\<rparr>"

lemma spoilt_disk:
  shows "vault_ok sample_keys (disk spoilt_core)" and "vault_held sample_keys (disk spoilt_core) = vault_held sample_keys open_disk"
    and "observed_list sample_observed (disk spoilt_core) = Inl (ListIo InvalidData)"
proof -
  have n: "node_at m (disk spoilt_core) = (if m = Utf8 OBSERVED_FILE then Some (File \<lparr>data = NotText, fmode = octal 6 0 0\<rparr>)
      else node_at m open_disk)" for m by (simp add: spoilt_core_def)
  have k: "key_file sample_keys (disk spoilt_core) a p = key_file sample_keys open_disk a p" for a p
    using observed_not_key_file(1) [OF sample_addr_laws, of a p] by (auto simp: key_file_def n)
  have r: "readable (disk spoilt_core)" "made (disk spoilt_core) = made open_disk"
    using vault_ok_readable [OF sample_disks_ok(1)] by (simp_all add: readable_def spoilt_core_def set_node_def)
  have "wf_fs (disk spoilt_core)"
    using sample_disks_ok(1) by (simp add: vault_ok_def wf_fs_def spoilt_core_def set_node_def)
  with k r sample_disks_ok(1) show "vault_ok sample_keys (disk spoilt_core)" by (simp add: vault_ok_def)
  show "vault_held sample_keys (disk spoilt_core) = vault_held sample_keys open_disk" by (simp add: vault_held_def k fun_eq_iff)
  show "observed_list sample_observed (disk spoilt_core) = Inl (ListIo InvalidData)"
    using r(1) by (simp add: observed_list_def read_to_string_def n readable_def)
qed

theorem unreadable_list_costs_only_itself_witness:
  "require_managed sample_app one_addr spoilt_core = Inr () \<and> accounts sample_app spoilt_core = Inl (Observed (ListIo InvalidData))"
proof -
  show ?thesis
    using unreadable_list_costs_only_itself [of sample_app spoilt_core one_addr two_addr]
    by (simp add: spoilt_disk two_not_held sample_addr_laws)
qed

end
