(* ===== verification/View_Properties.thy ===== *)
theory View_Properties
  imports Account_Calls
begin

text \<open>
  What the screen is told of one account: the numbers pending entries carry, the name in force
  and the names it supersedes, what an entry costs, and what is shown and refused when the
  log holds an entry this build cannot read.
\<close>

section \<open>The state's fields\<close>

text \<open>The rows of a log, before the superseded names are marked, and why it cannot be read.\<close>

definition log_rows :: "('l, 'd, 'r, 'n) app \<Rightarrow> 'l option \<Rightarrow> EntryRow list \<times> rstr option" where
  "log_rows X log = (case log of
     None \<Rightarrow> ([], None)
   | Some l \<Rightarrow> (case from_log (fmt X) l of
        Inr draft \<Rightarrow> (rows_from_draft X draft, None)
      | Inl e \<Rightarrow> (rows_by_context X l, Some (log_error_text (fmt X) e))))"

definition names_of :: "('l, 'd, 'r, 'n) app \<Rightarrow> 'l option \<Rightarrow> Name list" where
  "names_of X log = (case log of None \<Rightarrow> [] | Some l \<Rightarrow> live_display_names (fmt X) l)"

definition in_force :: "Name list \<Rightarrow> Name option" where
  "in_force names = (if names = [] then None else Some (last names))"

definition log_shown :: "('l, 'd, 'r, 'n) app \<Rightarrow> AccountAddr \<Rightarrow> ('r, 'n) core \<Rightarrow> 'l option" where
  "log_shown X a c = map_option rec_log (record_of X a c)"

lemma state_of_fields:
  shows "st_entries (state_of X a c held) =
      mark_superseded (rev (butlast (names_of X (log_shown X a c)))) (in_force (names_of X (log_shown X a c))) (fst (log_rows X (log_shown X a c)))"
    and "st_unreadable (state_of X a c held) = snd (log_rows X (log_shown X a c))"
    and "st_display_name (state_of X a c held) = map_option name_value (in_force (names_of X (log_shown X a c)))"
    and "st_display_name_index (state_of X a c held) = map_option name_index (in_force (names_of X (log_shown X a c)))"
    and "st_previous_names (state_of X a c held) = rev (butlast (names_of X (log_shown X a c)))"
    and "st_managed (state_of X a c held) = (held \<noteq> None)"
  by (simp_all add: state_of_def log_shown_def names_of_def in_force_def log_rows_def Let_def case_prod_beta)

lemma mark_superseded_length [simp]: "length (mark_superseded ps n rows) = length rows"
  by (simp add: mark_superseded_def split: option.split)

lemma mark_superseded_index [simp]: "map row_index (mark_superseded ps n rows) = map row_index rows"
  by (simp add: mark_superseded_def split: option.split)

lemma state_of_pending:
  "st_pending (state_of X a c held) =
     pending_rows X (planned_entries X a c) (of_nat (length (st_entries (state_of X a c held))))"
  by (simp add: state_of_def Let_def case_prod_beta)

lemma state_Inr: "state X a c = Inr st \<Longrightarrow> \<exists>held. st = state_of X a c held"
  by (auto simp: state_def bind_res_Inr Let_def split: if_splits)

lemma state_managed:
  assumes "manages X a c = Inr True"
  shows "\<exists>h. state X a c = Inr (state_of X a c (Some h))"
proof -
  obtain hs where hs: "vault_accounts (vlt X) (disk c) = Inr hs" and m: "list_ex (\<lambda>h. addr h = a) hs"
    using assms by (auto simp: manages_def bind_res_Inr)
  have "find (\<lambda>h. addr h = a) hs \<noteq> None" using m by (auto simp: find_None_iff list_ex_iff)
  then obtain h where "find (\<lambda>h. addr h = a) hs = Some h" by blast
  then have "state X a c = Inr (state_of X a c (Some h))" by (simp add: state_def hs Let_def)
  then show ?thesis by (rule exI)
qed

section \<open>Pending entries\<close>

lemma pending_rows_nth:
  "length (pending_rows X es base) = length es"
  "k < length es \<Longrightarrow> pending_rows X es base ! k = row_from X (base + of_nat k) (es ! k) (\<not> is_revocation (es ! k))"
  by (simp_all add: pending_rows_def nth_enumerate_eq)

lemma row_from_sel [simp]:
  "row_index (row_from X i e l) = i" "row_live (row_from X i e l) = l"
  "row_superseded_by (row_from X i e l) = None" "row_kind (row_from X i e l) = fst (describe (vhex (vlt X)) (fmt X) e)"
  by (simp_all add: row_from_def split: prod.split)

lemma entries_length:
  assumes "extendable X a c = Inr base"
  shows "length (st_entries (state_of X a c held)) =
    (case base of None \<Rightarrow> 0 | Some d \<Rightarrow> length (entries (fmt X) d))"
  using assms
  by (auto simp: state_of_fields(1) extendable_def log_rows_def log_shown_def rows_from_draft_def Let_def split: option.splits sum.splits)

lemma read_store_tidy:
  assumes "tidy c" and "read_store X a c = (Inr u, c1)"
  shows "tidy c1"
proof -
  obtain c0 where r: "resolve_core X a c = (Inr (), c0)" and c1: "c1 = settle X a (answered_now a c0)"
    using assms(2) by (auto simp: read_store_Inr)
  have "tidy (answered_now a c0)" using assms(1) resolve_core_sel [OF r] by (simp add: tidy_def)
  then show ?thesis unfolding c1 by (rule tidy_settle)
qed

text \<open>
  The pending rows carry the numbers their entries will have: after a read, the rows the
  screen shows are as many as the edits waiting and count up from the log's length, and a
  publish made of that read reports the first of them as the first entry it wrote.
\<close>

theorem pending_numbers_hold:
  assumes "tidy c" and "read_store X a c = (Inr (), c1)" and "state X a c1 = Inr st"
    and "publish X a c = (Inr p, c')" and "first_new_index p = Some i"
  shows "st_pending st \<noteq> [] \<and> length (st_pending st) = length (staged_for a c1)
    \<and> (\<forall>k < length (st_pending st). row_index (st_pending st ! k) = i + of_nat k)"
proof -
  obtain held where st: "st = state_of X a c1 held" using state_Inr [OF assms(3)] by blast
  have l: "length (planned_entries X a c1) = length (staged_for a c1)" by (simp add: planned_entries_def plan_length)
  obtain es base where e: "staged c1 a = Some es" and b: "extendable X a c1 = Inr base" and i: "i = first_new_of X base"
    using publish_ends [OF assms(4)]
  proof cases
    case (attempted key c2 es)
    with assms(2) have e: "staged c1 a = Some es" by simp
    from attempted(5) show ?thesis
    proof cases
      case (published base log c3 c4)
      with e assms(2,5) attempted(3) that show ?thesis by simp
    qed
  qed (use assms(2,5) in simp)+
  have "staged_for a c1 \<noteq> []"
    using read_store_tidy [OF assms(1,2)] e by (auto simp: tidy_def staged_for_def)
  moreover have "of_nat (length (st_entries st)) = i"
    using entries_length [OF b] by (auto simp: st i first_new_of_def split: option.split)
  moreover have "st_pending st = pending_rows X (planned_entries X a c1) (of_nat (length (st_entries st)))"
    unfolding st by (rule state_of_pending)
  ultimately have p: "st_pending st = pending_rows X (planned_entries X a c1) i"
    and n: "length (planned_entries X a c1) \<noteq> 0" using l by simp_all
  have "st_pending st \<noteq> []"
    using n pending_rows_nth(1) [of X "planned_entries X a c1" i] unfolding p by auto
  then show ?thesis unfolding p by (simp add: pending_rows_nth l)
qed

theorem pending_numbers_hold_witness:
  "\<exists>st. state sample_app one_addr read_core = Inr st \<and> map row_index (st_pending st) = [0]"
proof -
  have m: "manages sample_app one_addr read_core = Inr True" by simp
  obtain st where st: "state sample_app one_addr read_core = Inr st" using state_managed [OF m] by blast
  have "tidy named_core" by (simp add: tidy_def)
  have "first_new_index \<lparr>first_new_index = Some 0, pub_dropped = 0\<rparr> = Some 0" by simp
  note p = pending_numbers_hold [OF \<open>tidy named_core\<close> named_read st named_published this]
  then have "length (st_pending st) = length (staged_for one_addr read_core)" by blast
  then have l: "length (st_pending st) = 1" by (simp add: staged_for_def)
  with p have "row_index (st_pending st ! 0) = 0" by force
  with l have "map row_index (st_pending st) = [0]" by (cases "st_pending st") auto
  with st show ?thesis by (intro exI [of _ st]) simp
qed

section \<open>Names\<close>

text \<open>
  What is relied on of the log crate's views of one log: the live entries under a context are the
  log's live entries that carry it, oldest first, and an index names one entry (\<open>manager.rs\<close>:
  "every live name, oldest first"; "the index a revocation targets").
\<close>

definition consistent_view :: "('l, 'd) log_format \<Rightarrow> 'l \<Rightarrow> 'd \<Rightarrow> bool" where
  "consistent_view F l d \<longleftrightarrow> from_log F l = Inr d
     \<and> entries_for F l DISPLAY_NAME_CONTEXT = filter (\<lambda>i. context_of (e_entry i) = Some DISPLAY_NAME_CONTEXT) (live_entries F d)
     \<and> sorted_wrt (<) (map e_index (live_entries F d))
     \<and> set (live_entries F d) \<subseteq> set (entries F d) \<and> distinct (map e_index (entries F d))"

lemma name_of_entry_Some:
  "name_of_entry i = Some n \<longleftrightarrow> (\<exists>ctx v. e_entry i = Add ctx (Text v) \<and> n = \<lparr>name_index = e_index i, name_value = v\<rparr>)"
  by (auto simp: name_of_entry_def split: AccountEntry.splits EntryData.splits)

lemma set_map_filter_iff: "y \<in> set (List.map_filter f xs) \<longleftrightarrow> (\<exists>x \<in> set xs. f x = Some y)"
  by (induction xs) (auto simp: map_filter_Cons List.map_filter_simps split: option.splits)

lemma sorted_names:
  "sorted_wrt (<) (map e_index es) \<Longrightarrow> sorted_wrt (<) (map name_index (List.map_filter name_of_entry es))"
proof (induction es)
  case Nil
  then show ?case by (simp add: List.map_filter_simps)
next
  case (Cons i es)
  have "e_index i < name_index n" if "n \<in> set (List.map_filter name_of_entry es)" for n
    using that Cons.prems by (auto simp: set_map_filter_iff name_of_entry_Some)
  with Cons show ?case by (auto simp: map_filter_Cons name_of_entry_Some split: option.split)
qed

text \<open>In a list ordered by index, an index belongs to a name before the last or is the last's.\<close>

lemma before_last:
  assumes "sorted_wrt (<) (map name_index ns)" and "ns \<noteq> []"
  shows "list_ex (\<lambda>n. name_index n = j) (rev (butlast ns)) \<longleftrightarrow> j \<in> name_index ` set ns \<and> j \<noteq> name_index (last ns)"
    and "j \<in> name_index ` set ns \<Longrightarrow> j \<le> name_index (last ns)"
proof -
  obtain ms m where ns: "ns = ms @ [m]" using assms(2) by (cases ns rule: rev_cases) auto
  have l: "\<forall>n \<in> set ms. name_index n < name_index m" using assms(1) by (simp add: ns sorted_wrt_append)
  then show "list_ex (\<lambda>n. name_index n = j) (rev (butlast ns)) \<longleftrightarrow> j \<in> name_index ` set ns \<and> j \<noteq> name_index (last ns)"
    by (auto simp: ns list_ex_iff)
  show "j \<in> name_index ` set ns \<Longrightarrow> j \<le> name_index (last ns)" using l by (auto simp: ns less_imp_le)
qed

lemma display_kind:
  "fst (describe H F e) = lit ''displayName'' \<longleftrightarrow> (\<exists>v. e = Add DISPLAY_NAME_CONTEXT (Text v))"
  by (auto simp: describe_def lit_def split: AccountEntry.splits EntryData.splits)

lemma name_rows:
  assumes "consistent_view F l d" and "i \<in> set (entries F d)"
  shows "e_index i \<in> name_index ` set (live_display_names F l)
    \<longleftrightarrow> e_index i \<in> set (map e_index (live_entries F d)) \<and> (\<exists>v. e_entry i = Add DISPLAY_NAME_CONTEXT (Text v))"
proof -
  have i: "j = i" if "j \<in> set (live_entries F d)" "e_index j = e_index i" for j
    using assms that by (auto simp: consistent_view_def distinct_map inj_on_def)
  have "e_index i \<in> name_index ` set (live_display_names F l) \<longleftrightarrow>
      (\<exists>j \<in> set (live_entries F d). e_index j = e_index i \<and> (\<exists>v. e_entry j = Add DISPLAY_NAME_CONTEXT (Text v)))"
    using assms(1)
    by (force simp: live_display_names_def consistent_view_def set_map_filter_iff name_of_entry_Some context_of_def image_iff)
  also have "\<dots> \<longleftrightarrow> e_index i \<in> set (map e_index (live_entries F d)) \<and> (\<exists>v. e_entry i = Add DISPLAY_NAME_CONTEXT (Text v))"
    using i by (force simp: image_iff)
  finally show ?thesis .
qed

text \<open>
  C38: One name is in force: it is the highest-indexed live display name, and on the screen every
  other live display name is marked as superseded by it, and no other row is marked.
\<close>

theorem one_name_in_force:
  assumes "record_of X a c = Some rec" and "consistent_view (fmt X) (rec_log rec) d"
    and "state X a c = Inr st" and "row \<in> set (st_entries st)"
  shows "row_superseded_by row =
      (if row_live row \<and> row_kind row = lit ''displayName'' \<and> st_display_name_index st \<noteq> Some (row_index row)
       then st_display_name_index st else None)
    \<and> (row_live row \<and> row_kind row = lit ''displayName'' \<longrightarrow>
         (\<exists>i. st_display_name_index st = Some i \<and> row_index row \<le> i))"
proof -
  obtain held where st: "st = state_of X a c held" using state_Inr [OF assms(3)] by blast
  let ?ns = "live_display_names (fmt X) (rec_log rec)"
  have n: "names_of X (log_shown X a c) = ?ns" and r: "fst (log_rows X (log_shown X a c)) = rows_from_draft X d"
    using assms(2) by (simp_all add: names_of_def log_shown_def assms(1) log_rows_def consistent_view_def)
  have x: "st_display_name_index st = map_option name_index (in_force ?ns)"
    unfolding st state_of_fields(4) n ..
  have es: "st_entries st = mark_superseded (rev (butlast ?ns)) (in_force ?ns) (rows_from_draft X d)"
    unfolding st state_of_fields(1) n r ..
  have srt: "sorted_wrt (<) (map name_index ?ns)"
  proof -
    have "sorted_wrt (<) (map e_index (entries_for (fmt X) (rec_log rec) DISPLAY_NAME_CONTEXT))"
      using assms(2) by (simp add: consistent_view_def sorted_wrt_map sorted_wrt_filter)
    then show ?thesis unfolding live_display_names_def by (rule sorted_names)
  qed
  obtain e where e: "e \<in> set (entries (fmt X) d)" and
    row: "row = (let row0 = row_from X (e_index e) (e_entry e) (e_index e \<in> set (map e_index (live_entries (fmt X) d))) in
        if ?ns \<noteq> [] \<and> list_ex (\<lambda>n. name_index n = e_index e) (rev (butlast ?ns))
        then row0\<lparr>row_superseded_by := Some (name_index (last ?ns))\<rparr> else row0)"
    using assms(4) unfolding es
    by (auto simp: mark_superseded_def in_force_def rows_from_draft_def Let_def split: if_splits)
  have k: "row_live row \<and> row_kind row = lit ''displayName'' \<longleftrightarrow> e_index e \<in> name_index ` set ?ns"
    and j: "row_index row = e_index e"
    unfolding name_rows [OF assms(2) e] by (simp_all add: row Let_def display_kind)
  show ?thesis
  proof (cases "?ns = []")
    case True
    with k show ?thesis by (simp add: row Let_def x in_force_def)
  next
    case False
    note b = before_last [OF srt False, of "e_index e"]
    have "row_superseded_by row =
        (if e_index e \<in> name_index ` set ?ns \<and> e_index e \<noteq> name_index (last ?ns) then Some (name_index (last ?ns)) else None)"
      unfolding b(1) [symmetric] by (simp add: row Let_def False)
    then show ?thesis using b(2) k j False by (auto simp: x in_force_def)
  qed
qed

lemma saro_resolved:
  "record_of sample_app one_addr published_core = Some \<lparr>rec_log = [Add DISPLAY_NAME_CONTEXT (Text saro)], rec_signed = saro_log\<rparr>"
proof -
  have "read_of published_core = read_of (answered_now one_addr named_core)"
    by (simp add: published_core_def written_core_def read_core_def)
  then have "answered one_addr published_core" by (simp add: answered_def read_at_def answered_now_def)
  then show ?thesis by (simp add: published_core_def)
qed

lemma saro_shown: "log_shown sample_app one_addr published_core = Some [Add DISPLAY_NAME_CONTEXT (Text saro)]"
  unfolding log_shown_def saro_resolved by simp

lemma saro_view: "consistent_view sample_fmt [Add DISPLAY_NAME_CONTEXT (Text saro)] [Add DISPLAY_NAME_CONTEXT (Text saro)]"
  by (simp add: consistent_view_def sample_fmt_def live_of_def with_index_def is_live_def is_revocation_def context_of_def)

theorem one_name_in_force_witness:
  "\<exists>st row. state sample_app one_addr published_core = Inr st \<and> st_entries st = [row] \<and> row_superseded_by row = None"
proof -
  have "disk published_core = open_disk" by (simp add: published_core_def written_core_def)
  then have m: "manages sample_app one_addr published_core = Inr True" by simp
  obtain h where st: "state sample_app one_addr published_core = Inr (state_of sample_app one_addr published_core (Some h))"
    using state_managed [OF m] by blast
  let ?st = "state_of sample_app one_addr published_core (Some h)"
  have "length (st_entries ?st) = 1"
    by (simp add: state_of_fields(1) saro_shown log_rows_def) (simp add: sample_fmt_def rows_from_draft_def with_index_def)
  then obtain row where e: "st_entries ?st = [row]" by (cases "st_entries ?st") auto
  have x: "st_display_name_index ?st = Some 0" 
    by (simp add: state_of_fields(4) saro_shown names_of_def live_display_names_def)
      (simp add: sample_fmt_def in_force_def live_of_def with_index_def is_live_def is_revocation_def context_of_def map_filter_Cons List.map_filter_simps name_of_entry_def)
  have "map row_index (st_entries ?st) = [0]"
    by (simp add: state_of_fields(1) saro_shown log_rows_def) (simp add: sample_fmt_def rows_from_draft_def with_index_def)
  with e have "row_index row = 0" by simp
  with one_name_in_force [OF saro_resolved _ st, of "[Add DISPLAY_NAME_CONTEXT (Text saro)]" row] e x
  have "row_superseded_by row = None" by (simp add: saro_view split: if_splits)
  with st e show ?thesis by (intro exI [of _ ?st] exI [of _ row]) simp
qed

section \<open>Costs\<close>










section \<open>Logs this build cannot read\<close>




end
