(* ===== verification/Messages.thy ===== *)
theory Messages
  imports Manager
begin

text \<open>
  What crosses to the view as text and JSON: the message of every error (the \<open>#[error]\<close>
  attributes of \<open>vault.rs\<close>, \<open>observed.rs\<close>, \<open>store.rs\<close> and \<open>manager.rs\<close>) and the JSON of every
  type the manager serializes (\<open>rename_all = "camelCase"\<close>).
\<close>

record abi_crates =
  io_text :: "io_error \<Rightarrow> rstr"           \<comment> \<open>\<open>Display\<close> of \<open>io::Error\<close>\<close>
  json_writer :: "Value \<Rightarrow> bytes list"    \<comment> \<open>the chunks \<open>serde_json::to_writer\<close> writes\<close>

section \<open>Messages\<close>

definition vault_error_text :: "abi_crates \<Rightarrow> VaultError \<Rightarrow> rstr" where
  "vault_error_text Y e = (case e of
     NoAccount \<Rightarrow> lit ''the vault holds no such account''
   | AccountExists a \<Rightarrow> lit ''the vault already holds this account''
   | EmptyPassword \<Rightarrow> lit ''an empty string is not a password''
   | PasswordRequired \<Rightarrow> lit ''this account has a password''
   | PasswordNotRequired \<Rightarrow> lit ''this account has no password''
   | WrongPassword \<Rightarrow> lit ''wrong password''
   | Corrupt why \<Rightarrow> lit ''unreadable vault: '' @ why
   | Io e \<Rightarrow> lit ''vault i/o: '' @ io_text Y e)"

definition observed_error_text :: "abi_crates \<Rightarrow> ObservedError \<Rightarrow> rstr" where
  "observed_error_text Y e = (case e of
     ListCorrupt why \<Rightarrow> lit ''unreadable list of observed accounts: '' @ why
   | ListIo e \<Rightarrow> lit ''observed accounts i/o: '' @ io_text Y e)"

definition store_error_text :: "StoreError \<Rightarrow> rstr" where
  "store_error_text e = (case e of
     Transport why \<Rightarrow> lit ''store request failed: '' @ why
   | Diverged \<Rightarrow> lit ''the store refused the log: it is not an extension of what it holds''
   | NoRoute \<Rightarrow> lit ''this store has no account-log route: nothing answers /v1/account there''
   | Status code why \<Rightarrow> lit ''store returned '' @ dec code @
       (case why of None \<Rightarrow> [] | Some r \<Rightarrow> lit '': '' @ r)
   | Malformed why \<Rightarrow> lit ''store returned something that is not a signed log: '' @ why)"

definition core_error_text :: "('l, 'd, 'r, 'n) app \<Rightarrow> abi_crates \<Rightarrow> CoreError \<Rightarrow> rstr" where
  "core_error_text X Y e = (case e of
     Vault e \<Rightarrow> vault_error_text Y e
   | Account e \<Rightarrow> account_error_text (acct X) e
   | LogRefused e \<Rightarrow> log_error_text (fmt X) e
   | StoreFailed e \<Rightarrow> store_error_text e
   | Observed e \<Rightarrow> observed_error_text Y e
   | Address \<Rightarrow> lit ''not an account address: 64 lowercase hex characters, unprefixed''
   | UnknownAccount \<Rightarrow> lit ''this app neither holds nor observes that account''
   | NotManaged \<Rightarrow> lit ''this app holds no key for that account, so it cannot write its log''
   | Locked \<Rightarrow> lit ''this account is locked: unlock it with its password to sign''
   | AlreadyManaged \<Rightarrow> lit ''this app holds that account's key, so it is managed rather than observed''
   | Argument \<Rightarrow> lit ''missing or malformed argument''
   | Key why \<Rightarrow> lit ''not an installation key: '' @ why
   | EmptyDisplayName \<Rightarrow> lit ''a display name needs at least one visible character''
   | DisplayNameCharacters \<Rightarrow>
       lit ''a display name cannot hold line breaks, control characters or text-direction overrides''
   | DisplayNameTooLong n \<Rightarrow>
       lit ''a display name is limited to 64 bytes of UTF-8, and this one is '' @ dec n
   | NameUnchanged \<Rightarrow> lit ''that is already the account's display name''
   | InstallationLive \<Rightarrow> lit ''that key is already live in this account's log''
   | AlreadyStaged \<Rightarrow> lit ''that edit is already waiting to be published''
   | OverBudget \<Rightarrow> lit ''that would take the log past its lifetime budget of '' @
       dec (MAX_PAYLOAD_BYTES (fmt X) div 1024) @ lit '' KiB''
   | NotRevocable i \<Rightarrow> lit ''entry '' @ dec (unat i) @ lit '' is not a live entry this account can revoke''
   | NothingStaged \<Rightarrow> lit ''there is nothing waiting to be published''
   | Unreadable \<Rightarrow>
       lit ''this account's log holds an entry this build cannot read, so it cannot be extended'')"

section \<open>JSON\<close>

definition json_option :: "('a \<Rightarrow> Value) \<Rightarrow> 'a option \<Rightarrow> Value" where
  "json_option f v = (case v of None \<Rightarrow> Null | Some x \<Rightarrow> f x)"

definition json_nat :: "nat \<Rightarrow> Value" where
  "json_nat n = Number (PosInt n)"

definition json_u32 :: "u32 \<Rightarrow> Value" where
  "json_u32 i = json_nat (unat i)"

definition ReadProblem_json :: "ReadProblem \<Rightarrow> Value" where
  "ReadProblem_json p = String (case p of
     Unverified \<Rightarrow> lit ''unverified'' | ForkedLog \<Rightarrow> lit ''forked'' | Unanswered \<Rightarrow> lit ''unanswered'')"

definition AccountSummary_json :: "AccountSummary \<Rightarrow> Value" where
  "AccountSummary_json s = Object
     [(lit ''address'', String (sum_address s)), (lit ''managed'', Bool (sum_managed s)),
      (lit ''protected'', Bool (sum_protected s)), (lit ''locked'', Bool (sum_locked s)),
      (lit ''resolved'', Bool (sum_resolved s)),
      (lit ''displayName'', json_option String (sum_display_name s)),
      (lit ''pending'', json_nat (sum_pending s)),
      (lit ''problem'', json_option ReadProblem_json (sum_problem s))]"

definition EntryCosts_json :: "EntryCosts \<Rightarrow> Value" where
  "EntryCosts_json k = Object
     [(lit ''installation'', json_nat (cost_installation k)), (lit ''remove'', json_nat (cost_remove k)),
      (lit ''displayName'', json_nat (cost_display_name k))]"

definition Installation_json :: "Installation \<Rightarrow> Value" where
  "Installation_json i = Object [(lit ''index'', json_u32 (inst_index i)), (lit ''key'', String (inst_key i))]"

definition Name_json :: "Name \<Rightarrow> Value" where
  "Name_json n = Object [(lit ''index'', json_u32 (name_index n)), (lit ''value'', String (name_value n))]"

definition EntryRow_json :: "EntryRow \<Rightarrow> Value" where
  "EntryRow_json r = Object
     [(lit ''index'', json_u32 (row_index r)), (lit ''kind'', String (row_kind r)),
      (lit ''context'', json_option String (row_context r)), (lit ''value'', String (row_value r)),
      (lit ''live'', Bool (row_live r)), (lit ''target'', json_option json_u32 (row_target r)),
      (lit ''bytes'', json_nat (row_bytes r)),
      (lit ''supersededBy'', json_option json_u32 (row_superseded_by r))]"

definition AccountState_json :: "AccountState \<Rightarrow> Value" where
  "AccountState_json s = Object
     [(lit ''address'', String (st_address s)), (lit ''managed'', Bool (st_managed s)),
      (lit ''protected'', Bool (st_protected s)), (lit ''locked'', Bool (st_locked s)),
      (lit ''resolved'', Bool (st_resolved s)),
      (lit ''readAtMs'', json_option (\<lambda>t. json_nat (unat t)) (st_read_at_ms s)),
      (lit ''problem'', json_option ReadProblem_json (st_problem s)),
      (lit ''published'', Bool (st_published s)), (lit ''logBytes'', json_nat (st_log_bytes s)),
      (lit ''maxBytes'', json_nat (st_max_bytes s)),
      (lit ''displayName'', json_option String (st_display_name s)),
      (lit ''displayNameIndex'', json_option json_u32 (st_display_name_index s)),
      (lit ''previousNames'', Array (map Name_json (st_previous_names s))),
      (lit ''installations'', Array (map Installation_json (st_installations s))),
      (lit ''entries'', Array (map EntryRow_json (st_entries s))),
      (lit ''otherEntries'', Array (map EntryRow_json (st_other_entries s))),
      (lit ''unreadable'', json_option String (st_unreadable s)),
      (lit ''pending'', Array (map EntryRow_json (st_pending s))),
      (lit ''costs'', EntryCosts_json (st_costs s))]"

end
