(* ===== verification/Ffi.thy ===== *)
theory Ffi
  imports Messages
begin

text \<open>
  \<open>ffi.rs\<close>: the C ABI. A pointer argument is its bytes up to the NUL, or null; the handle is
  the core behind a mutex that a panic poisons; every call goes through \<open>reply\<close>, which answers
  a NUL-terminated JSON text, or null, or stops the process where a panic would cross to C.
\<close>

section \<open>Arguments\<close>

definition continuation :: "nat \<Rightarrow> bool" where
  "continuation c \<longleftrightarrow> 0x80 \<le> c \<and> c \<le> 0xBF"

text \<open>UTF-8: no overlong form, no surrogate, nothing past U+10FFFF.\<close>

definition second_of_three :: "nat \<Rightarrow> nat \<Rightarrow> bool" where
  "second_of_three b c \<longleftrightarrow> continuation c \<and> (b = 0xE0 \<longrightarrow> 0xA0 \<le> c) \<and> (b = 0xED \<longrightarrow> c \<le> 0x9F)"

definition second_of_four :: "nat \<Rightarrow> nat \<Rightarrow> bool" where
  "second_of_four b c \<longleftrightarrow> continuation c \<and> (b = 0xF0 \<longrightarrow> 0x90 \<le> c) \<and> (b = 0xF4 \<longrightarrow> c \<le> 0x8F)"

fun utf8_decode :: "nat list \<Rightarrow> rstr option" where
  "utf8_decode [] = Some []"
| "utf8_decode (b # t) =
     (if b < 0x80 then map_option ((#) b) (utf8_decode t)
      else case t of [] \<Rightarrow> None | c # t2 \<Rightarrow>
        if 0xC2 \<le> b \<and> b \<le> 0xDF \<and> continuation c
        then map_option ((#) ((b - 0xC0) * 64 + (c - 0x80))) (utf8_decode t2)
        else case t2 of [] \<Rightarrow> None | d # t3 \<Rightarrow>
          if 0xE0 \<le> b \<and> b \<le> 0xEF \<and> second_of_three b c \<and> continuation d
          then map_option ((#) ((b - 0xE0) * 4096 + (c - 0x80) * 64 + (d - 0x80))) (utf8_decode t3)
          else case t3 of [] \<Rightarrow> None | e # t4 \<Rightarrow>
            if 0xF0 \<le> b \<and> b \<le> 0xF4 \<and> second_of_four b c \<and> continuation d \<and> continuation e
            then map_option ((#) ((b - 0xF0) * 262144 + (c - 0x80) * 4096 + (d - 0x80) * 64 + (e - 0x80)))
                   (utf8_decode t4)
            else None)"

type_synonym c_str = "bytes option"

definition str_arg :: "c_str \<Rightarrow> rstr option" where
  "str_arg p = (case p of None \<Rightarrow> None | Some b \<Rightarrow> utf8_decode (map unat b))"

definition required_arg :: "c_str \<Rightarrow> CoreError + rstr" where
  "required_arg p = (case str_arg p of None \<Rightarrow> Inl Argument | Some t \<Rightarrow> Inr t)"

definition optional_arg :: "c_str \<Rightarrow> CoreError + rstr option" where
  "optional_arg p = (if p = None then Inr None else map_sum id Some (required_arg p))"

section \<open>Replies\<close>

text \<open>\<open>String::zeroize\<close> leaves the string empty and its buffer zero.\<close>

fun scrub :: "Value \<Rightarrow> Value" where
  "scrub (String t) = String []"
| "scrub (Array items) = Array (map scrub items)"
| "scrub (Object kvs) = Object (map (\<lambda>(k, v). (k, scrub v)) kvs)"
| "scrub v = v"

definition from_vec_with_nul :: "bytes \<Rightarrow> c_str" where
  "from_vec_with_nul b = (if b \<noteq> [] \<and> last b = 0 \<and> 0 \<notin> set (butlast b) then Some (butlast b) else None)"

definition render_buffer :: "abi_crates \<Rightarrow> Value \<Rightarrow> byte vec" where
  "render_buffer Y v = vec_push 0 (to_vec_sized (json_writer Y v) 1)"

definition render :: "abi_crates \<Rightarrow> Value \<Rightarrow> c_str" where
  "render Y v = from_vec_with_nul (buf (render_buffer Y v))"

definition failed :: "abi_crates \<Rightarrow> rstr \<Rightarrow> c_str" where
  "failed Y error = render Y (Object [(lit ''ok'', Bool False), (lit ''error'', String error)])"

text \<open>What a string handed back is overwritten with before its memory is released.\<close>

definition string_free :: "c_str \<Rightarrow> bytes" where
  "string_free text = (case text of None \<Rightarrow> [] | Some b \<Rightarrow> map (\<lambda>_. 0) (b @ [0]))"

record ('r, 'n) handle =
  inner :: "('r, 'n) core"
  poisoned :: bool

datatype 'a run = Returned 'a | Panicked

datatype outcome = Reply c_str | Abort

type_synonym ('r, 'n) abi_call = "('r, 'n) core \<Rightarrow> (CoreError + Value) run \<times> ('r, 'n) core"

definition reply ::
  "('l, 'd, 'r, 'n) app \<Rightarrow> abi_crates \<Rightarrow> ('r, 'n) handle option \<Rightarrow> ('r, 'n) abi_call \<Rightarrow>
   outcome \<times> ('r, 'n) handle option" where
  "reply X Y core call =
     (case core of
        None \<Rightarrow> (Reply (failed Y (lit ''no account core'')), None)
      | Some h \<Rightarrow>
          if poisoned h then (Reply (failed Y (lit ''the account core is poisoned'')), Some h)
          else (case call (inner h) of
             (Panicked, c) \<Rightarrow>
               (Reply (failed Y (lit ''the account core panicked'')), Some (h\<lparr>inner := c, poisoned := True\<rparr>))
           | (Returned (Inl e), c) \<Rightarrow> (Reply (failed Y (core_error_text X Y e)), Some (h\<lparr>inner := c\<rparr>))
           | (Returned (Inr v), c) \<Rightarrow>
               ((case v of
                   Object kvs \<Rightarrow> Reply (render Y (Object (put_entry (lit ''ok'') (Bool True) kvs)))
                 | _ \<Rightarrow> Abort), Some (h\<lparr>inner := c\<rparr>))))"

text \<open>A method of the core as a call, with the object its answer becomes.\<close>

definition calling :: "('r, 'n, 'x) core_op \<Rightarrow> ('x \<Rightarrow> (rstr \<times> Value) list) \<Rightarrow> ('r, 'n) abi_call" where
  "calling m f = (\<lambda>c. case m c of (r, c') \<Rightarrow> (Returned (map_sum id (\<lambda>x. Object (f x)) r), c'))"

section \<open>The calls\<close>

definition default_store_url :: rstr where
  "default_store_url = DEFAULT_STORE_URL"

text \<open>The directory a path names is a function of the path here.\<close>

definition abi_new ::
  "('l, 'd, 'r, 'n) app \<Rightarrow> (rstr \<Rightarrow> fs) \<Rightarrow> 'n world \<Rightarrow> c_str \<Rightarrow> c_str \<Rightarrow> ('r, 'n) handle option" where
  "abi_new X disk_at w vault_dir store_url =
     (case str_arg vault_dir of
        None \<Rightarrow> None
      | Some dir \<Rightarrow>
          (case str_arg store_url of
             None \<Rightarrow> None
           | Some url \<Rightarrow>
               (case from_url url w of (s, w') \<Rightarrow>
                  Some \<lparr>inner = core_new X (disk_at dir) w' s, poisoned = False\<rparr>)))"

definition with_address ::
  "('l, 'd, 'r, 'n) app \<Rightarrow> c_str \<Rightarrow> (AccountAddr \<Rightarrow> ('r, 'n, 'x) core_op) \<Rightarrow> ('r, 'n, 'x) core_op" where
  "with_address X address m =
     and_then (of_read (\<lambda>c. required_arg address)) (\<lambda>t.
     and_then (of_read (\<lambda>c. parse_address (vkeys (vlt X)) t)) m)"

definition abi_accounts where
  "abi_accounts X Y core = reply X Y core (calling
     (\<lambda>c. (map_sum id (Pair (store_describe (store c))) (accounts X c), c))
     (\<lambda>(url, rows). [(lit ''store'', String url), (lit ''accounts'', Array (map AccountSummary_json rows))]))"

definition abi_create_account where
  "abi_create_account X Y core password = reply X Y core (calling
     (and_then (of_read (\<lambda>c. optional_arg password)) (create_account X))
     (\<lambda>a. [(lit ''address'', String (to_string a))]))"

definition import_held :: "('l, 'd, 'r, 'n) app \<Rightarrow> rstr \<Rightarrow> rstr option \<Rightarrow> ('r, 'n, AccountAddr \<times> bool) core_op" where
  "import_held X secret password = (\<lambda>c.
     case import_account X secret password c of
       (Inr a, c') \<Rightarrow> (Inr (a, False), c')
     | (Inl e, c') \<Rightarrow> (case e of Vault (AccountExists a) \<Rightarrow> (Inr (a, True), c') | _ \<Rightarrow> (Inl e, c')))"

definition abi_import_account where
  "abi_import_account X Y core secret_hex password = reply X Y core (calling
     (and_then (of_read (\<lambda>c. required_arg secret_hex)) (\<lambda>secret.
      and_then (of_read (\<lambda>c. optional_arg password)) (import_held X secret)))
     (\<lambda>(a, held). [(lit ''address'', String (to_string a)), (lit ''alreadyHeld'', Bool held)]))"

definition abi_export_account where
  "abi_export_account X Y core address password = reply X Y core (calling
     (with_address X address (\<lambda>a.
      and_then (of_read (\<lambda>c. optional_arg password)) (\<lambda>pw. of_read (export_account X a pw))))
     (\<lambda>key. [(lit ''key'', String key)]))"

definition abi_unlock where
  "abi_unlock X Y core address password = reply X Y core (calling
     (with_address X address (\<lambda>a.
      and_then (of_read (\<lambda>c. required_arg password)) (unlock X a)))
     (\<lambda>_. []))"

definition abi_forget_account where
  "abi_forget_account X Y core address = reply X Y core (calling (with_address X address (forget_account X)) (\<lambda>_. []))"

definition abi_observe_account where
  "abi_observe_account X Y core address = reply X Y core (calling
     (with_address X address (observe X)) (\<lambda>added. [(lit ''alreadyObserved'', Bool (\<not> added))]))"

definition abi_stop_observing where
  "abi_stop_observing X Y core address = reply X Y core (calling (with_address X address (stop_observing X)) (\<lambda>_. []))"

definition abi_refresh where
  "abi_refresh X Y core address = reply X Y core (calling
     (with_address X address (refresh X)) (\<lambda>n. [(lit ''dropped'', json_nat n)]))"

definition abi_state where
  "abi_state X Y core address = reply X Y core (calling
     (with_address X address (\<lambda>a. of_read (state X a))) (\<lambda>s. [(lit ''state'', AccountState_json s)]))"

definition abi_stage_add_installation where
  "abi_stage_add_installation X Y core address key_hex = reply X Y core (calling
     (with_address X address (\<lambda>a.
      and_then (of_read (\<lambda>c. required_arg key_hex)) (stage_add_installation X a)))
     (\<lambda>_. []))"

definition abi_stage_set_display_name where
  "abi_stage_set_display_name X Y core address name = reply X Y core (calling
     (with_address X address (\<lambda>a.
      and_then (of_read (\<lambda>c. required_arg name)) (stage_set_display_name X a)))
     (\<lambda>_. []))"

definition abi_stage_revoke where
  "abi_stage_revoke X Y core address i = reply X Y core (calling
     (with_address X address (\<lambda>a. stage_revoke X a i)) (\<lambda>_. []))"

definition abi_discard_pending where
  "abi_discard_pending X Y core address = reply X Y core (calling (with_address X address (discard_pending X)) (\<lambda>_. []))"

definition abi_publish where
  "abi_publish X Y core address = reply X Y core (calling
     (with_address X address (publish X))
     (\<lambda>p. [(lit ''firstNewIndex'', json_option json_u32 (first_new_index p)), (lit ''dropped'', json_nat (pub_dropped p))]))"

end
