(* ===== verification/Utf8.thy ===== *)
theory Utf8
  imports Ffi
begin

text \<open>
  The text a C string is read as, against UTF-8's definition: the encoding of each Unicode
  scalar value, in order. \<open>utf8_decode\<close> inverts it and accepts nothing else.
\<close>

definition scalar :: "rchar \<Rightarrow> bool" where
  "scalar c \<longleftrightarrow> c < 0xD800 \<or> (0xE000 \<le> c \<and> c < 0x110000)"

definition utf8_encode :: "rchar \<Rightarrow> nat list" where
  "utf8_encode c =
     (if c < 0x80 then [c]
      else if c < 0x800 then [0xC0 + c div 64, 0x80 + c mod 64]
      else if c < 0x10000 then [0xE0 + c div 64 div 64, 0x80 + c div 64 mod 64, 0x80 + c mod 64]
      else [0xF0 + c div 64 div 64 div 64, 0x80 + c div 64 div 64 mod 64, 0x80 + c div 64 mod 64, 0x80 + c mod 64])"

lemma digit64:
  fixes x y :: nat
  assumes "y < 64"
  shows "(x * 64 + y) div 64 = x" and "(x * 64 + y) mod 64 = y"
  using assms by simp_all

lemma horner3: "(x::nat) * 4096 + y * 64 + z = (x * 64 + y) * 64 + z"
  by simp

lemma horner4: "(x::nat) * 262144 + y * 4096 + z * 64 + w = ((x * 64 + y) * 64 + z) * 64 + w"
  by simp

section \<open>Decoding what was encoded\<close>

lemma decode_two:
  assumes "0x80 \<le> c" and "c < 0x800"
  shows "utf8_decode (utf8_encode c @ rest) = map_option ((#) c) (utf8_decode rest)"
proof -
  have "2 \<le> c div 64" "c div 64 \<le> 31" using assms by (simp_all add: div_le_mono [of 128 c 64, simplified] less_mult_imp_div_less)
  moreover have "c mod 64 \<le> 63" using mod_less_divisor [of 64 c] by simp
  ultimately show ?thesis using assms by (simp add: utf8_encode_def continuation_def)
qed

lemma decode_three:
  assumes "0x800 \<le> c" and "c < 0x10000" and "scalar c"
  shows "utf8_decode (utf8_encode c @ rest) = map_option ((#) c) (utf8_decode rest)"
proof -
  define x y z where "x = c div 64 div 64" and "y = c div 64 mod 64" and "z = c mod 64"
  have c: "c = (x * 64 + y) * 64 + z" by (simp add: x_def y_def z_def)
  have b: "x < 16" "y < 64" "z < 64" using assms(2) by (simp_all add: x_def y_def z_def less_mult_imp_div_less)
  have s: "second_of_three (0xE0 + x) (0x80 + y)"
    using assms(1,3) b unfolding c second_of_three_def continuation_def scalar_def by auto
  have "utf8_encode c = [0xE0 + x, 0x80 + y, 0x80 + z]"
    using assms(1,2) by (simp add: utf8_encode_def x_def y_def z_def)
  then show ?thesis using b s by (simp add: continuation_def c algebra_simps)
qed

lemma decode_four:
  assumes "0x10000 \<le> c" and "scalar c"
  shows "utf8_decode (utf8_encode c @ rest) = map_option ((#) c) (utf8_decode rest)"
proof -
  define x y z w where "x = c div 64 div 64 div 64" and "y = c div 64 div 64 mod 64"
    and "z = c div 64 mod 64" and "w = c mod 64"
  have c: "c = ((x * 64 + y) * 64 + z) * 64 + w" by (simp add: x_def y_def z_def w_def)
  have b: "y < 64" "z < 64" "w < 64" by (simp_all add: y_def z_def w_def)
  have x: "x \<le> 4" using assms unfolding scalar_def c by auto
  have s: "second_of_four (0xF0 + x) (0x80 + y)"
    using assms b unfolding c second_of_four_def continuation_def scalar_def by auto
  have "utf8_encode c = [0xF0 + x, 0x80 + y, 0x80 + z, 0x80 + w]"
    using assms(1) by (simp add: utf8_encode_def x_def y_def z_def w_def)
  then show ?thesis using b s x by (simp add: continuation_def c algebra_simps)
qed

lemma decode_encode: "scalar c \<Longrightarrow> utf8_decode (utf8_encode c @ rest) = map_option ((#) c) (utf8_decode rest)"
  using decode_two [of c rest] decode_three [of c rest] decode_four [of c rest]
  by (cases "c < 0x80") (auto simp: utf8_encode_def not_less linorder_class.linear)

lemma decode_encoded: "list_all scalar t \<Longrightarrow> utf8_decode (concat (map utf8_encode t)) = Some t"
  by (induction t) (simp_all add: decode_encode)

section \<open>Nothing else is decoded\<close>

lemma two_bytes:
  assumes "0xC2 \<le> b" and "b \<le> 0xDF" and "continuation c"
  shows "utf8_encode ((b - 0xC0) * 64 + (c - 0x80)) = [b, c] \<and> scalar ((b - 0xC0) * 64 + (c - 0x80))"
proof -
  define x y where "x = b - 0xC0" and "y = c - 0x80"
  have v: "b = 0xC0 + x" "c = 0x80 + y" and l: "y < 64" "2 \<le> x" "x < 32"
    using assms by (auto simp: x_def y_def continuation_def)
  define n where "n = x * 64 + y"
  have n: "n div 64 = x" "n mod 64 = y" "0x80 \<le> n" "n < 0x800" using l by (simp_all add: n_def)
  then show ?thesis by (simp add: v utf8_encode_def scalar_def flip: n_def)
qed

lemma three_bytes:
  assumes "0xE0 \<le> b" and "b \<le> 0xEF" and "second_of_three b c" and "continuation d"
  shows "utf8_encode ((b - 0xE0) * 4096 + (c - 0x80) * 64 + (d - 0x80)) = [b, c, d]
    \<and> scalar ((b - 0xE0) * 4096 + (c - 0x80) * 64 + (d - 0x80))"
proof -
  define x y z where "x = b - 0xE0" and "y = c - 0x80" and "z = d - 0x80"
  have v: "b = 0xE0 + x" "c = 0x80 + y" "d = 0x80 + z" and l: "y < 64" "z < 64" "x < 16"
    using assms by (auto simp: x_def y_def z_def second_of_three_def continuation_def)
  have s: "x = 0 \<longrightarrow> 32 \<le> y" "x = 13 \<longrightarrow> y < 32" using assms(3) by (auto simp: v second_of_three_def)
  have 1: "0x800 \<le> (x * 64 + y) * 64 + z" using s(1) by (cases "x = 0") auto
  have 2: "(x * 64 + y) * 64 + z < 0x10000" using l by simp
  have 3: "scalar ((x * 64 + y) * 64 + z)"
    using s(2) l unfolding scalar_def by (cases "x = 13"; cases "x < 13") auto
  define n where "n = (x * 64 + y) * 64 + z"
  have n: "n div 64 div 64 = x" "n div 64 mod 64 = y" "n mod 64 = z"
    unfolding n_def digit64 [OF l(2)] digit64 [OF l(1)] by (rule refl)+
  show ?thesis
    using 1 2 3 n unfolding v add_diff_cancel_left' horner3 n_def [symmetric] by (simp add: utf8_encode_def)
qed

lemma four_bytes:
  assumes "0xF0 \<le> b" and "b \<le> 0xF4" and "second_of_four b c" and "continuation d" and "continuation e"
  shows "utf8_encode ((b - 0xF0) * 262144 + (c - 0x80) * 4096 + (d - 0x80) * 64 + (e - 0x80)) = [b, c, d, e]
    \<and> scalar ((b - 0xF0) * 262144 + (c - 0x80) * 4096 + (d - 0x80) * 64 + (e - 0x80))"
proof -
  define x y z w where "x = b - 0xF0" and "y = c - 0x80" and "z = d - 0x80" and "w = e - 0x80"
  have v: "b = 0xF0 + x" "c = 0x80 + y" "d = 0x80 + z" "e = 0x80 + w" and l: "y < 64" "z < 64" "w < 64" "x \<le> 4"
    using assms by (auto simp: x_def y_def z_def w_def second_of_four_def continuation_def)
  have s: "x = 0 \<longrightarrow> 16 \<le> y" "x = 4 \<longrightarrow> y < 16" using assms(3) by (auto simp: v second_of_four_def)
  have 1: "0x10000 \<le> ((x * 64 + y) * 64 + z) * 64 + w" using s(1) by (cases "x = 0") auto
  have 2: "scalar (((x * 64 + y) * 64 + z) * 64 + w)"
    using s(2) l 1 unfolding scalar_def by (cases "x = 4") auto
  define n where "n = ((x * 64 + y) * 64 + z) * 64 + w"
  have n: "n div 64 div 64 div 64 = x" "n div 64 div 64 mod 64 = y" "n div 64 mod 64 = z" "n mod 64 = w"
    unfolding n_def digit64 [OF l(3)] digit64 [OF l(2)] digit64 [OF l(1)] by (rule refl)+
  show ?thesis
    using 1 2 n unfolding v add_diff_cancel_left' horner4 n_def [symmetric] by (simp add: utf8_encode_def)
qed

lemma decoded_encodes:
  "utf8_decode bs = Some t \<Longrightarrow> bs = concat (map utf8_encode t) \<and> list_all scalar t"
proof (induction bs arbitrary: t rule: utf8_decode.induct)
  case 1
  then show ?case by simp
next
  case (2 b t0)
  show ?case
  proof (cases "b < 0x80")
    case True
    with 2 show ?thesis by (auto simp: utf8_encode_def scalar_def)
  next
    case False
    then obtain c t2 where t0: "t0 = c # t2" using 2(5) by (cases t0) auto
    show ?thesis
    proof (cases "0xC2 \<le> b \<and> b \<le> 0xDF \<and> continuation c")
      case True
      then obtain t' where "utf8_decode t2 = Some t'" "t = ((b - 0xC0) * 64 + (c - 0x80)) # t'"
        using 2(5) False t0 by auto
      with 2(2) [OF False t0 True] two_bytes [of b c] True t0 show ?thesis by simp
    next
      case n2: False
      then obtain d t3 where t2: "t2 = d # t3" using 2(5) False t0 by (cases t2) (auto split: if_splits)
      show ?thesis
      proof (cases "0xE0 \<le> b \<and> b \<le> 0xEF \<and> second_of_three b c \<and> continuation d")
        case True
        then obtain t' where "utf8_decode t3 = Some t'" "t = ((b - 0xE0) * 4096 + (c - 0x80) * 64 + (d - 0x80)) # t'"
          using 2(5) False t0 t2 n2 by auto
        with 2(3) [OF False t0 n2 t2 True] three_bytes [of b c d] True t0 t2 show ?thesis by simp
      next
        case n3: False
        then obtain e t4 where t3: "t3 = e # t4" using 2(5) False t0 t2 n2 by (cases t3) (auto split: if_splits)
        then have f: "0xF0 \<le> b \<and> b \<le> 0xF4 \<and> second_of_four b c \<and> continuation d \<and> continuation e"
          using 2(5) False t0 t2 n2 n3 by (auto split: if_splits)
        then obtain t' where "utf8_decode t4 = Some t'"
          "t = ((b - 0xF0) * 262144 + (c - 0x80) * 4096 + (d - 0x80) * 64 + (e - 0x80)) # t'"
          using 2(5) False t0 t2 t3 n2 n3 by auto
        with 2(4) [OF False t0 n2 t2 n3 t3 f] four_bytes [of b c d e] f t0 t2 t3 show ?thesis by simp
      qed
    qed
  qed
qed

lemma utf8_decode_iff: "utf8_decode bs = Some t \<longleftrightarrow> bs = concat (map utf8_encode t) \<and> list_all scalar t"
  using decoded_encodes decode_encoded by blast

end
