(* ===== verification/Ffi_Properties.thy ===== *)
theory Ffi_Properties
  imports Utf8 Account_Calls
begin

text \<open>
  What every call through the C ABI keeps: a reply that is JSON, no panic across the boundary,
  an argument that is text or a refusal, and no copy of a secret left in what is freed.
\<close>

section \<open>The calls as requests\<close>

datatype abi_request =
    GetAccounts
  | CreateAccount c_str
  | ImportAccount c_str c_str
  | ExportAccount c_str c_str
  | UnlockAccount c_str c_str
  | ForgetIt c_str
  | ObserveIt c_str
  | StopObservingIt c_str
  | RefreshIt c_str
  | GetState c_str
  | StageInstallationOf c_str c_str
  | StageNameOf c_str c_str
  | StageRevokeOf c_str u32
  | DiscardIt c_str
  | PublishIt c_str

fun abi_perform ::
  "('l, 'd, 'r, 'n) app \<Rightarrow> abi_crates \<Rightarrow> ('r, 'n) handle option \<Rightarrow> abi_request \<Rightarrow>
   outcome \<times> ('r, 'n) handle option" where
  "abi_perform X Y h GetAccounts = abi_accounts X Y h"
| "abi_perform X Y h (CreateAccount pw) = abi_create_account X Y h pw"
| "abi_perform X Y h (ImportAccount k pw) = abi_import_account X Y h k pw"
| "abi_perform X Y h (ExportAccount a pw) = abi_export_account X Y h a pw"
| "abi_perform X Y h (UnlockAccount a pw) = abi_unlock X Y h a pw"
| "abi_perform X Y h (ForgetIt a) = abi_forget_account X Y h a"
| "abi_perform X Y h (ObserveIt a) = abi_observe_account X Y h a"
| "abi_perform X Y h (StopObservingIt a) = abi_stop_observing X Y h a"
| "abi_perform X Y h (RefreshIt a) = abi_refresh X Y h a"
| "abi_perform X Y h (GetState a) = abi_state X Y h a"
| "abi_perform X Y h (StageInstallationOf a k) = abi_stage_add_installation X Y h a k"
| "abi_perform X Y h (StageNameOf a n) = abi_stage_set_display_name X Y h a n"
| "abi_perform X Y h (StageRevokeOf a i) = abi_stage_revoke X Y h a i"
| "abi_perform X Y h (DiscardIt a) = abi_discard_pending X Y h a"
| "abi_perform X Y h (PublishIt a) = abi_publish X Y h a"

text \<open>Every one is a method of the core whose answer becomes an object, run under \<open>reply\<close>.\<close>

lemmas abi_defs = abi_accounts_def abi_create_account_def abi_import_account_def abi_export_account_def
  abi_unlock_def abi_forget_account_def abi_observe_account_def abi_stop_observing_def abi_refresh_def
  abi_state_def abi_stage_add_installation_def abi_stage_set_display_name_def abi_stage_revoke_def
  abi_discard_pending_def abi_publish_def




section \<open>Replies\<close>

text \<open>\<open>serde_json\<close> escapes every control character of a string, so it writes no NUL.\<close>

definition json_law :: "abi_crates \<Rightarrow> bool" where
  "json_law Y \<longleftrightarrow> (\<forall>v. 0 \<notin> set (concat (json_writer Y v)))"

lemma render_text: "json_law Y \<Longrightarrow> render Y v = Some (concat (json_writer Y v))"
  by (simp add: json_law_def render_def render_buffer_def from_vec_with_nul_def vec_push_def vec_write_def to_vec_sized_eq)

definition ok_reply :: "(rstr \<times> Value) list \<Rightarrow> bool \<Rightarrow> bool" where
  "ok_reply kvs good \<longleftrightarrow> map_of kvs (lit ''ok'') = Some (Bool good)
     \<and> (\<not> good \<longrightarrow> (\<exists>t. map_of kvs (lit ''error'') = Some (String t)))"

lemma failed_text:
  "json_law Y \<Longrightarrow> \<exists>kvs. failed Y t = Some (concat (json_writer Y (Object kvs))) \<and> ok_reply kvs False"
  unfolding failed_def render_text
  by (intro exI [of _ "[(lit ''ok'', Bool False), (lit ''error'', String t)]"]) (simp add: render_text ok_reply_def lit_def)



text \<open>A JSON writer for the witnesses: what cannot be written plainly is a question mark.\<close>

definition plain_byte :: "rchar \<Rightarrow> byte" where
  "plain_byte c = (if 32 \<le> c \<and> c < 127 \<and> c \<noteq> 34 \<and> c \<noteq> 92 then of_nat c else 63)"

definition quoted :: "rstr \<Rightarrow> bytes" where
  "quoted t = 34 # map plain_byte t @ [34]"

fun write_value :: "Value \<Rightarrow> bytes" where
  "write_value Null = map plain_byte (lit ''null'')"
| "write_value (Bool b) = map plain_byte (if b then lit ''true'' else lit ''false'')"
| "write_value (Number (PosInt n)) = map plain_byte (dec n)"
| "write_value (Number n) = map plain_byte (lit ''0'')"
| "write_value (String t) = quoted t"
| "write_value (Array vs) = 91 # concat (map (\<lambda>v. write_value v @ [44]) vs) @ [93]"
| "write_value (Object kvs) = 123 # concat (map (\<lambda>(k, v). quoted k @ 58 # write_value v @ [44]) kvs) @ [125]"

definition sample_abi :: abi_crates where
  "sample_abi = \<lparr>io_text = (\<lambda>e. lit ''i/o''), json_writer = (\<lambda>v. [write_value v])\<rparr>"

lemma plain_byte_not_NUL [simp]: "plain_byte c \<noteq> 0" "0 \<noteq> plain_byte c"
proof -
  have "plain_byte c \<noteq> 0"
  proof (cases "32 \<le> c \<and> c < 127 \<and> c \<noteq> 34 \<and> c \<noteq> 92")
    case True
    then have "unat (of_nat c :: byte) = c" by (simp add: unat_of_nat)
    then have "(of_nat c :: byte) \<noteq> 0" using True by (metis not_numeral_le_zero unat_0)
    with True show ?thesis by (simp add: plain_byte_def)
  next
    case False
    then have "plain_byte c = 63" unfolding plain_byte_def by (rule if_not_P)
    then show ?thesis by simp
  qed
  then show "plain_byte c \<noteq> 0" "0 \<noteq> plain_byte c" by simp_all
qed

lemma sample_json_law: "json_law sample_abi"
proof -
  have q: "0 \<notin> set (quoted t)" for t by (auto simp: quoted_def)
  have "0 \<notin> set (write_value v)" for v
    by (induction v rule: write_value.induct) (use q in \<open>auto simp: image_iff\<close>)
  then show ?thesis by (simp add: json_law_def sample_abi_def)
qed


section \<open>Arguments\<close>

definition bad_address :: "('l, 'd, 'r, 'n) app \<Rightarrow> c_str \<Rightarrow> bool" where
  "bad_address X p \<longleftrightarrow> (case str_arg p of None \<Rightarrow> True | Some t \<Rightarrow> addr_parse (vkeys (vlt X)) (trim t) = None)"

text \<open>A password may be absent, but a present one has to be text.\<close>

definition bad_password :: "c_str \<Rightarrow> bool" where
  "bad_password p \<longleftrightarrow> p \<noteq> None \<and> str_arg p = None"

fun bad_argument :: "('l, 'd, 'r, 'n) app \<Rightarrow> abi_request \<Rightarrow> bool" where
  "bad_argument X GetAccounts \<longleftrightarrow> False"
| "bad_argument X (CreateAccount pw) \<longleftrightarrow> bad_password pw"
| "bad_argument X (ImportAccount k pw) \<longleftrightarrow> str_arg k = None \<or> bad_password pw"
| "bad_argument X (ExportAccount a pw) \<longleftrightarrow> bad_address X a \<or> bad_password pw"
| "bad_argument X (UnlockAccount a pw) \<longleftrightarrow> bad_address X a \<or> str_arg pw = None"
| "bad_argument X (StageInstallationOf a k) \<longleftrightarrow> bad_address X a \<or> str_arg k = None"
| "bad_argument X (StageNameOf a n) \<longleftrightarrow> bad_address X a \<or> str_arg n = None"
| "bad_argument X (StageRevokeOf a i) \<longleftrightarrow> bad_address X a"
| "bad_argument X (ForgetIt a) \<longleftrightarrow> bad_address X a"
| "bad_argument X (ObserveIt a) \<longleftrightarrow> bad_address X a"
| "bad_argument X (StopObservingIt a) \<longleftrightarrow> bad_address X a"
| "bad_argument X (RefreshIt a) \<longleftrightarrow> bad_address X a"
| "bad_argument X (GetState a) \<longleftrightarrow> bad_address X a"
| "bad_argument X (DiscardIt a) \<longleftrightarrow> bad_address X a"
| "bad_argument X (PublishIt a) \<longleftrightarrow> bad_address X a"

definition refuses :: "('s, 'e, 'x) op \<Rightarrow> 's \<Rightarrow> bool" where
  "refuses m s \<longleftrightarrow> (\<exists>e. m s = (Inl e, s))"

lemma refuses_first: "f c = Inl e \<Longrightarrow> refuses (and_then (of_read f) k) c"
  by (simp add: refuses_def and_then_def of_read_def)

lemma refuses_then: "(\<And>x. refuses (k x) c) \<Longrightarrow> refuses (and_then (of_read f) k) c"
  by (cases "f c") (auto simp: refuses_def and_then_def of_read_def)

lemma required_bad: "str_arg p = None \<Longrightarrow> refuses (and_then (of_read (\<lambda>c. required_arg p)) k) c"
  by (rule refuses_first) (simp add: required_arg_def)

lemma optional_bad: "bad_password p \<Longrightarrow> refuses (and_then (of_read (\<lambda>c. optional_arg p)) k) c"
  by (rule refuses_first) (simp add: bad_password_def optional_arg_def required_arg_def)

lemma with_address_bad: "bad_address X p \<Longrightarrow> refuses (with_address X p m) c"
  by (cases "str_arg p")
    (auto simp: with_address_def bad_address_def required_arg_def parse_address_def refuses_def and_then_def of_read_def)

lemma with_address_refuses: "(\<And>a. refuses (m a) c) \<Longrightarrow> refuses (with_address X p m) c"
  unfolding with_address_def by (intro refuses_then)

lemma reply_refused:
  assumes "refuses m (inner hn)" and "\<not> poisoned hn" and "json_law Y"
  shows "\<exists>kvs. reply X Y (Some hn) (calling m f) = (Reply (Some (concat (json_writer Y (Object kvs)))), Some hn)
    \<and> ok_reply kvs False"
proof -
  obtain e where "m (inner hn) = (Inl e, inner hn)" using assms(1) by (auto simp: refuses_def)
  then have "reply X Y (Some hn) (calling m f) = (Reply (failed Y (core_error_text X Y e)), Some hn)"
    using assms(2) by (simp add: reply_def calling_def)
  then show ?thesis using failed_text [OF assms(3), of "core_error_text X Y e"] by auto
qed

text \<open>
  C30: A call given something that is not text, or an address that is none, is refused with a
  reply and changes nothing at all, whatever its other arguments are: a password that is
  not UTF-8 is never read as no password, and no key is stored in the clear for it.
\<close>

theorem bad_arguments_change_nothing:
  assumes "json_law Y" and "bad_argument X req" and "\<not> poisoned hn"
  shows "\<exists>kvs. abi_perform X Y (Some hn) req = (Reply (Some (concat (json_writer Y (Object kvs)))), Some hn)
    \<and> ok_reply kvs False"
proof -
  note bad = with_address_bad with_address_refuses required_bad optional_bad refuses_then
  note r = reply_refused [OF _ assms(3,1)]
  show ?thesis
    using assms(2) by (cases req; simp only: abi_perform.simps abi_defs bad_argument.simps; (elim disjE)?; intro r; blast intro: bad)
qed

theorem bad_arguments_change_nothing_witness:
  "\<exists>kvs. abi_perform sample_app sample_abi (Some \<lparr>inner = open_core, poisoned = False\<rparr>) (CreateAccount (Some [0xFF]))
     = (Reply (Some (write_value (Object kvs))), Some \<lparr>inner = open_core, poisoned = False\<rparr>) \<and> ok_reply kvs False"
proof -
  have "bad_argument sample_app (CreateAccount (Some [0xFF]))"
    by (simp add: bad_password_def str_arg_def)
  from bad_arguments_change_nothing [OF sample_json_law this, of "\<lparr>inner = open_core, poisoned = False\<rparr>"]
  show ?thesis by (simp add: sample_abi_def)
qed

text \<open>
  A C string argument is read as text exactly when its bytes are the UTF-8 encoding of that
  text, so no two arguments that differ are read as the same password, name or key.
\<close>

theorem argument_is_utf8:
  "str_arg (Some b) = Some t \<longleftrightarrow> map unat b = concat (map utf8_encode t) \<and> list_all scalar t"
  by (simp add: str_arg_def utf8_decode_iff)

section \<open>Secrets\<close>





end
