(* ===== verification/Vault_Race.thy ===== *)
theory Vault_Race
  imports Key_Store Interleaving
begin

text \<open>
  Several processes on one vault. Each is running \<open>Vault::create\<close> or \<open>Vault::forget\<close>; the
  others may move between any two of its system calls, it may be killed at any of them, and
  the lock is what the code makes of it: taken before a create's check and a forget's
  removal, given back when the lock's file closes, which for a create is before its stage
  is removed (values are dropped in the opposite order to their declaration).
\<close>

section \<open>The points of a create and of a forget\<close>

datatype point =
    Start
  | MadeDir | PrivateDir | ClearedStage | MadeStage | PrivateStage  \<comment> \<open>a create, staging\<close>
  | WrittenStage | AwaitsLock
  | HoldsLock | FoundAbsent | PrivateFile | SyncedFile | RenamedFile  \<comment> \<open>under the lock\<close>
  | FoundHeld bool | ForgetAwaitsLock bool | ForgetHoldsLock bool   \<comment> \<open>a forget, and the file it found\<close>
  | Unlocking "VaultError option"                                  \<comment> \<open>the error to return, or none\<close>
  | Unstaging "VaultError option"
  | Finished "VaultError option"
  | Killed

definition after :: "(fs, VaultError, 'r) op \<Rightarrow> point \<Rightarrow> (VaultError option \<Rightarrow> point) \<Rightarrow> fs \<Rightarrow> (point \<times> fs) option" where
  "after m next failed s =
     (case m s of (Inl e, s') \<Rightarrow> Some (failed (Some e), s') | (Inr r, s') \<Rightarrow> Some (next, s'))"

fun create_step ::
  "vault_crates \<Rightarrow> SigningKey \<Rightarrow> rstr option \<Rightarrow> nat \<Rightarrow> point \<Rightarrow> fs \<Rightarrow> (point \<times> fs) option" where
  "create_step V key password entropy Start s =
     (if password = Some [] then Some (Finished (Some EmptyPassword), s)
      else after (io create_dir_all) MadeDir Finished s)"
| "create_step V key password entropy MadeDir s =
     after (io (set_dir_mode (octal 7 0 0))) PrivateDir Finished s"
| "create_step V key password entropy PrivateDir s =
     after (io (ignoring (remove_dir_all (stage_dir (addr_of (vkeys V) key))))) ClearedStage Finished s"
| "create_step V key password entropy ClearedStage s =
     after (io (create_dir (stage_dir (addr_of (vkeys V) key)))) MadeStage Finished s"
| "create_step V key password entropy MadeStage s =
     after (io (set_permissions (stage_dir (addr_of (vkeys V) key)) (octal 7 0 0))) PrivateStage Unstaging s"
| "create_step V key password entropy PrivateStage s =
     after (io (case password of
                  Some pw \<Rightarrow> seal V (stage_dir (addr_of (vkeys V) key)) key pw entropy
                | None \<Rightarrow> write_open V (stage_dir (addr_of (vkeys V) key)) (addr_of (vkeys V) key) key))
       WrittenStage Unstaging s"
| "create_step V key password entropy WrittenStage s =
     after (io (open_or_create LOCK_FILE)) AwaitsLock Unstaging s"
| "create_step V key password entropy HoldsLock s =
     after (and_then (of_read (vault_accounts V)) (\<lambda>held.
         if list_ex (\<lambda>h. addr h = addr_of (vkeys V) key) held
         then fail (AccountExists (addr_of (vkeys V) key)) else ok ()))
       FoundAbsent Unlocking s"
| "create_step V key password entropy FoundAbsent s =
     after (io (set_permissions_in (stage_dir (addr_of (vkeys V) key)) STAGED_FILE (octal 6 0 0)))
       PrivateFile Unlocking s"
| "create_step V key password entropy PrivateFile s =
     after (io (sync_in (stage_dir (addr_of (vkeys V) key)) STAGED_FILE)) SyncedFile Unlocking s"
| "create_step V key password entropy SyncedFile s =
     after (io (rename_out (stage_dir (addr_of (vkeys V) key)) STAGED_FILE
         (file_name (addr_of (vkeys V) key) (password \<noteq> None)))) RenamedFile Unlocking s"
| "create_step V key password entropy RenamedFile s = Some (Unlocking None, snd (sync_dir s))"
| "create_step V key password entropy (Unstaging r) s =
     Some (Finished r, drop_stage (stage_dir (addr_of (vkeys V) key)) s)"
| "create_step V key password entropy p s = None"

fun forget_step :: "vault_crates \<Rightarrow> AccountAddr \<Rightarrow> point \<Rightarrow> fs \<Rightarrow> (point \<times> fs) option" where
  "forget_step V a Start s =
     (case find_held V a s of
        Inl e \<Rightarrow> Some (Finished (Some e), s)
      | Inr held \<Rightarrow> Some (FoundHeld (protected held), s))"
| "forget_step V a (FoundHeld prot) s =
     after (io (open_or_create LOCK_FILE)) (ForgetAwaitsLock prot) Finished s"
| "forget_step V a (ForgetHoldsLock prot) s =
     after (io (remove_file (file_name a prot))) (Unlocking None) Unlocking s"
| "forget_step V a p s = None"

fun command_step :: "vault_crates \<Rightarrow> key_command \<Rightarrow> point \<Rightarrow> fs \<Rightarrow> (point \<times> fs) option" where
  "command_step V (Insert key pw n) p s = create_step V key pw n p s"
| "command_step V (Forget a) p s = forget_step V a p s"

text \<open>Where taking the lock leads, and where a process without the lock goes to return.\<close>

fun with_lock :: "point \<Rightarrow> point option" where
  "with_lock AwaitsLock = Some HoldsLock"
| "with_lock (ForgetAwaitsLock prot) = Some (ForgetHoldsLock prot)"
| "with_lock p = None"

fun without_lock :: "key_command \<Rightarrow> VaultError option \<Rightarrow> point" where
  "without_lock (Insert key pw n) r = Unstaging r"
| "without_lock (Forget a) r = Finished r"

text \<open>The steps that change which accounts are held: a create's rename and a forget's removal.\<close>

fun commits :: "point \<Rightarrow> point \<Rightarrow> bool" where
  "commits SyncedFile p \<longleftrightarrow> p = RenamedFile"
| "commits (ForgetHoldsLock prot) p \<longleftrightarrow> p = Unlocking None"
| "commits p q \<longleftrightarrow> False"

text \<open>
  What the processes share: the directory and who holds the lock; and, for the statements
  only, whose rename or removal was made, in order.
\<close>

record race =
  rdisk :: fs
  lock_owner :: "nat option"
  history :: "nat list"

text \<open>
  Process \<open>i\<close>, running \<open>cmds i\<close>: a system call; the lock, when nobody holds it, or the error
  of a lock that could not be taken (held for the whole second that is waited, or failing);
  the lock's file closing; death, which closes it too.
\<close>

inductive vault_race :: "vault_crates \<Rightarrow> (nat \<Rightarrow> key_command) \<Rightarrow> (point, race) process_step"
  for V cmds where
  calls: "command_step V (cmds i) p (rdisk s) = Some (p', d) \<Longrightarrow>
     vault_race V cmds i p s p'
       (s\<lparr>rdisk := d, history := (if commits p p' then history s @ [i] else history s)\<rparr>)"
| locks: "with_lock p = Some p' \<Longrightarrow> lock_owner s = None \<Longrightarrow>
     vault_race V cmds i p s p' (s\<lparr>lock_owner := Some i\<rparr>)"
| gives_up: "with_lock p = Some p' \<Longrightarrow>
     vault_race V cmds i p s (without_lock (cmds i) (Some (Io e))) s"
| unlocks: "vault_race V cmds i (Unlocking r) s (without_lock (cmds i) r) (s\<lparr>lock_owner := None\<rparr>)"
| dies: "\<not> (\<exists>r. p = Finished r) \<Longrightarrow> p \<noteq> Killed \<Longrightarrow>
     vault_race V cmds i p s Killed
       (s\<lparr>lock_owner := (if lock_owner s = Some i then None else lock_owner s)\<rparr>)"


definition race_start :: "fs \<Rightarrow> race" where
  "race_start d = \<lparr>rdisk = d, lock_owner = None, history = []\<rparr>"

section \<open>The atomic map the processes share\<close>

text \<open>
  An atomic create inserts an address that is absent, an atomic forget removes one that is
  present; \<open>replay\<close> is the map after a history of them, \<open>atomic_history\<close> that each could
  happen when it did.
\<close>

fun enabled :: "keys \<Rightarrow> key_command \<Rightarrow> (AccountAddr \<rightharpoonup> bool) \<Rightarrow> bool" where
  "enabled K (Insert key pw n) m \<longleftrightarrow> m (addr_of K key) = None"
| "enabled K (Forget a) m \<longleftrightarrow> m a \<noteq> None"

definition replay :: "keys \<Rightarrow> (nat \<Rightarrow> key_command) \<Rightarrow> nat list \<Rightarrow> (AccountAddr \<rightharpoonup> bool) \<Rightarrow> (AccountAddr \<rightharpoonup> bool)" where
  "replay K cmds h m = fold (\<lambda>i. key_effect (addr_of K) (cmds i)) h m"

fun atomic_history :: "keys \<Rightarrow> (nat \<Rightarrow> key_command) \<Rightarrow> nat list \<Rightarrow> (AccountAddr \<rightharpoonup> bool) \<Rightarrow> bool" where
  "atomic_history K cmds [] m \<longleftrightarrow> True"
| "atomic_history K cmds (i # h) m \<longleftrightarrow>
     enabled K (cmds i) m \<and> atomic_history K cmds h (key_effect (addr_of K) (cmds i) m)"

lemma replay_simps [simp]:
  "replay K cmds [] m = m"
  "replay K cmds (h @ [i]) m = key_effect (addr_of K) (cmds i) (replay K cmds h m)"
  by (simp_all add: replay_def)

lemma atomic_history_snoc [simp]:
  "atomic_history K cmds (h @ [i]) m \<longleftrightarrow>
     atomic_history K cmds h m \<and> enabled K (cmds i) (replay K cmds h m)"
  by (induction h arbitrary: m) (auto simp: replay_def)

section \<open>What one call changes\<close>

fun command_addr :: "keys \<Rightarrow> key_command \<Rightarrow> AccountAddr" where
  "command_addr K (Insert key pw n) = addr_of K key"
| "command_addr K (Forget a) = a"

lemma after_Some:
  "after m next failed s = Some (p', s') \<longleftrightarrow>
     (\<exists>e. m s = (Inl e, s') \<and> p' = failed (Some e)) \<or> (\<exists>r. m s = (Inr r, s') \<and> p' = next)"
  by (auto simp: after_def split: prod.splits sum.splits)

lemma after_keeps:
  "after m next failed s = Some (p', s') \<Longrightarrow> keeps (frame N) m \<Longrightarrow> frame N s s'"
  by (auto simp: after_Some dest: keepsD)

lemma after_fails:
  "after m next failed s = Some (p', s') \<Longrightarrow> p' \<noteq> next \<Longrightarrow> (\<And>e. m s = (Inl e, s') \<Longrightarrow> frame N s s') \<Longrightarrow>
     frame N s s'"
  by (auto simp: after_Some)

lemma frame_sync_dir [simp]: "frame N s (snd (sync_dir s))"
  using keeps_directory_calls(3) [of N] by (simp add: keeps_def)

lemma create_step_quiet:
  assumes "create_step V key pw n p s = Some (p', s')" and "\<not> commits p p'"
  shows "frame {Utf8 (stage_dir (addr_of (vkeys V) key)), Utf8 LOCK_FILE} s s'"
proof -
  let ?N = "{Utf8 (stage_dir (addr_of (vkeys V) key)), Utf8 LOCK_FILE}"
  have w: "keeps (frame ?N) (io (case pw of Some p \<Rightarrow> seal V (stage_dir (addr_of (vkeys V) key)) key p n
      | None \<Rightarrow> write_open V (stage_dir (addr_of (vkeys V) key)) (addr_of (vkeys V) key) key))"
    by (auto intro!: keeps_intros split: option.splits)
  show ?thesis
  proof (cases p)
    case SyncedFile
    with assms show ?thesis
      by (auto simp: after_Some io_Inl dest: frame_mono [OF rename_out_Inl])
  next
    case PrivateStage
    with assms(1) show ?thesis by (auto intro: after_keeps [OF _ w])
  qed (use assms(1) in \<open>auto split: if_splits intro!: keeps_intros elim!: after_keeps [where N = ?N]\<close>)
qed

lemma command_step_quiet:
  assumes "command_step V c p s = Some (p', s')" and "\<not> commits p p'"
  shows "frame {Utf8 (stage_dir (command_addr (vkeys V) c)), Utf8 LOCK_FILE} s s'"
proof (cases c)
  case (Insert key pw n)
  with create_step_quiet assms show ?thesis by auto
next
  case (Forget a)
  let ?N = "{Utf8 (stage_dir a), Utf8 LOCK_FILE}"
  show ?thesis
  proof (cases p)
    case (ForgetHoldsLock prot)
    with assms Forget show ?thesis
      by (auto simp: after_Some io_Inl dest: frame_mono [OF remove_file_Inl])
  qed (use assms(1) Forget in
    \<open>auto split: sum.splits intro!: keeps_intros elim!: after_keeps [where N = ?N]\<close>)
qed

lemma command_step_commits:
  assumes "command_step V c p s = Some (p', s')" and "commits p p'"
  shows "(\<exists>key pw n. c = Insert key pw n \<and> p = SyncedFile \<and> p' = RenamedFile
      \<and> rename_out (stage_dir (addr_of (vkeys V) key)) STAGED_FILE
           (file_name (addr_of (vkeys V) key) (pw \<noteq> None)) s = (Inr (), s'))
    \<or> (\<exists>a prot. c = Forget a \<and> p = ForgetHoldsLock prot \<and> p' = Unlocking None
      \<and> remove_file (file_name a prot) s = (Inr (), s'))"
  using assms by (cases c; cases p) (auto simp: after_Some)

section \<open>What holds at each point\<close>

definition critical :: "point \<Rightarrow> bool" where
  "critical p \<longleftrightarrow> (case p of HoldsLock \<Rightarrow> True | FoundAbsent \<Rightarrow> True | PrivateFile \<Rightarrow> True
     | SyncedFile \<Rightarrow> True | RenamedFile \<Rightarrow> True | ForgetHoldsLock prot \<Rightarrow> True | Unlocking r \<Rightarrow> True
     | _ \<Rightarrow> False)"

definition committed :: "point \<Rightarrow> bool" where
  "committed p \<longleftrightarrow> (case p of RenamedFile \<Rightarrow> True | Unlocking r \<Rightarrow> r = None | Unstaging r \<Rightarrow> r = None
     | Finished r \<Rightarrow> r = None | _ \<Rightarrow> False)"

definition checked :: "point \<Rightarrow> bool" where
  "checked p \<longleftrightarrow> (case p of FoundAbsent \<Rightarrow> True | PrivateFile \<Rightarrow> True | SyncedFile \<Rightarrow> True | _ \<Rightarrow> False)"

definition staging :: "point \<Rightarrow> bool" where
  "staging p \<longleftrightarrow> (case p of MadeDir \<Rightarrow> True | PrivateDir \<Rightarrow> True | ClearedStage \<Rightarrow> True | MadeStage \<Rightarrow> True
     | PrivateStage \<Rightarrow> True | WrittenStage \<Rightarrow> True | AwaitsLock \<Rightarrow> True | HoldsLock \<Rightarrow> True | _ \<Rightarrow> checked p)"

definition forgetting :: "point \<Rightarrow> bool" where
  "forgetting p \<longleftrightarrow> (case p of FoundHeld q \<Rightarrow> True | ForgetAwaitsLock q \<Rightarrow> True | ForgetHoldsLock q \<Rightarrow> True
     | _ \<Rightarrow> False)"

text \<open>The points a command can be at.\<close>

fun can_be_at :: "key_command \<Rightarrow> point \<Rightarrow> bool" where
  "can_be_at (Insert key pw n) p \<longleftrightarrow> \<not> forgetting p"
| "can_be_at (Forget a) p \<longleftrightarrow> \<not> staging p \<and> p \<noteq> RenamedFile \<and> (\<forall>r. p \<noteq> Unstaging r)"

lemmas point_defs = critical_def committed_def checked_def staging_def forgetting_def

definition valid_name :: "keys \<Rightarrow> AccountAddr \<Rightarrow> bool" where
  "valid_name K a \<longleftrightarrow> addr_parse K (to_string a) = Some a"

text \<open>
  The shared state: a readable directory holding no account twice, in which the accounts held
  are the atomic map after the history.
\<close>

definition race_ok :: "vault_crates \<Rightarrow> (nat \<Rightarrow> key_command) \<Rightarrow> (AccountAddr \<rightharpoonup> bool) \<Rightarrow> race \<Rightarrow> bool" where
  "race_ok V cmds m s \<longleftrightarrow>
     addr_laws (vkeys V) \<and> (\<forall>i. key_legal (cmds i)) \<and> vault_ok (vkeys V) (rdisk s)
     \<and> vault_held (vkeys V) (rdisk s) = replay (vkeys V) cmds (history s) m
     \<and> atomic_history (vkeys V) cmds (history s) m \<and> distinct (history s)"

text \<open>
  A process at \<open>p\<close>: it is past taking the lock and before giving it back exactly when it
  holds it; past the check, its account is still absent; it is in the history exactly when
  it is past its rename or removal (or was killed there).
\<close>

definition point_ok :: "vault_crates \<Rightarrow> (nat \<Rightarrow> key_command) \<Rightarrow> nat \<Rightarrow> point \<Rightarrow> race \<Rightarrow> bool" where
  "point_ok V cmds i p s \<longleftrightarrow>
     can_be_at (cmds i) p \<and> (critical p \<longleftrightarrow> lock_owner s = Some i)
     \<and> (checked p \<longrightarrow> (\<forall>q. \<not> key_file (vkeys V) (rdisk s) (command_addr (vkeys V) (cmds i)) q))
     \<and> (staging p \<longrightarrow> made (rdisk s))
     \<and> (forgetting p \<longrightarrow> valid_name (vkeys V) (command_addr (vkeys V) (cmds i)))
     \<and> (committed p \<longrightarrow> i \<in> set (history s)) \<and> (i \<in> set (history s) \<longrightarrow> committed p \<or> p = Killed)"

lemma point_okD:
  assumes "point_ok V cmds i p s"
  shows "critical p \<longleftrightarrow> lock_owner s = Some i"
    and "checked p \<Longrightarrow> \<not> key_file (vkeys V) (rdisk s) (command_addr (vkeys V) (cmds i)) q"
    and "staging p \<Longrightarrow> made (rdisk s)"
    and "forgetting p \<Longrightarrow> valid_name (vkeys V) (command_addr (vkeys V) (cmds i))"
    and "committed p \<Longrightarrow> i \<in> set (history s)"
    and "i \<in> set (history s) \<Longrightarrow> committed p \<or> p = Killed" and "can_be_at (cmds i) p"
  using assms by (auto simp: point_ok_def)

text \<open>A create's and a forget's commit, on the map.\<close>

lemma commit_effect:
  assumes "race_ok V cmds m s" and "point_ok V cmds i p s"
    and "command_step V (cmds i) p (rdisk s) = Some (p', d)" and "commits p p'"
  shows "vault_ok (vkeys V) d \<and> enabled (vkeys V) (cmds i) (vault_held (vkeys V) (rdisk s))
    \<and> vault_held (vkeys V) d = key_effect (addr_of (vkeys V)) (cmds i) (vault_held (vkeys V) (rdisk s))"
proof -
  let ?K = "vkeys V" and ?s = "rdisk s"
  have laws: "addr_laws ?K" and ok: "vault_ok ?K ?s" and legal: "key_legal (cmds i)"
    using assms(1) by (simp_all add: race_ok_def)
  from command_step_commits [OF assms(3,4)] show ?thesis
  proof (elim disjE exE conjE)
    fix key pw n
    assume c: "cmds i = Insert key pw n" and p: "p = SyncedFile"
      and r: "rename_out (stage_dir (addr_of ?K key)) STAGED_FILE (file_name (addr_of ?K key) (pw \<noteq> None)) ?s = (Inr (), d)"
    let ?a = "addr_of ?K key" and ?q = "pw \<noteq> None"
    have valid: "addr_parse ?K (to_string ?a) = Some ?a" using addr_laws_of [OF laws] legal c by simp
    have "keeps (frame {Utf8 (stage_dir ?a), Utf8 LOCK_FILE, Utf8 (file_name ?a ?q)})
        (rename_out (stage_dir ?a) STAGED_FILE (file_name ?a ?q))" by (intro keeps_intros; simp)
    from keepsD [OF this r]
    have f: "frame {Utf8 (stage_dir ?a), Utf8 LOCK_FILE, Utf8 (file_name ?a ?q)} ?s d" .
    have free: "\<not> key_file ?K ?s ?a q" for q using point_okD(2) [OF assms(2)] p c by (simp add: point_defs)
    have md: "made d" using point_okD(3) [OF assms(2)] p frame_made [OF f] by (simp add: point_defs)
    have upd: "key_file ?K d b q \<longleftrightarrow> key_file ?K ?s b q \<or> (b = ?a \<and> q = ?q)" for b q
      using rename_out_Inr [OF r] key_file_added [OF laws valid f] by blast
    have v: "vault_ok ?K d" by (rule vault_ok_added [OF ok f md free upd])
    have "vault_held ?K d = (vault_held ?K ?s)(?a \<mapsto> ?q)"
      by (rule vault_held_upd [OF upd v]) (use vault_held_Some [OF ok] free in auto)
    with v free c show ?thesis by (simp add: vault_held_None)
  next
    fix a prot
    assume c: "cmds i = Forget a" and p: "p = ForgetHoldsLock prot"
      and r: "remove_file (file_name a prot) ?s = (Inr (), d)"
    have "keeps (frame {Utf8 LOCK_FILE, Utf8 (file_name a prot)}) (remove_file (file_name a prot))"
      by (intro keeps_intros; simp)
    from keepsD [OF this r] have f: "frame {Utf8 LOCK_FILE, Utf8 (file_name a prot)} ?s d" .
    have k: "key_file ?K ?s a prot"
      using remove_file_was [OF r] point_okD(4) [OF assms(2)] p c
      by (auto simp: key_file_def valid_name_def point_defs)
    have upd: "key_file ?K d b q \<longleftrightarrow> key_file ?K ?s b q \<and> b \<noteq> a" for b q
      by (rule key_file_removed [OF laws ok k f remove_file_Inr [OF r]])
    have v: "vault_ok ?K d" by (rule vault_ok_removed [OF ok f]) (use upd in blast)
    have "vault_held ?K d = (vault_held ?K ?s)(a := None)"
      by (rule vault_held_upd [OF upd v]) (use vault_held_Some [OF ok] in auto)
    with v k c show ?thesis by (auto simp: vault_held_None)
  qed
qed

text \<open>A call that does not commit changes no account.\<close>

lemma quiet_effect:
  assumes "race_ok V cmds m s" and "command_step V (cmds i) p (rdisk s) = Some (p', d)"
    and "\<not> commits p p'"
  shows "vault_ok (vkeys V) d" and "key_file (vkeys V) d b q = key_file (vkeys V) (rdisk s) b q"
    and "vault_held (vkeys V) d = vault_held (vkeys V) (rdisk s)" and "made (rdisk s) \<Longrightarrow> made d"
proof -
  have laws: "addr_laws (vkeys V)" and ok: "vault_ok (vkeys V) (rdisk s)"
    using assms(1) by (simp_all add: race_ok_def)
  note f = command_step_quiet [OF assms(2,3)]
  have k: "key_file (vkeys V) d b q = key_file (vkeys V) (rdisk s) b q" for b q
    by (rule key_file_frame [OF laws f])
  show "vault_ok (vkeys V) d" by (rule vault_ok_frame [OF ok f k])
  show "key_file (vkeys V) d b q = key_file (vkeys V) (rdisk s) b q" by (rule k)
  show "vault_held (vkeys V) d = vault_held (vkeys V) (rdisk s)"
    by (simp add: vault_held_def k fun_eq_iff)
  show "made (rdisk s) \<Longrightarrow> made d" by (rule frame_made [OF f])
qed

text \<open>Where a call can lead, from the point alone.\<close>

lemma after_points:
  assumes "after m next failed s = Some (p', s')"
  shows "p' = next \<or> (\<exists>e. p' = failed (Some e))"
  using assms by (auto simp: after_Some)

lemma create_step_points:
  assumes "create_step V key pw n p s = Some (p', s')"
  shows "critical p' = critical p \<and> (\<not> commits p p' \<longrightarrow> committed p' = committed p)
    \<and> p \<noteq> Killed \<and> p' \<noteq> Killed \<and> \<not> forgetting p' \<and> (staging p' \<longrightarrow> staging p \<or> p' = MadeDir)"
  using assms by (cases p) (auto dest!: after_points simp: point_defs split: if_splits)

lemma forget_step_points:
  assumes "forget_step V a p s = Some (p', s')"
  shows "critical p' = critical p \<and> (\<not> commits p p' \<longrightarrow> committed p' = committed p)
    \<and> p \<noteq> Killed \<and> p' \<noteq> Killed
    \<and> \<not> staging p' \<and> p' \<noteq> RenamedFile \<and> (\<forall>r. p' \<noteq> Unstaging r)"
  using assms by (cases p) (auto dest!: after_points simp: point_defs split: sum.splits)

lemma command_step_points:
  assumes "command_step V c p s = Some (p', s')"
  shows "critical p' = critical p" and "\<not> commits p p' \<Longrightarrow> committed p' = committed p"
    and "p \<noteq> Killed \<and> p' \<noteq> Killed" and "can_be_at c p'" and "staging p' \<Longrightarrow> staging p \<or> p' = MadeDir"
  using assms create_step_points forget_step_points by (cases c; fastforce)+

lemma command_step_keeps_made:
  assumes "command_step V c p s = Some (p', s')" and "made s"
  shows "made s'"
proof (cases "commits p p'")
  case True
  have k: "keeps (frame UNIV) (rename_out d f n)" "keeps (frame UNIV) (remove_file n)" for d f n
    by (intro keeps_intros; simp)+
  from command_step_commits [OF assms(1) True] show ?thesis
    using assms(2) by (auto dest!: keepsD [OF k(1)] keepsD [OF k(2)] dest: frame_made)
qed (use command_step_quiet [OF assms(1)] assms(2) in \<open>auto dest: frame_made\<close>)

lemma command_step_made:
  assumes "command_step V c p s = Some (MadeDir, s')"
  shows "made s'"
  using assms by (cases c; cases p) (auto simp: after_Some io_Inr dest: create_dir_all_made split: if_splits sum.splits)

lemma command_step_check:
  assumes "addr_laws (vkeys V)" and "vault_ok (vkeys V) s"
    and "command_step V c p s = Some (p', s')" and "checked p'"
  shows "checked p \<or> (s' = s \<and> (\<forall>q. \<not> key_file (vkeys V) s (command_addr (vkeys V) c) q))"
proof (cases "p = HoldsLock")
  case True
  then obtain key pw n where c: "c = Insert key pw n" using assms(3) by (cases c) auto
  with True assms(3,4) obtain hs where hs: "vault_accounts V s = Inr hs"
    and free: "addr_of (vkeys V) key \<notin> addr ` set hs" and "s' = s"
    by (auto simp: after_Some and_then_Inl and_then_Inr of_read_def fail_def ok_def list_ex_addr point_defs
        split: if_splits)
  then show ?thesis using vault_accounts_addrs [OF assms(1,2) hs] c by simp
next
  case False
  then show ?thesis using assms(3,4)
    by (cases c; cases p) (auto simp: after_Some point_defs split: if_splits sum.splits)
qed

lemma command_step_finds:
  assumes "addr_laws (vkeys V)" and "vault_ok (vkeys V) s"
    and "command_step V c p s = Some (p', s')" and "forgetting p'"
  shows "forgetting p \<or> valid_name (vkeys V) (command_addr (vkeys V) c)"
  using assms(3,4) find_held_Inr [OF assms(1,2)]
  by (cases c; cases p)
    (auto simp: after_Some point_defs valid_name_def key_file_def split: if_splits sum.splits)

section \<open>The two contracts, for every interleaving\<close>

lemma race_sequential:
  assumes "race_ok V cmds m s" and "point_ok V cmds i p s" and "vault_race V cmds i p s p' s'"
  shows "race_ok V cmds m s' \<and> point_ok V cmds i p' s'"
  using assms(3)
proof cases
  case (calls d)
  note st = calls(2) and c = command_step_points [OF calls(2)]
  have laws: "addr_laws (vkeys V)" and ok: "vault_ok (vkeys V) (rdisk s)"
    using assms(1) by (simp_all add: race_ok_def)
  have made: "made d" if "staging p'"
    using c(5) [OF that] command_step_made [of V "cmds i" p "rdisk s" d] st point_okD(3) [OF assms(2)]
      command_step_keeps_made [OF st] by auto
  have finds: "forgetting p' \<Longrightarrow> valid_name (vkeys V) (command_addr (vkeys V) (cmds i))"
    using command_step_finds [OF laws ok st] point_okD(4) [OF assms(2)] by blast
  show ?thesis
  proof (cases "commits p p'")
    case True
    note e = commit_effect [OF assms(1,2) st True]
    have "p \<noteq> Killed" "\<not> committed p" "committed p'" "\<not> checked p'"
      using command_step_commits [OF st True] by (auto simp: point_defs)
    then have "i \<notin> set (history s)" using point_okD(6) [OF assms(2)] by blast
    with e True assms(1) calls(1) c(1,4) made finds \<open>committed p'\<close> \<open>\<not> checked p'\<close> point_okD(1) [OF assms(2)]
    show ?thesis by (simp add: race_ok_def point_ok_def)
  next
    case False
    note e = quiet_effect [OF assms(1) st False]
    have "checked p' \<Longrightarrow> \<not> key_file (vkeys V) d (command_addr (vkeys V) (cmds i)) q" for q
      using command_step_check [OF laws ok st] point_okD(2) [OF assms(2)] e(2) by blast
    with e False assms(1) calls(1) c made finds point_okD(1,5,6) [OF assms(2)] c(3,4)
    show ?thesis by (auto simp: race_ok_def point_ok_def)
  qed
next
  case locks
  then show ?thesis using assms(1,2)
    by (cases p; cases "cmds i") (auto simp: race_ok_def point_ok_def point_defs)
next
  case gives_up
  then show ?thesis using assms(1,2)
    by (cases p; cases "cmds i") (auto simp: race_ok_def point_ok_def point_defs)
next
  case (unlocks r)
  then show ?thesis using assms(1,2)
    by (cases "cmds i") (auto simp: race_ok_def point_ok_def point_defs)
next
  case dies
  then show ?thesis using assms(1,2)
    by (cases "cmds i") (auto simp: race_ok_def point_ok_def point_defs)
qed

text \<open>
  What another process does leaves a point's assertion as it was: only the holder of the
  lock changes accounts.
\<close>

lemma race_stable:
  assumes "race_ok V cmds m s" and "point_ok V cmds i p s" and "vault_race V cmds i p s p' s'"
    and "j \<noteq> i" and "point_ok V cmds j q s"
  shows "point_ok V cmds j q s'"
  using assms(3)
proof cases
  case (calls d)
  note st = calls(2)
  have m: "made (rdisk s) \<Longrightarrow> made d" by (rule command_step_keeps_made [OF st])
  show ?thesis
  proof (cases "commits p p'")
    case True
    have "critical p" using command_step_commits [OF st True] by (auto simp: point_defs)
    then have "\<not> critical q" using point_okD(1) [OF assms(2)] point_okD(1) [OF assms(5)] assms(4) by simp
    then have "\<not> checked q" by (cases q) (simp_all add: point_defs)
    with assms(4,5) m calls(1) True show ?thesis by (auto simp: point_ok_def)
  next
    case False
    with quiet_effect(2) [OF assms(1) st False] assms(5) m calls(1) show ?thesis
      by (auto simp: point_ok_def)
  qed
next
  case locks
  then show ?thesis using assms(4,5) by (simp add: point_ok_def)
next
  case gives_up
  then show ?thesis using assms(5) by simp
next
  case (unlocks r)
  then show ?thesis using assms(2,4,5) by (simp add: point_ok_def point_defs)
next
  case dies
  then show ?thesis using assms(4,5) by (auto simp: point_ok_def)
qed

interpretation vault_processes: non_interference
  "vault_race V cmds" "race_ok V cmds m" "point_ok V cmds"
  for V cmds m
  using race_sequential race_stable by unfold_locales blast+

text \<open>How many steps a process can still make.\<close>

fun race_rank :: "point \<Rightarrow> nat" where
  "race_rank Start = 16"
| "race_rank MadeDir = 15" | "race_rank PrivateDir = 14" | "race_rank ClearedStage = 13"
| "race_rank MadeStage = 12" | "race_rank PrivateStage = 11" | "race_rank WrittenStage = 10"
| "race_rank AwaitsLock = 9" | "race_rank HoldsLock = 8" | "race_rank FoundAbsent = 7"
| "race_rank PrivateFile = 6" | "race_rank SyncedFile = 5" | "race_rank RenamedFile = 4"
| "race_rank (FoundHeld q) = 6" | "race_rank (ForgetAwaitsLock q) = 5" | "race_rank (ForgetHoldsLock q) = 4"
| "race_rank (Unlocking r) = 3" | "race_rank (Unstaging r) = 2"
| "race_rank (Finished r) = 0" | "race_rank Killed = 0"

lemma command_step_rank:
  assumes "command_step V c p s = Some (p', s')"
  shows "race_rank p' < race_rank p"
  using assms by (cases c; cases p) (auto dest!: after_points split: if_splits sum.splits)

interpretation vault_ranked: ranked_process "vault_race V cmds" race_rank
  for V cmds
proof
  fix i p s p' s'
  assume "vault_race V cmds i p s p' s'"
  then show "race_rank p' < race_rank p"
  proof cases
    case (calls d)
    then show ?thesis using command_step_rank by blast
  next
    case locks
    then show ?thesis by (cases p) auto
  next
    case gives_up
    then show ?thesis by (cases p; cases "cmds i") auto
  next
    case (unlocks r)
    then show ?thesis by (cases "cmds i") auto
  next
    case dies
    then show ?thesis by (cases p) auto
  qed
qed

text \<open>
  No process is ever stuck, and a schedule of chosen processes can be followed: the next
  step of each, taking the lock when it is free.
\<close>

lemma never_stuck:
  assumes "point_ok V cmds i p s" and "\<not> (\<exists>r. p = Finished r)" and "p \<noteq> Killed"
  shows "\<exists>p' s'. vault_race V cmds i p s p' s' \<and> p' \<noteq> Killed"
proof -
  consider x where "command_step V (cmds i) p (rdisk s) = Some x" | p' where "with_lock p = Some p'"
    | r where "p = Unlocking r"
    using assms(2,3) point_okD(7) [OF assms(1)]
    by (cases p; cases "cmds i"; fastforce simp: after_def point_defs split: prod.splits sum.splits)
  then show ?thesis
  proof cases
    case (1 x)
    then obtain p' d where "command_step V (cmds i) p (rdisk s) = Some (p', d)" by (cases x) simp
    then show ?thesis using calls [of V cmds i p s p' d] command_step_points(3) by blast
  next
    case (2 p')
    have "without_lock (cmds i) r \<noteq> Killed" for r by (cases "cmds i") simp_all
    with gives_up [OF 2, of V cmds i s] show ?thesis by blast
  next
    case (3 r)
    have "without_lock (cmds i) r \<noteq> Killed" by (cases "cmds i") simp_all
    with unlocks [of V cmds i r s] 3 show ?thesis by blast
  qed
qed

definition next_step :: "vault_crates \<Rightarrow> (nat \<Rightarrow> key_command) \<Rightarrow> nat \<Rightarrow> point \<Rightarrow> race \<Rightarrow> (point \<times> race) option" where
  "next_step V cmds i p s =
     (case command_step V (cmds i) p (rdisk s) of
        Some (p', d) \<Rightarrow>
          Some (p', s\<lparr>rdisk := d, history := (if commits p p' then history s @ [i] else history s)\<rparr>)
      | None \<Rightarrow>
          (case with_lock p of
             Some p' \<Rightarrow> if lock_owner s = None then Some (p', s\<lparr>lock_owner := Some i\<rparr>) else None
           | None \<Rightarrow>
               (case p of Unlocking r \<Rightarrow> Some (without_lock (cmds i) r, s\<lparr>lock_owner := None\<rparr>) | _ \<Rightarrow> None)))"

fun follow ::
  "vault_crates \<Rightarrow> (nat \<Rightarrow> key_command) \<Rightarrow> nat list \<Rightarrow> (nat \<Rightarrow> point) \<Rightarrow> race \<Rightarrow> ((nat \<Rightarrow> point) \<times> race) option" where
  "follow V cmds [] ls s = Some (ls, s)"
| "follow V cmds (i # sched) ls s =
     (case next_step V cmds i (ls i) s of
        None \<Rightarrow> None
      | Some (p, t) \<Rightarrow> follow V cmds sched (ls(i := p)) t)"

lemma next_step_race: "next_step V cmds i p s = Some (p', s') \<Longrightarrow> vault_race V cmds i p s p' s'"
  unfolding next_step_def
  by (auto split: option.splits if_splits point.splits
      intro: vault_race.calls vault_race.locks vault_race.unlocks)

lemma follow_interleaves:
  "follow V cmds sched ls s = Some (ks, t) \<Longrightarrow> interleaved (vault_race V cmds) ls s sched ks t"
proof (induction V cmds sched ls s rule: follow.induct)
  case (1 V cmds ls s)
  then show ?case using still [of "vault_race V cmds" ls s] by simp
next
  case (2 V cmds i sched ls s)
  obtain p u where n: "next_step V cmds i (ls i) s = Some (p, u)"
    and f: "follow V cmds sched (ls(i := p)) u = Some (ks, t)"
    using "2.prems" by (auto split: option.splits prod.splits)
  from "2.IH" [OF n refl f] interleaved_one [of "vault_race V cmds" i ls, OF next_step_race [OF n]]
  show ?case using interleaved_trans by fastforce
qed

section \<open>One process left alone\<close>

text \<open>
  With nobody else moving, the lock answers by the directory's own attempts; \<open>n\<close> bounds the
  steps (no process makes more than sixteen).
\<close>

fun solo :: "vault_crates \<Rightarrow> key_command \<Rightarrow> nat \<Rightarrow> point \<Rightarrow> fs \<Rightarrow> point \<times> fs" where
  "solo V c 0 p d = (p, d)"
| "solo V c (Suc n) p d =
     (case command_step V c p d of
        Some (p', d') \<Rightarrow> solo V c n p' d'
      | None \<Rightarrow>
          (case with_lock p of
             Some p' \<Rightarrow>
               (case lock_loop (try_lock d) (overslept d) 0 0 LOCK_WAIT of
                  Inl e \<Rightarrow> solo V c n (without_lock c (Some (Io e))) d
                | Inr i \<Rightarrow> solo V c n p' d)
           | None \<Rightarrow> (case p of Unlocking r \<Rightarrow> solo V c n (without_lock c r) d | _ \<Rightarrow> (p, d))))"

definition error_of :: "VaultError + 'r \<Rightarrow> VaultError option" where
  "error_of r = (case r of Inl e \<Rightarrow> Some e | Inr x \<Rightarrow> None)"

lemma error_of_simps [simp]: "error_of (Inl e) = Some e" "error_of (Inr x) = None"
  by (simp_all add: error_of_def)

lemma solo_after:
  "command_step V c p d = after m nxt failed d \<Longrightarrow>
     solo V c (Suc n) p d =
       (case m d of (Inl e, d') \<Rightarrow> solo V c n (failed (Some e)) d' | (Inr r, d') \<Rightarrow> solo V c n nxt d')"
  by (simp add: after_def split: prod.split sum.split)

lemma solo_stays [simp]: "solo V c n (Finished r) d = (Finished r, d)"
  by (induction n) (cases c; simp)+

lemma solo_leaves [simp]:
  "0 < k \<Longrightarrow> solo V (Insert key pw n) k (Unstaging r) d = (Finished r, drop_stage (stage_dir (addr_of (vkeys V) key)) d)"
  "1 < k \<Longrightarrow> solo V (Insert key pw n) k (Unlocking r) d = (Finished r, drop_stage (stage_dir (addr_of (vkeys V) key)) d)"
  "0 < k \<Longrightarrow> solo V (Forget a) k (Unlocking r) d = (Finished r, d)"
proof -
  show u: "solo V (Insert key pw n) k (Unstaging r) d = (Finished r, drop_stage (stage_dir (addr_of (vkeys V) key)) d)"
    if "0 < k" for k using that by (cases k) auto
  show "solo V (Insert key pw n) k (Unlocking r) d = (Finished r, drop_stage (stage_dir (addr_of (vkeys V) key)) d)"
    if "1 < k" using that u [of "k - 1"] by (cases k) auto
  show "solo V (Forget a) k (Unlocking r) d = (Finished r, d)" if "0 < k" using that by (cases k) auto
qed

lemma solo_awaits:
  "with_lock p = Some p' \<Longrightarrow> solo V c (Suc k) p d =
     (case lock_loop (try_lock d) (overslept d) 0 0 LOCK_WAIT of
        Inl e \<Rightarrow> solo V c k (without_lock c (Some (Io e))) d
      | Inr i \<Rightarrow> solo V c k p' d)"
  by (cases c; cases p) auto

text \<open>
  \<open>concluded cleanup\<close>: what a process that returned \<open>r\<close>, leaving \<open>d\<close>, comes to once its stage
  is dropped.
\<close>

definition concluded :: "(fs \<Rightarrow> fs) \<Rightarrow> (VaultError + 'r) \<times> fs \<Rightarrow> point \<times> fs" where
  "concluded cleanup x = (Finished (error_of (fst x)), cleanup (snd x))"

lemma concluded_pair [simp]: "concluded cleanup (r, d) = (Finished (error_of r), cleanup d)"
  by (simp add: concluded_def)

lemma solo_and_then:
  assumes "N = Suc n" and "command_step V c p d = after m nxt failed d"
    and "\<And>x d'. solo V c n nxt d' = concluded cleanup (k x d')"
    and "\<And>e d'. solo V c n (failed (Some e)) d' = (Finished (Some e), cleanup d')"
  shows "solo V c N p d = concluded cleanup (and_then m k d)"
  unfolding assms(1) solo_after [OF assms(2)]
  using assms(3,4) by (auto simp: and_then_def split: prod.split sum.split)

lemma io_and_then: "io (and_then m k) = and_then (io m) (\<lambda>x. io (k x))"
  by (simp add: io_def map_err_op_and_then)

lemma concluded_with_drop: "concluded (\<lambda>d. d) (with_drop cleanup m d) = concluded cleanup (m d)"
  by (simp add: with_drop_def split: prod.split)

lemma solo_promotes:
  assumes "c = Insert key pw n" and "a = addr_of (vkeys V) key"
  shows "solo V c 7 FoundAbsent d =
    concluded (drop_stage (stage_dir a)) (and_then (io (promote (stage_dir a) (file_name a (pw \<noteq> None)))) (\<lambda>_. ok a) d)"
proof -
  let ?D = "drop_stage (stage_dir a)" and ?dest = "file_name a (pw \<noteq> None)"
  have 1: "solo V c 4 RenamedFile d = concluded ?D (and_then (io (ignoring sync_dir)) (\<lambda>_. ok a) d)" for d
    by (simp add: assms eval_nat_numeral ignoring_def ok_def and_then_def io_def map_err_op_def)
  have 2: "solo V c 5 SyncedFile d = concluded ?D (and_then (io (rename_out (stage_dir a) STAGED_FILE ?dest)) (\<lambda>_.
      and_then (io (ignoring sync_dir)) (\<lambda>_. ok a)) d)" for d
    by (rule solo_and_then [where nxt = RenamedFile and failed = Unlocking, OF _ _ 1]) (simp_all add: assms)
  have 3: "solo V c 6 PrivateFile d = concluded ?D (and_then (io (sync_in (stage_dir a) STAGED_FILE)) (\<lambda>_.
      and_then (io (rename_out (stage_dir a) STAGED_FILE ?dest)) (\<lambda>_.
      and_then (io (ignoring sync_dir)) (\<lambda>_. ok a))) d)" for d
    by (rule solo_and_then [where nxt = SyncedFile and failed = Unlocking, OF _ _ 2]) (simp_all add: assms)
  show ?thesis
    unfolding promote_def io_and_then and_then_assoc
    by (rule solo_and_then [where nxt = PrivateFile and failed = Unlocking, OF _ _ 3]) (simp_all add: assms)
qed

lemma solo_locked:
  assumes "c = Insert key pw n" and "a = addr_of (vkeys V) key"
  shows "solo V c 8 HoldsLock d =
    concluded (drop_stage (stage_dir a))
      (and_then (of_read (vault_accounts V)) (\<lambda>held.
         if list_ex (\<lambda>h. addr h = a) held then fail (AccountExists a)
         else and_then (io (promote (stage_dir a) (file_name a (pw \<noteq> None)))) (\<lambda>_. ok a)) d)"
proof -
  have 1: "and_then (of_read (vault_accounts V)) (\<lambda>held.
         if list_ex (\<lambda>h. addr h = a) held then fail (AccountExists a) else k) =
      and_then (and_then (of_read (vault_accounts V)) (\<lambda>held.
         if list_ex (\<lambda>h. addr h = a) held then fail (AccountExists a) else ok ())) (\<lambda>_. k)"
    for a and k :: "(fs, VaultError, AccountAddr) op"
    by (rule ext) (simp add: and_then_def of_read_def fail_def ok_def split: sum.split)
  show ?thesis
    unfolding assms unfolding 1
    by (rule solo_and_then [where nxt = FoundAbsent and failed = Unlocking, OF _ _ solo_promotes [OF refl refl]]) simp_all
qed

lemma solo_lock:
  assumes "c = Insert key pw n" and "a = addr_of (vkeys V) key"
    and "\<And>d. solo V c 8 HoldsLock d = concluded (drop_stage (stage_dir a)) (k d)"
  shows "solo V c 10 WrittenStage d =
    concluded (drop_stage (stage_dir a)) (and_then (io lock) (\<lambda>_. k) d)"
proof -
  let ?attempt = "\<lambda>s. case lock_loop (try_lock s) (overslept s) 0 0 LOCK_WAIT of
      Inl e \<Rightarrow> (Inl e, s) | Inr i \<Rightarrow> (Inr (), s)"
  have "solo V c (Suc 8) AwaitsLock d = concluded (drop_stage (stage_dir a)) (and_then (io ?attempt) (\<lambda>_. k) d)" for d
    unfolding solo_awaits [where p = AwaitsLock, OF with_lock.simps(1)] assms(3)
    by (simp add: assms(1,2) and_then_def io_def map_err_op_def split: sum.split)
  then have 1: "solo V c 9 AwaitsLock d = concluded (drop_stage (stage_dir a)) (and_then (io ?attempt) (\<lambda>_. k) d)" for d
    by simp
  show ?thesis
    unfolding lock_def io_and_then and_then_assoc
    by (rule solo_and_then [where nxt = AwaitsLock and failed = Unstaging, OF _ _ 1]) (simp_all add: assms(1,2))
qed

lemma solo_staged:
  assumes "c = Insert key pw n" and "a = addr_of (vkeys V) key"
  shows "solo V c 11 PrivateStage d =
    concluded (drop_stage (stage_dir a)) (create_staged V a key pw n d)"
  unfolding create_staged_def assms
  by (rule solo_and_then [where nxt = WrittenStage and failed = Unstaging, OF _ _
      solo_lock [OF refl refl solo_locked [OF refl refl]]]) simp_all

text \<open>Nobody else moving, the steps are the create of the code, and the forget.\<close>

lemma solo_create:
  "solo V (Insert key pw n) 16 Start d = concluded (\<lambda>d. d) (vault_create V key pw n d)"
proof (cases "pw = Some []")
  case True
  then show ?thesis by (simp add: vault_create_def fail_def eval_nat_numeral)
next
  case False
  let ?c = "Insert key pw n" and ?a = "addr_of (vkeys V) key"
  let ?D = "drop_stage (stage_dir ?a)"
  let ?rest = "with_drop ?D (create_staged V ?a key pw n)"
  let ?mode = "\<lambda>s. case set_permissions (stage_dir ?a) (octal 7 0 0) s of
         (Inl e, s') \<Rightarrow> (Inl e, ?D s') | (Inr u, s') \<Rightarrow> (Inr u, s')"
  have "solo V ?c (Suc 11) MadeStage d = concluded (\<lambda>d. d) (and_then (io ?mode) (\<lambda>_. ?rest) d)" for d
    using solo_after [of V ?c MadeStage d "io (set_permissions (stage_dir ?a) (octal 7 0 0))" PrivateStage Unstaging 11]
    by (simp add: solo_staged [OF refl refl] concluded_with_drop and_then_def io_def map_err_op_def
        split: prod.split sum.split)
  then have 1: "solo V ?c 12 MadeStage d = concluded (\<lambda>d. d) (and_then (io ?mode) (\<lambda>_. ?rest) d)" for d
    by simp
  have 2: "solo V ?c 13 ClearedStage d = concluded (\<lambda>d. d)
      (and_then (io (create_dir (stage_dir ?a))) (\<lambda>_. and_then (io ?mode) (\<lambda>_. ?rest)) d)" for d
    by (rule solo_and_then [where nxt = MadeStage and failed = Finished, OF _ _ 1]) simp_all
  have 3: "solo V ?c 14 PrivateDir d = concluded (\<lambda>d. d) (and_then (io (stage_create (stage_dir ?a))) (\<lambda>_. ?rest) d)" for d
    unfolding stage_create_def io_and_then and_then_assoc
    by (rule solo_and_then [where nxt = ClearedStage and failed = Finished, OF _ _ 2]) simp_all
  have 4: "solo V ?c 15 MadeDir d = concluded (\<lambda>d. d) (and_then (io (set_dir_mode (octal 7 0 0))) (\<lambda>_.
      and_then (io (stage_create (stage_dir ?a))) (\<lambda>_. ?rest)) d)" for d
    by (rule solo_and_then [where nxt = PrivateDir and failed = Finished, OF _ _ 3]) simp_all
  have "solo V ?c 16 Start d = concluded (\<lambda>d. d) (and_then (io create_dir_all) (\<lambda>_.
      and_then (io (set_dir_mode (octal 7 0 0))) (\<lambda>_.
      and_then (io (stage_create (stage_dir ?a))) (\<lambda>_. ?rest))) d)"
    by (rule solo_and_then [where nxt = MadeDir and failed = Finished, OF _ _ 4]) (simp_all add: False)
  then show ?thesis using False by (simp add: vault_create_def Let_def)
qed

lemma solo_forget:
  "solo V (Forget a) 16 Start d = concluded (\<lambda>d. d) (vault_forget V a d)"
proof -
  let ?attempt = "\<lambda>s. case lock_loop (try_lock s) (overslept s) 0 0 LOCK_WAIT of
      Inl e \<Rightarrow> (Inl e, s) | Inr i \<Rightarrow> (Inr (), s)"
  have 1: "solo V (Forget a) (Suc 12) (ForgetHoldsLock q) d = concluded (\<lambda>d. d) (io (remove_file (file_name a q)) d)" for q d
    using solo_after [of V "Forget a" "ForgetHoldsLock q" d "io (remove_file (file_name a q))" "Unlocking None" Unlocking 12]
    by (simp split: prod.split sum.split)
  have 2: "solo V (Forget a) (Suc 13) (ForgetAwaitsLock q) d =
      concluded (\<lambda>d. d) (and_then (io ?attempt) (\<lambda>_. io (remove_file (file_name a q))) d)" for q d
    unfolding solo_awaits [where p = "ForgetAwaitsLock q", OF with_lock.simps(2)]
    using 1 by (simp add: and_then_def io_def map_err_op_def split: sum.split)
  have 3: "solo V (Forget a) (Suc 14) (FoundHeld q) d =
      concluded (\<lambda>d. d) (and_then (io lock) (\<lambda>_. io (remove_file (file_name a q))) d)" for q d
    unfolding lock_def io_and_then and_then_assoc
    by (rule solo_and_then [where nxt = "ForgetAwaitsLock q" and failed = Finished, OF refl _ 2 [simplified]]) simp_all
  have "solo V (Forget a) (Suc 15) Start d = concluded (\<lambda>d. d) (vault_forget V a d)"
  proof (cases "find_held V a d")
    case (Inr h)
    then have "solo V (Forget a) (Suc 15) Start d = solo V (Forget a) (Suc 14) (FoundHeld (protected h)) d"
      by (subst solo.simps(2)) simp
    with 3 Inr show ?thesis by (simp add: vault_forget_def and_then_def of_read_def)
  next
    case (Inl e)
    then have "solo V (Forget a) (Suc 15) Start d = (Finished (Some e), d)"
      by (subst solo.simps(2)) simp
    with Inl show ?thesis by (simp add: vault_forget_def and_then_def of_read_def)
  qed
  then show ?thesis by simp
qed

text \<open>A process left alone is one of the interleavings.\<close>

definition alone_owner :: "nat \<Rightarrow> point \<Rightarrow> nat option" where
  "alone_owner i p = (if critical p then Some i else None)"

lemma with_lock_critical: "with_lock p = Some p' \<Longrightarrow> \<not> critical p \<and> critical p'"
  by (cases p) (auto simp: critical_def)

lemma without_lock_critical: "\<not> critical (without_lock c r)"
  by (cases c) (simp_all add: critical_def)

lemma solo_interleaves:
  assumes "solo V (cmds i) n (ls i) (rdisk s) = (p, d)" and "lock_owner s = alone_owner i (ls i)"
  shows "\<exists>sched t. interleaved (vault_race V cmds) ls s sched (ls(i := p)) t \<and> set sched \<subseteq> {i}
    \<and> rdisk t = d \<and> lock_owner t = alone_owner i p"
  using assms
proof (induction n arbitrary: ls s)
  case 0
  then have p: "p = ls i" "d = rdisk s" by simp_all
  have e: "ls(i := p) = ls" by (simp add: p)
  show ?case unfolding e
    using p 0(2) still [of "vault_race V cmds" ls s] by (intro exI [of _ "[]"] exI [of _ s]) simp
next
  case (Suc n)
  have step: ?case
    if v: "vault_race V cmds i (ls i) s q u" and r: "solo V (cmds i) n q (rdisk u) = (p, d)"
      and o: "lock_owner u = alone_owner i q" for q u
  proof -
    have "solo V (cmds i) n ((ls(i := q)) i) (rdisk u) = (p, d)"
      and "lock_owner u = alone_owner i ((ls(i := q)) i)" using r o by simp_all
    from Suc.IH [of "ls(i := q)", OF this] obtain sched t where t: "interleaved (vault_race V cmds) (ls(i := q)) u sched ((ls(i := q))(i := p)) t"
      "set sched \<subseteq> {i}" "rdisk t = d" "lock_owner t = alone_owner i p"
      by blast
    have run: "interleaved (vault_race V cmds) ls s (i # sched) (ls(i := p)) t"
      by (rule interleaved_then [OF v t(1)])
    have only: "set (i # sched) \<subseteq> {i}" using t(2) by simp
    show ?thesis by (intro exI conjI, rule run) (intro only t)+
  qed
  show ?case
  proof (cases "command_step V (cmds i) (ls i) (rdisk s)")
    case (Some x)
    obtain q d' where x: "x = (q, d')" by (cases x)
    show ?thesis
      by (rule step [OF calls [of V cmds i _ s, OF Some [unfolded x]]])
        (use Suc.prems Some x command_step_points(1) [OF Some [unfolded x]] in \<open>simp_all add: alone_owner_def\<close>)
  next
    case None
    note alone = None
    show ?thesis
    proof (cases "with_lock (ls i)")
      case (Some q)
      note c = with_lock_critical [OF Some]
      show ?thesis
      proof (cases "lock_loop (try_lock (rdisk s)) (overslept (rdisk s)) 0 0 LOCK_WAIT")
        case (Inl e)
        then show ?thesis
          by (intro step [OF gives_up [OF Some, of V cmds i s e]])
            (use Suc.prems alone Some c without_lock_critical in \<open>simp_all add: alone_owner_def\<close>)
      next
        case (Inr k)
        then show ?thesis
          by (intro step [OF locks [of _ _ s V cmds i, OF Some]])
            (use Suc.prems alone Some c in \<open>simp_all add: alone_owner_def\<close>)
      qed
    next
      case None
      show ?thesis
      proof (cases "\<exists>r. ls i = Unlocking r")
        case True
        then obtain r where r: "ls i = Unlocking r" by blast
        show ?thesis
          by (rule step [OF unlocks [of V cmds i r s, folded r]])
            (use Suc.prems alone None r without_lock_critical in \<open>simp_all add: alone_owner_def\<close>)
      next
        case False
        then have p: "p = ls i" "d = rdisk s" using Suc.prems(1) alone None
          by (auto split: point.splits)
        have e: "ls(i := p) = ls" by (simp add: p)
        show ?thesis unfolding e
          using p Suc.prems(2) still [of "vault_race V cmds" ls s] by (intro exI [of _ "[]"] exI [of _ s]) simp
      qed
    qed
  qed
qed

end
