(* ===== verification/Vault_Race_Files.thy ===== *)
theory Vault_Race_Files
  imports Vault_Race
begin

text \<open>
  What a create's file holds when other processes are on the same vault: the key it was
  given, sealed or not as it was asked, provided no other process is creating or forgetting
  the same account. The stage is named after the account, so two creates of one account
  share it; \<open>Race_Properties\<close> has a run in which they do.
\<close>

definition alone_on_account :: "keys \<Rightarrow> (nat \<Rightarrow> key_command) \<Rightarrow> nat \<Rightarrow> bool" where
  "alone_on_account K cmds i \<longleftrightarrow> (\<forall>j. j \<noteq> i \<longrightarrow> command_addr K (cmds j) \<noteq> command_addr K (cmds i))"

definition has_stage :: "point \<Rightarrow> bool" where
  "has_stage p \<longleftrightarrow> (case p of WrittenStage \<Rightarrow> True | AwaitsLock \<Rightarrow> True | HoldsLock \<Rightarrow> True
     | _ \<Rightarrow> checked p)"

definition has_private_stage :: "point \<Rightarrow> bool" where
  "has_private_stage p \<longleftrightarrow> p = PrivateFile \<or> p = SyncedFile"

definition written_for :: "vault_crates \<Rightarrow> SigningKey \<Rightarrow> rstr option \<Rightarrow> nat \<Rightarrow> dfile \<Rightarrow> bool" where
  "written_for V key pw n f \<longleftrightarrow> (\<exists>body. data f = Utf8Text body \<and> vault_text V key pw n body)"

definition stage_written_for :: "vault_crates \<Rightarrow> SigningKey \<Rightarrow> rstr option \<Rightarrow> nat \<Rightarrow> point \<Rightarrow> fs \<Rightarrow> bool" where
  "stage_written_for V key pw n p d \<longleftrightarrow>
     (\<exists>f. file_in (stage_dir (addr_of (vkeys V) key)) STAGED_FILE d = Some f \<and> written_for V key pw n f
       \<and> (has_private_stage p \<longrightarrow> fmode f = octal 6 0 0))"

definition filed_for :: "vault_crates \<Rightarrow> SigningKey \<Rightarrow> rstr option \<Rightarrow> nat \<Rightarrow> fs \<Rightarrow> bool" where
  "filed_for V key pw n d \<longleftrightarrow>
     (\<exists>f. node_at (Utf8 (file_name (addr_of (vkeys V) key) (pw \<noteq> None))) d = Some (File f)
       \<and> written_for V key pw n f \<and> fmode f = octal 6 0 0)"

definition file_ok :: "vault_crates \<Rightarrow> (nat \<Rightarrow> key_command) \<Rightarrow> nat \<Rightarrow> point \<Rightarrow> race \<Rightarrow> bool" where
  "file_ok V cmds i p s \<longleftrightarrow>
     point_ok V cmds i p s
     \<and> (\<forall>key pw n. cmds i = Insert key pw n \<longrightarrow> alone_on_account (vkeys V) cmds i \<longrightarrow>
          (has_stage p \<longrightarrow> stage_written_for V key pw n p (rdisk s))
          \<and> (i \<in> set (history s) \<longrightarrow> filed_for V key pw n (rdisk s)))"

lemma stage_written_for_same_folder:
  "node_at (Utf8 (stage_dir (addr_of (vkeys V) key))) d' = node_at (Utf8 (stage_dir (addr_of (vkeys V) key))) d \<Longrightarrow>
     stage_written_for V key pw n p d' = stage_written_for V key pw n p d"
  by (simp add: stage_written_for_def file_in_def)

lemma filed_for_frame:
  "frame N d d' \<Longrightarrow> Utf8 (file_name (addr_of (vkeys V) key) (pw \<noteq> None)) \<notin> N \<Longrightarrow>
     filed_for V key pw n d' = filed_for V key pw n d"
  by (simp add: filed_for_def frame_node)

section \<open>The process's own steps\<close>

lemma create_step_stages:
  assumes "create_step V key pw n p d = Some (p', d')" and "has_stage p'"
    and "has_stage p \<Longrightarrow> stage_written_for V key pw n p d"
  shows "stage_written_for V key pw n p' d'"
proof -
  let ?a = "addr_of (vkeys V) key"
  consider "p = PrivateStage" "p' = WrittenStage" | "p = WrittenStage" "p' = AwaitsLock"
    | "p = HoldsLock" "p' = FoundAbsent" | "p = FoundAbsent" "p' = PrivateFile"
    | "p = PrivateFile" "p' = SyncedFile"
    using assms(1,2) by (cases p) (auto dest!: after_points simp: has_stage_def checked_def split: if_splits)
  then show ?thesis
  proof cases
    case 1
    then have "io (case pw of Some w \<Rightarrow> seal V (stage_dir ?a) key w n | None \<Rightarrow> write_open V (stage_dir ?a) ?a key) d = (Inr (), d')"
      using assms(1) by (auto simp: after_Some)
    with 1 show ?thesis
      by (auto simp: io_Inr stage_written_for_def written_for_def vault_text_def write_open_def has_private_stage_def
          dest!: seal_Inr write_in_Inr split: option.splits)
  next
    case 2
    have k: "keeps (frame {Utf8 LOCK_FILE}) (open_or_create LOCK_FILE)" by (intro keeps_intros) simp
    have "open_or_create LOCK_FILE d = (Inr (), d')" using 2 assms(1) by (auto simp: after_Some io_Inr)
    note f = keepsD [OF k this]
    have "stage_written_for V key pw n p' d = stage_written_for V key pw n p d" using 2 by (simp add: stage_written_for_def has_private_stage_def)
    moreover have "node_at (Utf8 (stage_dir ?a)) d' = node_at (Utf8 (stage_dir ?a)) d"
      using frame_node [OF f] by (simp add: stage_not_lock)
    ultimately show ?thesis
      using assms(3) 2 stage_written_for_same_folder [of V key d' d pw n p'] by (simp add: has_stage_def)
  next
    case 3
    with assms(1) have "d' = d"
      by (auto simp: after_Some and_then_Inr of_read_def fail_def ok_def split: if_splits)
    with 3 assms(3) show ?thesis by (simp add: stage_written_for_def has_private_stage_def has_stage_def checked_def)
  next
    case 4
    with assms(1) have "set_permissions_in (stage_dir ?a) STAGED_FILE (octal 6 0 0) d = (Inr (), d')"
      by (auto simp: after_Some io_Inr)
    from set_permissions_in_Inr [OF this] assms(3) 4 show ?thesis
      by (auto simp: stage_written_for_def has_stage_def checked_def written_for_def)
  next
    case 5
    with assms(1) have "sync_in (stage_dir ?a) STAGED_FILE d = (Inr (), d')"
      by (auto simp: after_Some io_Inr)
    from sync_in_Inr [OF this] assms(3) 5 show ?thesis
      by (simp add: stage_written_for_def has_stage_def checked_def has_private_stage_def)
  qed
qed

lemma create_step_files:
  assumes "create_step V key pw n p d = Some (p', d')" and "commits p p'"
    and "stage_written_for V key pw n p d"
  shows "filed_for V key pw n d'"
proof -
  have p: "p = SyncedFile" and p': "p' = RenamedFile"
    using assms(1,2) by (cases p; simp add: after_Some)+
  with assms(1) have "rename_out (stage_dir (addr_of (vkeys V) key)) STAGED_FILE
      (file_name (addr_of (vkeys V) key) (pw \<noteq> None)) d = (Inr (), d')"
    by (auto simp: after_Some io_Inr)
  from rename_out_Inr [OF this] assms(3) p show ?thesis
    by (auto simp: stage_written_for_def filed_for_def has_private_stage_def)
qed

lemma create_step_keeps_file:
  assumes "create_step V key pw n p d = Some (p', d')" and "committed p" and "filed_for V key pw n d"
  shows "filed_for V key pw n d'"
proof -
  consider "p = RenamedFile" | "p = Unstaging None"
    using assms(1,2) by (cases p) (auto simp: committed_def)
  then show ?thesis
  proof cases
    case 1
    with assms(1,3) show ?thesis using filed_for_frame [OF frame_sync_dir [of "{}" d]] by auto
  next
    case 2
    with assms(1,3) show ?thesis
      by (auto simp: filed_for_def intro: drop_stage_file)
  qed
qed

section \<open>The other processes' steps\<close>

text \<open>
  A step of a process on another account: neither this account's stage nor its file is
  among the entries it touches.
\<close>

lemma command_step_frame:
  assumes "race_ok V cmds m s" and "point_ok V cmds j p s"
    and "command_step V (cmds j) p (rdisk s) = Some (p', d)"
  obtains N where "frame N (rdisk s) d"
    and "N \<subseteq> {Utf8 (stage_dir (command_addr (vkeys V) (cmds j))), Utf8 LOCK_FILE}
      \<union> {Utf8 (file_name (command_addr (vkeys V) (cmds j)) q) |q. valid_name (vkeys V) (command_addr (vkeys V) (cmds j))}"
proof (cases "commits p p'")
  case False
  with that [OF command_step_quiet [OF assms(3)]] show ?thesis by blast
next
  case True
  let ?a = "command_addr (vkeys V) (cmds j)"
  have laws: "addr_laws (vkeys V)" and legal: "key_legal (cmds j)" using assms(1) by (simp_all add: race_ok_def)
  have keep: "keeps (frame {Utf8 (stage_dir ?a), Utf8 (file_name ?a q)}) (rename_out (stage_dir ?a) STAGED_FILE (file_name ?a q))"
    "keeps (frame {Utf8 (file_name ?a q)}) (remove_file (file_name ?a q))" for q
    by (intro keeps_intros; simp)+
  from command_step_commits [OF assms(3) True] show ?thesis
  proof (elim disjE exE conjE)
    fix key pw n
    assume c: "cmds j = Insert key pw n"
      and r: "rename_out (stage_dir (addr_of (vkeys V) key)) STAGED_FILE
        (file_name (addr_of (vkeys V) key) (pw \<noteq> None)) (rdisk s) = (Inr (), d)"
    have v: "valid_name (vkeys V) ?a" using addr_laws_of [OF laws] legal c by (simp add: valid_name_def)
    from c r have "rename_out (stage_dir ?a) STAGED_FILE (file_name ?a (pw \<noteq> None)) (rdisk s) = (Inr (), d)" by simp
    from that [OF keepsD [OF keep(1) this]] v show ?thesis by blast
  next
    fix a prot
    assume c: "cmds j = Forget a" and p: "p = ForgetHoldsLock prot"
      and r: "remove_file (file_name a prot) (rdisk s) = (Inr (), d)"
    have v: "valid_name (vkeys V) ?a" using point_okD(4) [OF assms(2)] p by (simp add: forgetting_def)
    from c r have "remove_file (file_name ?a prot) (rdisk s) = (Inr (), d)" by simp
    from that [OF keepsD [OF keep(2) this]] v show ?thesis by blast
  qed
qed

lemma other_step_keeps:
  assumes "race_ok V cmds m s" and "point_ok V cmds j p s"
    and "command_step V (cmds j) p (rdisk s) = Some (p', d)"
    and "valid_name (vkeys V) a" and "command_addr (vkeys V) (cmds j) \<noteq> a"
  shows "node_at (Utf8 (stage_dir a)) d = node_at (Utf8 (stage_dir a)) (rdisk s)"
    and "node_at (Utf8 (file_name a q)) d = node_at (Utf8 (file_name a q)) (rdisk s)"
proof -
  let ?K = "vkeys V" and ?b = "command_addr (vkeys V) (cmds j)"
  have laws: "addr_laws ?K" using assms(1) by (simp add: race_ok_def)
  have va: "addr_parse ?K (to_string a) = Some a" using assms(4) by (simp add: valid_name_def)
  obtain N where f: "frame N (rdisk s) d" and N: "N \<subseteq> {Utf8 (stage_dir ?b), Utf8 LOCK_FILE}
      \<union> {Utf8 (file_name ?b q) |q. valid_name ?K ?b}"
    by (rule command_step_frame [OF assms(1-3)])
  have "stage_dir a \<noteq> stage_dir ?b"
    using assms(5) AccountAddr.expand by (auto simp: stage_dir_def)
  moreover have "stage_dir a \<noteq> file_name ?b q" if "valid_name ?K ?b" for q
    using stage_not_key_file [OF laws] that by (simp add: valid_name_def)
  ultimately have "Utf8 (stage_dir a) \<notin> N" using N stage_not_lock by blast
  then show "node_at (Utf8 (stage_dir a)) d = node_at (Utf8 (stage_dir a)) (rdisk s)" by (rule frame_node [OF f])
  have "file_name a q \<noteq> file_name ?b q'" if "valid_name ?K ?b" for q'
    using file_name_inj [OF laws va, of ?b q q'] that assms(5) by (auto simp: valid_name_def)
  moreover have "file_name a q \<noteq> stage_dir ?b" "file_name a q \<noteq> LOCK_FILE"
    using stage_not_key_file [OF laws va, of ?b q] lock_not_key_file [of a q] by simp_all
  ultimately have "Utf8 (file_name a q) \<notin> N" using N by blast
  then show "node_at (Utf8 (file_name a q)) d = node_at (Utf8 (file_name a q)) (rdisk s)" by (rule frame_node [OF f])
qed

section \<open>The contract\<close>

lemma file_okD:
  assumes "file_ok V cmds i p s" and "cmds i = Insert key pw n" and "alone_on_account (vkeys V) cmds i"
  shows "has_stage p \<Longrightarrow> stage_written_for V key pw n p (rdisk s)"
    and "i \<in> set (history s) \<Longrightarrow> filed_for V key pw n (rdisk s)"
  using assms by (auto simp: file_ok_def)

lemma has_stage_lock:
  "with_lock p = Some p' \<Longrightarrow> has_stage p' \<Longrightarrow> has_stage p \<and> has_private_stage p' = has_private_stage p"
  by (cases p) (auto simp: has_stage_def checked_def has_private_stage_def)

lemma without_lock_stage: "\<not> has_stage (without_lock c r)"
  by (cases c) (auto simp: has_stage_def checked_def)

lemma file_sequential:
  assumes "race_ok V cmds m s" and "file_ok V cmds i p s" and "vault_race V cmds i p s p' s'"
  shows "race_ok V cmds m s' \<and> file_ok V cmds i p' s'"
proof -
  have p: "point_ok V cmds i p s" using assms(2) by (simp add: file_ok_def)
  note next_ok = race_sequential [OF assms(1) p assms(3)]
  have "(has_stage p' \<longrightarrow> stage_written_for V key pw n p' (rdisk s')) \<and> (i \<in> set (history s') \<longrightarrow> filed_for V key pw n (rdisk s'))"
    if c: "cmds i = Insert key pw n" and a: "alone_on_account (vkeys V) cmds i" for key pw n
    using assms(3)
  proof cases
    case (calls d)
    note f = file_okD [OF assms(2) c a]
    have st: "create_step V key pw n p (rdisk s) = Some (p', d)" using calls(2) c by simp
    have "stage_written_for V key pw n p' d" if "has_stage p'"
      using create_step_stages [OF st that f(1)] .
    moreover have "filed_for V key pw n d" if h: "i \<in> set (history s')"
    proof (cases "commits p p'")
      case True
      then have "has_stage p" using st by (cases p) (auto simp: has_stage_def checked_def)
      from create_step_files [OF st True f(1) [OF this]] show ?thesis .
    next
      case False
      then have "i \<in> set (history s)" using h calls(1) by simp
      then show ?thesis
        using create_step_keeps_file [OF st] f(2) point_okD(6) [OF p] st by (cases p) auto
    qed
    ultimately show ?thesis using calls(1) by simp
  next
    case locks
    then show ?thesis using file_okD [OF assms(2) c a] has_stage_lock [of p p']
      by (auto simp: stage_written_for_def)
  next
    case gives_up
    then show ?thesis using file_okD [OF assms(2) c a] without_lock_stage by auto
  next
    case (unlocks r)
    then show ?thesis using file_okD [OF assms(2) c a] without_lock_stage by auto
  next
    case dies
    then show ?thesis using file_okD [OF assms(2) c a] by (auto simp: has_stage_def checked_def)
  qed
  with next_ok show ?thesis by (simp add: file_ok_def)
qed

lemma file_stable:
  assumes "race_ok V cmds m s" and "file_ok V cmds i p s" and "vault_race V cmds i p s p' s'"
    and "j \<noteq> i" and "file_ok V cmds j q s"
  shows "file_ok V cmds j q s'"
proof -
  have pi: "point_ok V cmds i p s" and pj: "point_ok V cmds j q s"
    using assms(2,5) by (simp_all add: file_ok_def)
  note stable = race_stable [OF assms(1) pi assms(3,4) pj]
  have "(has_stage q \<longrightarrow> stage_written_for V key pw n q (rdisk s')) \<and> (j \<in> set (history s') \<longrightarrow> filed_for V key pw n (rdisk s'))"
    if c: "cmds j = Insert key pw n" and a: "alone_on_account (vkeys V) cmds j" for key pw n
    using assms(3)
  proof cases
    case (calls d)
    let ?a = "addr_of (vkeys V) key"
    have v: "valid_name (vkeys V) ?a"
      using addr_laws_of assms(1) c unfolding race_ok_def valid_name_def by (metis key_legal.simps(1))
    have d: "command_addr (vkeys V) (cmds i) \<noteq> ?a" using a c assms(4) by (auto simp: alone_on_account_def)
    note k = other_step_keeps [OF assms(1) pi calls(2) v d]
    have "stage_written_for V key pw n q d = stage_written_for V key pw n q (rdisk s)" by (rule stage_written_for_same_folder [OF k(1)])
    moreover have "filed_for V key pw n d = filed_for V key pw n (rdisk s)" using k(2) by (simp add: filed_for_def)
    moreover have "j \<in> set (history s') \<longleftrightarrow> j \<in> set (history s)" using calls(1) assms(4) by simp
    ultimately show ?thesis using file_okD [OF assms(5) c a] calls(1) by simp
  qed (use file_okD [OF assms(5) c a] in auto)
  with stable show ?thesis by (simp add: file_ok_def)
qed

interpretation vault_files: non_interference
  "vault_race V cmds" "race_ok V cmds m" "file_ok V cmds"
  for V cmds m
  using file_sequential file_stable by unfold_locales blast+

end
