(* ===== verification/Observed_Race.thy ===== *)
theory Observed_Race
  imports Address_Book Interleaving
begin

text \<open>
  Several processes on one observed list, which no lock guards: each reads the list, composes
  the one it wants, writes it under the staged name, which they all share, and renames it into
  place, and the others may move between any two of those calls.
\<close>

section \<open>The points of an add and of a remove\<close>

datatype book_point =
    BookStart
  | Composed "AccountAddr list" | BookDirMade "AccountAddr list" | BookDirPrivate "AccountAddr list"
  | ListWritten | ListPrivate | ListSynced | ListRenamed
  | BookEnded "ObservedError + bool"
  | BookKilled

definition observed_document :: "observed_crates \<Rightarrow> AccountAddr list \<Rightarrow> rstr" where
  "observed_document B observed =
     doc_writer B \<lparr>logos_account_observed = OBSERVED_VERSION, addresses = sort (map to_string observed)\<rparr>"

definition compose :: "book_command \<Rightarrow> AccountAddr list \<Rightarrow> book_point" where
  "compose c observed =
     (case c of
        Observe a \<Rightarrow> if a \<in> set observed then BookEnded (Inr False) else Composed (observed @ [a])
      | Unobserve a \<Rightarrow>
          let kept = filter (\<lambda>held. held \<noteq> a) observed in
          if length kept = length observed then BookEnded (Inr False) else Composed kept)"

definition book_after :: "unit io \<Rightarrow> book_point \<Rightarrow> fs \<Rightarrow> (book_point \<times> fs) option" where
  "book_after m next s =
     (case m s of (Inl e, s') \<Rightarrow> Some (BookEnded (Inl (ListIo e)), s') | (Inr u, s') \<Rightarrow> Some (next, s'))"

fun book_call :: "observed_crates \<Rightarrow> book_command \<Rightarrow> book_point \<Rightarrow> fs \<Rightarrow> (book_point \<times> fs) option" where
  "book_call B c BookStart s =
     (case observed_list B s of
        Inl e \<Rightarrow> Some (BookEnded (Inl e), s)
      | Inr observed \<Rightarrow> Some (compose c observed, s))"
| "book_call B c (Composed l) s = book_after create_dir_all (BookDirMade l) s"
| "book_call B c (BookDirMade l) s = book_after (set_dir_mode (octal 7 0 0)) (BookDirPrivate l) s"
| "book_call B c (BookDirPrivate l) s = book_after (write_file OBSERVED_STAGED (observed_document B l)) ListWritten s"
| "book_call B c ListWritten s = book_after (set_permissions OBSERVED_STAGED (octal 6 0 0)) ListPrivate s"
| "book_call B c ListPrivate s = book_after (sync_file OBSERVED_STAGED) ListSynced s"
| "book_call B c ListSynced s = book_after (rename OBSERVED_STAGED OBSERVED_FILE) ListRenamed s"
| "book_call B c ListRenamed s = Some (BookEnded (Inr True), snd (sync_dir s))"
| "book_call B c p s = None"

text \<open>The directory, and, for the statements only, the lists that were composed.\<close>

record book_race =
  bdisk :: fs
  composed :: "AccountAddr list list"

definition composes :: "book_point \<Rightarrow> AccountAddr list list" where
  "composes p = (case p of Composed l \<Rightarrow> [l] | _ \<Rightarrow> [])"

inductive observed_race :: "observed_crates \<Rightarrow> (nat \<Rightarrow> book_command) \<Rightarrow> (book_point, book_race) process_step"
  for B cmds where
  calls: "book_call B (cmds i) p (bdisk s) = Some (p', d) \<Longrightarrow>
     observed_race B cmds i p s p' \<lparr>bdisk = d, composed = composed s @ composes p'\<rparr>"
| dies: "\<not> (\<exists>r. p = BookEnded r) \<Longrightarrow> observed_race B cmds i p s BookKilled s"

definition book_start :: "fs \<Rightarrow> book_race" where
  "book_start d = \<lparr>bdisk = d, composed = []\<rparr>"

fun book_follow ::
  "observed_crates \<Rightarrow> (nat \<Rightarrow> book_command) \<Rightarrow> nat list \<Rightarrow> (nat \<Rightarrow> book_point) \<Rightarrow> book_race \<Rightarrow>
   ((nat \<Rightarrow> book_point) \<times> book_race) option" where
  "book_follow B cmds [] ls s = Some (ls, s)"
| "book_follow B cmds (i # sched) ls s =
     (case book_call B (cmds i) (ls i) (bdisk s) of
        None \<Rightarrow> None
      | Some (p, d) \<Rightarrow>
          book_follow B cmds sched (ls(i := p)) \<lparr>bdisk = d, composed = composed s @ composes p\<rparr>)"

lemma book_follow_interleaves:
  "book_follow B cmds sched ls s = Some (ks, t) \<Longrightarrow> interleaved (observed_race B cmds) ls s sched ks t"
proof (induction B cmds sched ls s rule: book_follow.induct)
  case (1 B cmds ls s)
  then show ?case using still [of "observed_race B cmds" ls s] by simp
next
  case (2 B cmds i sched ls s)
  obtain p d where n: "book_call B (cmds i) (ls i) (bdisk s) = Some (p, d)"
    and f: "book_follow B cmds sched (ls(i := p)) \<lparr>bdisk = d, composed = composed s @ composes p\<rparr> = Some (ks, t)"
    using "2.prems" by (auto split: option.splits prod.splits)
  from "2.IH" [OF n refl f] interleaved_one [of "observed_race B cmds" i ls, OF calls [of B cmds i _ s, OF n]]
  show ?case using interleaved_trans by fastforce
qed

section \<open>What one call changes\<close>

lemma book_after_Some:
  "book_after m nxt s = Some (p', s') \<longleftrightarrow>
     (\<exists>e. m s = (Inl e, s') \<and> p' = BookEnded (Inl (ListIo e))) \<or> (m s = (Inr (), s') \<and> p' = nxt)"
  by (auto simp: book_after_def split: prod.splits sum.splits)

text \<open>No failed write leaves part of what it was writing.\<close>

definition untorn :: "fs \<Rightarrow> bool" where
  "untorn s \<longleftrightarrow> (\<forall>t. torn s t = None)"

lemma untorn_environs: "environs s' = environs s \<Longrightarrow> untorn s' = untorn s"
  by (simp add: environs_def untorn_def)

lemma write_file_untorn:
  assumes "untorn s" and "write_file n text s = (Inl e, s')"
  shows "node_at m s' = node_at m s"
  using assms by (auto simp: write_file_def sys_call_def Let_def untorn_def split: option.splits if_splits)

lemma set_permissions_Inl: "set_permissions n m s = (Inl e, s') \<Longrightarrow> frame {} s s'"
  by (auto simp: set_permissions_def sys_call_def Let_def untouched_def split: option.splits)

text \<open>What is staged: nothing, or the document of a list some process composed.\<close>

definition staged_whole :: "observed_crates \<Rightarrow> AccountAddr list list \<Rightarrow> fs \<Rightarrow> bool" where
  "staged_whole B ls d \<longleftrightarrow>
     (\<forall>x. node_at (Utf8 OBSERVED_STAGED) d = Some x \<longrightarrow>
        (\<exists>f l. x = File f \<and> l \<in> set ls \<and> data f = Utf8Text (observed_document B l)))"

definition in_place :: "observed_crates \<Rightarrow> AccountAddr list list \<Rightarrow> fs \<Rightarrow> bool" where
  "in_place B ls d \<longleftrightarrow>
     (\<exists>f l. node_at (Utf8 OBSERVED_FILE) d = Some (File f) \<and> l \<in> set ls
        \<and> data f = Utf8Text (observed_document B l))"

lemma staged_whole_mono: "staged_whole B ls d \<Longrightarrow> set ls \<subseteq> set ks \<Longrightarrow> staged_whole B ks d"
  unfolding staged_whole_def by blast

lemma in_place_mono: "in_place B ls d \<Longrightarrow> set ls \<subseteq> set ks \<Longrightarrow> in_place B ks d"
  unfolding in_place_def by blast

definition has_written :: "book_point \<Rightarrow> bool" where
  "has_written p \<longleftrightarrow> p = ListWritten \<or> p = ListPrivate \<or> p = ListSynced"

fun list_of :: "book_point \<Rightarrow> AccountAddr list option" where
  "list_of (Composed l) = Some l"
| "list_of (BookDirMade l) = Some l"
| "list_of (BookDirPrivate l) = Some l"
| "list_of p = None"

lemma book_call_frame:
  assumes "book_call B c p d = Some (p', d')"
  shows "frame {Utf8 OBSERVED_STAGED, Utf8 OBSERVED_FILE} d d'"
    and "p \<noteq> ListSynced \<Longrightarrow> frame {Utf8 OBSERVED_STAGED} d d'"
proof -
  have k: "keeps (frame {Utf8 OBSERVED_STAGED}) create_dir_all"
    "keeps (frame {Utf8 OBSERVED_STAGED}) (set_dir_mode (octal 7 0 0))"
    "keeps (frame {Utf8 OBSERVED_STAGED}) (write_file OBSERVED_STAGED t)"
    "keeps (frame {Utf8 OBSERVED_STAGED}) (set_permissions OBSERVED_STAGED (octal 6 0 0))"
    "keeps (frame {Utf8 OBSERVED_STAGED}) (sync_file OBSERVED_STAGED)"
    "keeps (frame {Utf8 OBSERVED_STAGED}) sync_dir" for t
    by (intro keeps_intros; simp)+
  have r: "keeps (frame {Utf8 OBSERVED_STAGED, Utf8 OBSERVED_FILE}) (rename OBSERVED_STAGED OBSERVED_FILE)"
    by (intro keeps_intros; simp)
  show s: "frame {Utf8 OBSERVED_STAGED} d d'" if "p \<noteq> ListSynced"
    using assms that k(6)
    by (cases p) (auto simp: book_after_Some keeps_def split: sum.splits
        dest: keepsD [OF k(1)] keepsD [OF k(2)] keepsD [OF k(3)] keepsD [OF k(4)] keepsD [OF k(5)])
  show "frame {Utf8 OBSERVED_STAGED, Utf8 OBSERVED_FILE} d d'"
  proof (cases "p = ListSynced")
    case True
    with assms show ?thesis by (auto simp: book_after_Some dest: keepsD [OF r])
  next
    case False
    from frame_mono [OF s [OF False]] show ?thesis by simp
  qed
qed

lemma book_call_staged:
  assumes "untorn d" and "book_call B c p d = Some (p', d')"
    and "\<And>l. list_of p = Some l \<Longrightarrow> l \<in> set ls"
  shows "staged_whole B ls d \<Longrightarrow> staged_whole B ls d'"
    and "has_written p' \<Longrightarrow> has_written p \<or> staged_whole B ls d'"
proof -
  have k: "keeps (frame {}) create_dir_all" "keeps (frame {}) (set_dir_mode (octal 7 0 0))"
    "keeps (frame {}) (sync_file OBSERVED_STAGED)" "keeps (frame {}) sync_dir"
    by (intro keeps_intros; simp)+
  have same: "staged_whole B ls t = staged_whole B ls s" if "frame {} s t" for s t
    using frame_node [OF that] by (simp add: staged_whole_def)
  have wrote: "staged_whole B ls d'" if "write_file OBSERVED_STAGED (observed_document B l) d = (Inr (), d')" "l \<in> set ls" for l
    using write_file_Inr [OF that(1)] that(2) by (auto simp: staged_whole_def)
  show "staged_whole B ls d'" if w: "staged_whole B ls d"
  proof (cases p)
    case (BookDirPrivate l)
    then have "l \<in> set ls" using assms(3) by simp
    then show ?thesis
      using assms(2) w BookDirPrivate wrote write_file_untorn [OF assms(1)]
      by (auto simp: book_after_Some) (simp add: staged_whole_def)
  next
    case ListWritten
    have "set_permissions OBSERVED_STAGED (octal 6 0 0) d = (Inr (), d') \<or> frame {} d d'"
      using assms(2) ListWritten set_permissions_Inl by (auto simp: book_after_Some)
    then show ?thesis
    proof
      assume r: "set_permissions OBSERVED_STAGED (octal 6 0 0) d = (Inr (), d')"
      then obtain x where x: "node_at (Utf8 OBSERVED_STAGED) d = Some x"
        by (auto simp: set_permissions_def dest!: sys_call_Inr split: option.splits)
      then obtain f l where f: "x = File f" "l \<in> set ls" "data f = Utf8Text (observed_document B l)"
        using w by (auto simp: staged_whole_def)
      from set_permissions_Inr [OF r x [unfolded f(1)]] f show ?thesis by (auto simp: staged_whole_def)
    qed (use w same in blast)
  next
    case ListSynced
    with assms(2) consider e where "rename OBSERVED_STAGED OBSERVED_FILE d = (Inl e, d')"
      | "rename OBSERVED_STAGED OBSERVED_FILE d = (Inr (), d')" by (auto simp: book_after_Some)
    then show ?thesis
    proof cases
      case 1
      then show ?thesis using same [OF rename_Inl] w by blast
    next
      case 2
      then show ?thesis using rename_gone [OF 2] by (simp add: staged_whole_def)
    qed
  next
    case ListRenamed
    then show ?thesis using assms(2) w same k(4) by (auto simp: keeps_def)
  next
    case ListPrivate
    then show ?thesis using assms(2) w same by (auto simp: book_after_Some dest: keepsD [OF k(3)])
  next
    case (Composed l)
    then show ?thesis using assms(2) w same by (auto simp: book_after_Some dest: keepsD [OF k(1)])
  next
    case (BookDirMade l)
    then show ?thesis using assms(2) w same by (auto simp: book_after_Some dest: keepsD [OF k(2)])
  next
    case BookStart
    then show ?thesis using assms(2) w by (auto split: sum.splits)
  qed (use assms(2) in auto)
  show "has_written p' \<Longrightarrow> has_written p \<or> staged_whole B ls d'"
  proof -
    assume h: "has_written p'"
    have "has_written p \<or> (\<exists>l. p = BookDirPrivate l)"
      using assms(2) h
      by (cases p) (auto simp: book_after_Some has_written_def compose_def Let_def
          split: sum.splits book_command.splits if_splits)
    then show ?thesis
    proof
      assume "\<exists>l. p = BookDirPrivate l"
      then obtain l where l: "p = BookDirPrivate l" by blast
      then have "write_file OBSERVED_STAGED (observed_document B l) d = (Inr (), d')"
        using assms(2) h by (auto simp: book_after_Some has_written_def)
      then show ?thesis using wrote assms(3) l by simp
    qed simp
  qed
qed

text \<open>Only a rename of what is staged changes the list in place.\<close>

lemma book_call_places:
  assumes "book_call B c p d = Some (p', d')" and "has_written p \<Longrightarrow> staged_whole B ls d"
  shows "(node_at (Utf8 OBSERVED_FILE) d' = node_at (Utf8 OBSERVED_FILE) d) \<or> in_place B ls d'"
proof (cases "p = ListSynced")
  case True
  then have w: "staged_whole B ls d" using assms(2) by (simp add: has_written_def)
  from True assms(1) consider e where "rename OBSERVED_STAGED OBSERVED_FILE d = (Inl e, d')"
    | "rename OBSERVED_STAGED OBSERVED_FILE d = (Inr (), d')" by (auto simp: book_after_Some)
  then show ?thesis
  proof cases
    case 1
    then show ?thesis using frame_node [OF rename_Inl] by simp
  next
    case 2
    from rename_Inr [OF 2] w show ?thesis by (auto simp: staged_whole_def in_place_def)
  qed
next
  case False
  from frame_node [OF book_call_frame(2) [OF assms(1) False], of "Utf8 OBSERVED_FILE"] show ?thesis by simp
qed

section \<open>The contract\<close>

text \<open>
  The list a reader sees is the one there was or one some process composed, and every list
  composed is made of addresses there were and addresses somebody observed.
\<close>

definition from_observed :: "observed_crates \<Rightarrow> (nat \<Rightarrow> book_command) \<Rightarrow> AccountAddr list \<Rightarrow> AccountAddr list \<Rightarrow> bool" where
  "from_observed B cmds xs l \<longleftrightarrow>
     list_all (valid_addr (okeys B)) l \<and> (\<forall>a \<in> set l. a \<in> set xs \<or> (\<exists>i. cmds i = Observe a))"

definition book_ok :: "observed_crates \<Rightarrow> (nat \<Rightarrow> book_command) \<Rightarrow> AccountAddr list \<Rightarrow> book_race \<Rightarrow> bool" where
  "book_ok B cmds xs s \<longleftrightarrow>
     addr_laws (okeys B) \<and> doc_law B \<and> (\<forall>i. book_legal (valid_addr (okeys B)) (cmds i))
     \<and> readable (bdisk s) \<and> untorn (bdisk s) \<and> list_all (valid_addr (okeys B)) xs
     \<and> (\<forall>l \<in> set (composed s). from_observed B cmds xs l)
     \<and> (observed_list B (bdisk s) = Inr xs \<or> in_place B (composed s) (bdisk s))"

definition book_point_ok :: "observed_crates \<Rightarrow> nat \<Rightarrow> book_point \<Rightarrow> book_race \<Rightarrow> bool" where
  "book_point_ok B i p s \<longleftrightarrow>
     (\<forall>l. list_of p = Some l \<longrightarrow> l \<in> set (composed s))
     \<and> (has_written p \<longrightarrow> staged_whole B (composed s) (bdisk s))"

lemma book_ok_list:
  assumes "book_ok B cmds xs s"
  shows "\<exists>l. observed_list B (bdisk s) = Inr l \<and> from_observed B cmds xs l
    \<and> (l = xs \<or> (\<exists>k \<in> set (composed s). l = sorted_list_of_set (set k)))"
proof (cases "observed_list B (bdisk s) = Inr xs")
  case True
  then show ?thesis using assms by (auto simp: book_ok_def from_observed_def)
next
  case False
  then obtain f k where f: "node_at (Utf8 OBSERVED_FILE) (bdisk s) = Some (File f)" "k \<in> set (composed s)"
    "data f = Utf8Text (observed_document B k)" using assms by (auto simp: book_ok_def in_place_def)
  have k: "from_observed B cmds xs k" using assms f(2) by (simp add: book_ok_def)
  have "observed_list B (bdisk s) = Inr (sorted_list_of_set (set k))"
    using assms k f by (intro observed_list_written) (auto simp: book_ok_def from_observed_def observed_document_def)
  with k f(2) show ?thesis by (auto simp: from_observed_def list_all_iff)
qed

lemma compose_from_observed:
  assumes "from_observed B cmds xs l" and "book_legal (valid_addr (okeys B)) (cmds i)"
    and "compose (cmds i) l = p" and "k \<in> set (composes p)"
  shows "from_observed B cmds xs k"
  using assms
  by (cases "cmds i") (auto simp: compose_def composes_def from_observed_def list_all_iff Let_def split: if_splits)

lemma book_call_composes:
  assumes "book_call B c p d = Some (p', d')" and "k \<in> set (composes p')"
  shows "p = BookStart \<and> (\<exists>l. observed_list B d = Inr l \<and> compose c l = p')"
  using assms by (cases p) (auto simp: book_after_Some composes_def split: sum.splits)

lemma list_of_next:
  assumes "book_call B c p d = Some (p', d')" and "list_of p' = Some l"
  shows "list_of p = Some l \<or> l \<in> set (composes p')"
  using assms
  by (cases p) (auto simp: book_after_Some composes_def compose_def Let_def
      split: sum.splits book_command.splits if_splits)

lemma observed_list_same:
  assumes "environs d' = environs d" and "node_at (Utf8 OBSERVED_FILE) d' = node_at (Utf8 OBSERVED_FILE) d"
  shows "observed_list B d' = observed_list B d"
proof -
  have "read_to_string OBSERVED_FILE d' = read_to_string OBSERVED_FILE d"
    unfolding read_to_string_def environs_eqD(3) [OF assms(1)] assms(2) ..
  then show ?thesis by (simp add: observed_list_def)
qed

lemma book_sequential:
  assumes "book_ok B cmds xs s" and "book_point_ok B i p s" and "observed_race B cmds i p s p' s'"
  shows "book_ok B cmds xs s' \<and> book_point_ok B i p' s'"
  using assms(3)
proof cases
  case (calls d)
  let ?ks = "composed s @ composes p'"
  note st = calls(2)
  have s': "bdisk s' = d" "composed s' = ?ks" using calls(1) by simp_all
  have e: "environs d = environs (bdisk s)" by (rule frame_environs [OF book_call_frame(1) [OF st]])
  have new: "from_observed B cmds xs k" if "k \<in> set (composes p')" for k
    using book_call_composes [OF st that] book_ok_list [OF assms(1)] compose_from_observed [OF _ _ _ that] assms(1)
    by (fastforce simp: book_ok_def)
  have l: "\<And>l. list_of p = Some l \<Longrightarrow> l \<in> set (composed s)"
    and w: "has_written p \<Longrightarrow> staged_whole B (composed s) (bdisk s)"
    using assms(2) by (simp_all add: book_point_ok_def)
  have u: "untorn (bdisk s)" using assms(1) by (simp add: book_ok_def)
  note staged = book_call_staged [OF u st, of "composed s", OF l]
  have list: "observed_list B d = Inr xs \<or> in_place B ?ks d"
    using book_call_places [OF st w] assms(1) observed_list_same [OF e] in_place_mono [of B "composed s"]
    by (auto simp: book_ok_def in_place_def)
  have "book_ok B cmds xs s'"
    using assms(1) new list readable_environs [OF e] untorn_environs [OF e]
    by (auto simp: book_ok_def s')
  moreover have "book_point_ok B i p' s'"
    using staged w l list_of_next [OF st] staged_whole_mono [of B "composed s" d ?ks]
    by (auto simp: book_point_ok_def s')
  ultimately show ?thesis by simp
next
  case dies
  then show ?thesis using assms(1) by (simp add: book_point_ok_def has_written_def)
qed

lemma book_stable:
  assumes "book_ok B cmds xs s" and "book_point_ok B i p s" and "observed_race B cmds i p s p' s'"
    and "book_point_ok B j q s"
  shows "book_point_ok B j q s'"
  using assms(3)
proof cases
  case (calls d)
  have u: "untorn (bdisk s)" using assms(1) by (simp add: book_ok_def)
  have l: "\<And>l. list_of p = Some l \<Longrightarrow> l \<in> set (composed s)" using assms(2) by (simp add: book_point_ok_def)
  note staged = book_call_staged(1) [OF u calls(2), of "composed s", OF l]
  have "set (composed s) \<subseteq> set (composed s')" using calls(1) by simp
  with staged_whole_mono [of B "composed s" d "composed s'"] staged assms(4) calls(1) show ?thesis
    by (auto simp: book_point_ok_def)
next
  case dies
  then show ?thesis using assms(4) by simp
qed

interpretation book_processes: non_interference
  "observed_race B cmds" "book_ok B cmds xs" "book_point_ok B"
  for B cmds xs
  using book_sequential book_stable by unfold_locales blast+

section \<open>One process left alone\<close>

fun book_alone :: "observed_crates \<Rightarrow> book_command \<Rightarrow> nat \<Rightarrow> book_point \<Rightarrow> fs \<Rightarrow> book_point \<times> fs" where
  "book_alone B c 0 p d = (p, d)"
| "book_alone B c (Suc n) p d =
     (case book_call B c p d of None \<Rightarrow> (p, d) | Some (p', d') \<Rightarrow> book_alone B c n p' d')"

definition book_outcome :: "(ObservedError + bool) \<times> fs \<Rightarrow> book_point \<times> fs" where
  "book_outcome x = (BookEnded (fst x), snd x)"

lemma book_alone_ended [simp]: "book_alone B c n (BookEnded r) d = (BookEnded r, d)"
  by (cases n) simp_all

lemma book_alone_then:
  assumes "N = Suc n" and "book_call B c p d = book_after m nxt d"
    and "\<And>d'. book_alone B c n nxt d' = book_outcome (k d')"
  shows "book_alone B c N p d = book_outcome (and_then (map_err_op ListIo m) (\<lambda>_. k) d)"
  using assms by (auto simp: book_after_def and_then_def map_err_op_def book_outcome_def split: prod.split sum.split)

lemma book_alone_writes:
  "book_alone B c 7 (Composed l) d = book_outcome (and_then (observed_write B l) (\<lambda>_. ok True) d)"
proof -
  have 1: "book_alone B c 1 ListRenamed d =
      book_outcome (and_then (map_err_op ListIo (ignoring sync_dir)) (\<lambda>_. ok True) d)" for d
    by (simp add: book_outcome_def and_then_def map_err_op_def ignoring_def ok_def)
  note 2 = book_alone_then [where nxt = ListRenamed and n = 1 and N = 2, OF _ _ 1]
  note 3 = book_alone_then [where nxt = ListSynced and n = 2 and N = 3, OF _ _ 2]
  note 4 = book_alone_then [where nxt = ListPrivate and n = 3 and N = 4, OF _ _ 3]
  note 5 = book_alone_then [where nxt = ListWritten and n = 4 and N = 5, OF _ _ 4]
  note 6 = book_alone_then [where nxt = "BookDirPrivate l" and n = 5 and N = 6, OF _ _ 5]
  note 7 = book_alone_then [where nxt = "BookDirMade l" and n = 6 and N = 7, OF _ _ 6]
  show ?thesis
    unfolding observed_write_def Let_def map_err_op_and_then and_then_assoc observed_document_def [symmetric]
    by (rule 7) simp_all
qed

text \<open>Nobody else moving, the steps are the add of the code, and the remove.\<close>

lemma book_alone_start:
  "book_alone B (Observe a) 8 BookStart d = book_outcome (observed_add B a d)"
  "book_alone B (Unobserve a) 8 BookStart d = book_outcome (observed_remove B a d)"
proof -
  have s: "book_alone B c 8 BookStart d =
      (case observed_list B d of Inl e \<Rightarrow> (BookEnded (Inl e), d) | Inr obs \<Rightarrow> book_alone B c 7 (compose c obs) d)" for c
    using book_alone.simps(2) [of B c 7 BookStart d] by (simp split: sum.split)
  show "book_alone B (Observe a) 8 BookStart d = book_outcome (observed_add B a d)"
    unfolding s compose_def observed_add_def and_then_def [of "of_read (observed_list B)"]
    by (auto simp: of_read_def book_outcome_def ok_def book_alone_writes split: sum.split)
  show "book_alone B (Unobserve a) 8 BookStart d = book_outcome (observed_remove B a d)"
    unfolding s compose_def observed_remove_def and_then_def [of "of_read (observed_list B)"]
    by (auto simp: of_read_def book_outcome_def ok_def book_alone_writes Let_def split: sum.split)
qed

end
