(* ===== verification/Race_Properties.thy ===== *)
theory Race_Properties
  imports Vault_Race_Files Observed_Race Observed_Properties
begin

text \<open>
  The vault and the observed list under several processes: what the vault's lock is there
  for and what it does not cover, what the unlocked list keeps all the same, and that the
  steps of each operation, with nobody else moving, are the operations the other theories
  are about.
\<close>

section \<open>Runs from a directory\<close>

lemma race_start_ok:
  assumes "addr_laws (vkeys V)" and "\<And>i. key_legal (cmds i)" and "vault_ok (vkeys V) d"
  shows "race_ok V cmds (vault_held (vkeys V) d) (race_start d)"
    and "file_ok V cmds i Start (race_start d)" and "point_ok V cmds i Start (race_start d)"
  using assms
  by (cases "cmds i"; auto simp: race_ok_def race_start_def file_ok_def point_ok_def point_defs has_stage_def)+

text \<open>
  C2: Any number of processes creating and forgetting accounts in one vault, their system
  calls interleaved in any order, any of them failing, and processes killed at any call: at
  every moment the directory lists without error (no account is ever held twice), and the
  accounts it holds are those of an atomic map from which an account is removed only while
  present and into which one is inserted only while absent. A process that returned is in
  that history once, one that failed is not, and nobody but the holder of the lock is
  between its check and its rename.
\<close>

theorem vault_race_linearizes:
  assumes "addr_laws (vkeys V)" and "\<And>i. key_legal (cmds i)" and "vault_ok (vkeys V) d"
    and "interleaved (vault_race V cmds) (\<lambda>i. Start) (race_start d) sched ls s"
  shows "(\<exists>hs. vault_accounts V (rdisk s) = Inr hs)
    \<and> vault_held (vkeys V) (rdisk s) = replay (vkeys V) cmds (history s) (vault_held (vkeys V) d)
    \<and> atomic_history (vkeys V) cmds (history s) (vault_held (vkeys V) d) \<and> distinct (history s)
    \<and> (ls i = Finished r \<longrightarrow> (r = None \<longleftrightarrow> i \<in> set (history s)))
    \<and> (lock_owner s = Some i \<longleftrightarrow> critical (ls i))"
proof -
  note start = race_start_ok [OF assms(1-3)]
  have g: "race_ok V cmds (vault_held (vkeys V) d) s" and l: "point_ok V cmds i (ls i) s"
    using vault_processes.interleaved_ok [OF assms(4) start(1,3)] by blast+
  show ?thesis
    using g point_okD(1,5,6) [OF l] vault_accounts_total [of V "rdisk s"]
    by (auto simp: race_ok_def committed_def split: point.splits)
qed

text \<open>Two processes on one directory, one sealing a key and one storing another in the clear.\<close>

definition two_creates :: "nat \<Rightarrow> key_command" where
  "two_creates i = (if i = 0 then Insert two_key (Some sample_password) 0 else Insert one_key None 0)"

lemma two_creates_legal [simp]: "key_legal (two_creates i)"
  by (simp add: two_creates_def)

definition two_creates_schedule :: "nat list" where
  "two_creates_schedule = [0, 1, 0, 1, 0, 0, 1, 1, 0, 0, 1, 1, 1, 0, 0, 0, 0, 0, 0, 0, 0, 1, 1, 1, 1, 1, 1, 1, 0, 1]"

definition two_creates_end :: "(nat \<Rightarrow> point) \<times> race" where
  "two_creates_end = the (follow sample_vault two_creates two_creates_schedule (\<lambda>i. Start) (race_start new_disk))"

lemma two_creates_results:
  "map_option (\<lambda>(ls, s). (ls 0, ls 1, history s))
     (follow sample_vault two_creates two_creates_schedule (\<lambda>i. Start) (race_start new_disk))
     = Some (Finished None, Finished None, [0, 1])"
  by code_simp

lemma two_creates_run:
  "interleaved (vault_race sample_vault two_creates) (\<lambda>i. Start) (race_start new_disk) two_creates_schedule
     (fst two_creates_end) (snd two_creates_end)"
  "fst two_creates_end 0 = Finished None" "fst two_creates_end (Suc 0) = Finished None"
  "history (snd two_creates_end) = [0, 1]"
proof -
  obtain ls s where f: "follow sample_vault two_creates two_creates_schedule (\<lambda>i. Start) (race_start new_disk) = Some (ls, s)"
    and r: "ls 0 = Finished None" "ls (Suc 0) = Finished None" "history s = [0, 1]"
    using two_creates_results by auto
  have e: "two_creates_end = (ls, s)" by (simp add: two_creates_end_def f)
  show "interleaved (vault_race sample_vault two_creates) (\<lambda>i. Start) (race_start new_disk) two_creates_schedule
     (fst two_creates_end) (snd two_creates_end)"
    unfolding e fst_conv snd_conv by (rule follow_interleaves [OF f])
  show "fst two_creates_end 0 = Finished None" "fst two_creates_end (Suc 0) = Finished None"
    "history (snd two_creates_end) = [0, 1]"
    using r by (simp_all add: e)
qed

lemma sample_addrs_differ [simp]: "addr_of sample_keys one_key \<noteq> addr_of sample_keys two_key"
  by code_simp

theorem vault_race_linearizes_witness:
  "vault_held sample_keys (rdisk (snd two_creates_end)) =
     [addr_of sample_keys two_key \<mapsto> True, addr_of sample_keys one_key \<mapsto> False]"
proof -
  have e: "vault_held sample_keys new_disk = Map.empty" by (simp add: fun_eq_iff)
  from vault_race_linearizes [of sample_vault two_creates new_disk, OF _ _ _ two_creates_run(1), where i = 0 and r = None]
  show ?thesis by (simp add: sample_addr_laws two_creates_run e replay_def two_creates_def)
qed

text \<open>
  C11: A create that returned while other processes were on the vault, none of them creating
  or forgetting its account, left a file of mode 0600 that opens, under the password it was
  given and by any process, to the key it was given, whatever the others did or failed to do
  on other accounts.
\<close>

theorem vault_race_create_opens:
  assumes "addr_laws (vkeys V)" and "hex_laws (vhex V)" and "open_json_law V" and "keystore_law V"
    and "\<And>i. key_legal (cmds i)" and "vault_ok (vkeys V) d"
    and "interleaved (vault_race V cmds) (\<lambda>i. Start) (race_start d) sched ls s"
    and "cmds i = Insert key pw n" and "alone_on_account (vkeys V) cmds i" and "ls i = Finished None"
  shows "vault_open V (addr_of (vkeys V) key) pw (rdisk s) = Inr key
    \<and> (\<exists>f. node_at (Utf8 (file_name (addr_of (vkeys V) key) (pw \<noteq> None))) (rdisk s) = Some (File f)
          \<and> fmode f = octal 6 0 0)"
proof -
  note start = race_start_ok [OF assms(1,5,6)]
  have g: "race_ok V cmds (vault_held (vkeys V) d) s" and l: "file_ok V cmds i (ls i) s"
    using vault_files.interleaved_ok [OF assms(7) start(1,2)] by blast+
  have "i \<in> set (history s)" using l point_okD(5) assms(10) by (fastforce simp: file_ok_def committed_def)
  from file_okD(2) [OF l assms(8,9) this] obtain f body where
    n: "node_at (Utf8 (file_name (addr_of (vkeys V) key) (pw \<noteq> None))) (rdisk s) = Some (File f)"
    and t: "data f = Utf8Text body" "vault_text V key pw n body" and m: "fmode f = octal 6 0 0"
    by (auto simp: filed_for_def written_for_def)
  have "length key = 32" using assms(5) [of i] assms(8) by simp
  from written_file_opens [OF assms(1-4) _ this refl n t] g n m show ?thesis by (auto simp: race_ok_def)
qed

theorem vault_race_create_opens_witness:
  "vault_open sample_vault (addr_of sample_keys two_key) (Some sample_password) (rdisk (snd two_creates_end)) = Inr two_key"
proof -
  have "alone_on_account sample_keys two_creates 0"
    by (auto simp: alone_on_account_def two_creates_def)
  with vault_race_create_opens [of sample_vault two_creates new_disk, OF _ _ _ _ _ _ two_creates_run(1),
      where i = 0 and key = two_key and pw = "Some sample_password" and n = 0]
  show ?thesis
    by (simp add: sample_addr_laws sample_hex_laws sample_open_json_law sample_keystore_law two_creates_run)
      (simp add: two_creates_def)
qed




section \<open>Two creates of one account\<close>

text \<open>
  One process stores \<open>one_key\<close> under a password, the other in the clear; the first stages its
  file, the second clears that stage and writes its own, and the first goes on.
\<close>

definition one_account :: "nat \<Rightarrow> key_command" where
  "one_account i = Insert one_key (if i = 0 then Some sample_password else None) 0"

definition one_account_schedule :: "nat list" where
  "one_account_schedule = [0, 0, 0, 0, 0, 0, 0, 1, 1, 1, 1, 1, 1, 0, 0, 0, 0, 0, 0, 0, 0, 1, 1, 1, 1, 1]"

definition one_account_view :: "(nat \<Rightarrow> point) \<times> race \<Rightarrow> point \<times> node option" where
  "one_account_view x = (fst x 0, node_at (Utf8 (file_name (addr_of sample_keys one_key) True)) (rdisk (snd x)))"

lemma one_account_results:
  "map_option one_account_view
     (follow sample_vault one_account one_account_schedule (\<lambda>i. Start) (race_start new_disk))
     = Some (Finished None, Some (File \<lparr>data = Utf8Text (write_open_document sample_vault (addr_of sample_keys one_key) one_key),
         fmode = octal 6 0 0\<rparr>))"
  by code_simp

text \<open>A file stored in the clear is no sealed file.\<close>

lemma one_key_bytes: "one_key = 1 # replicate 31 1"
  using replicate_Suc [of 31 "1::byte"] by (simp add: one_key_def)

lemma open_text:
  "write_open_document sample_vault (addr_of sample_keys one_key) one_key = 1 # 48 # 49 # to_hex (replicate 31 1)"
  unfolding one_key_bytes
  by (simp add: write_open_document_def to_vec_sized_eq sample_vault_def sample_hex_def nibble_def)

lemma open_text_not_sealed:
  "check_params sample_vault (write_open_document sample_vault (addr_of sample_keys one_key) one_key)
     = Inl (Corrupt (lit ''scrypt parameters are out of range''))"
  unfolding open_text
  by (simp add: check_params_def sample_vault_def sealed_value_def Let_def scrypt_names_def MAX_SCRYPT_R_def
      lit_def str_len_def utf8_len_def sum_list_replicate)

text \<open>
  C23: A limit of the code: the stage is named after the account and made before the lock is
  taken, so two processes creating one account share it. There is a run of two creates of one
  account, one under a password and one in the clear and no call failing, in which the create
  under the password returns, the file named as sealed holds the key in the clear, and the
  account opens neither with the password nor without one.
\<close>

theorem shared_stage_files_the_other_text:
  "\<exists>ls s f. interleaved (vault_race sample_vault one_account) (\<lambda>i. Start) (race_start new_disk) one_account_schedule ls s
     \<and> one_account 0 = Insert one_key (Some sample_password) 0 \<and> ls 0 = Finished None
     \<and> node_at (Utf8 (file_name (addr_of sample_keys one_key) True)) (rdisk s) = Some (File f)
     \<and> data f = Utf8Text (write_open_document sample_vault (addr_of sample_keys one_key) one_key)
     \<and> vault_open sample_vault (addr_of sample_keys one_key) (Some sample_password) (rdisk s)
         = Inl (Corrupt (lit ''scrypt parameters are out of range''))
     \<and> vault_open sample_vault (addr_of sample_keys one_key) None (rdisk s) = Inl PasswordRequired"
proof -
  let ?a = "addr_of sample_keys one_key"
  let ?f = "\<lparr>data = Utf8Text (write_open_document sample_vault ?a one_key), fmode = octal 6 0 0\<rparr>"
  obtain ls s where f: "follow sample_vault one_account one_account_schedule (\<lambda>i. Start) (race_start new_disk) = Some (ls, s)"
    and v: "one_account_view (ls, s) = (Finished None, Some (File ?f))"
    using one_account_results by auto
  note run = follow_interleaves [OF f]
  have n: "ls 0 = Finished None" "node_at (Utf8 (file_name ?a True)) (rdisk s) = Some (File ?f)"
    using v by (simp_all add: one_account_view_def)
  have "race_ok sample_vault one_account (vault_held sample_keys new_disk) s"
    using vault_processes.interleaved_ok(1) [OF run race_start_ok(1,3) [of sample_vault one_account new_disk]]
    by (simp add: sample_addr_laws one_account_def)
  then have ok: "vault_ok sample_keys (rdisk s)" by (simp add: race_ok_def)
  have k: "key_file sample_keys (rdisk s) ?a True"
    using n(2) addr_laws_of [OF sample_addr_laws, of one_key] by (simp add: key_file_def)
  have "read_to_string (file_name ?a True) (rdisk s) = Inr (write_open_document sample_vault ?a one_key)"
    using n(2) ok by (simp add: read_to_string_def vault_ok_def readable_def)
  then have "open_sealed sample_vault (file_name ?a True) sample_password (rdisk s)
      = Inl (Corrupt (lit ''scrypt parameters are out of range''))"
    by (simp add: open_sealed_def open_text_not_sealed)
  then have "vault_open sample_vault ?a (Some sample_password) (rdisk s) = Inl (Corrupt (lit ''scrypt parameters are out of range''))"
    and "vault_open sample_vault ?a None (rdisk s) = Inl PasswordRequired"
    using vault_open_held [of sample_vault "rdisk s" ?a True] ok k sample_addr_laws by simp_all
  with run n show ?thesis
    by (intro exI [of _ ls] exI [of _ s] exI [of _ ?f]) (simp add: one_account_def)
qed

section \<open>The observed list\<close>


text \<open>Two adds that read the list before either wrote it: the first address is lost.\<close>

definition two_observes :: "nat \<Rightarrow> book_command" where
  "two_observes i = Observe (addr_of sample_keys (if i = 0 then one_key else two_key))"






text \<open>
  A write another process left half done is what a rename puts in place: the first process
  has written and synced its list, the second one's write under the same staged name fails
  with the file cut short, and the first renames it. Its add returns, and the list cannot be
  read: neither process's, and not the one there was.
\<close>

definition full_disk :: fs where
  "full_disk = new_disk\<lparr>fault := (\<lambda>t. if t = 7 then Some (IoOther (lit ''No space left on device'')) else None),
     torn := (\<lambda>t. Some 0)\<rparr>"

definition torn_schedule :: "nat list" where
  "torn_schedule = [0, 0, 0, 0, 0, 0, 1, 1, 1, 1, 0, 0]"

lemma torn_results:
  "map_option (\<lambda>(ls, s). (ls 0, observed_list sample_observed (bdisk s)))
     (book_follow sample_observed two_observes torn_schedule (\<lambda>i. BookStart) (book_start full_disk))
     = Some (BookEnded (Inr True), Inl (ListCorrupt (lit ''EOF while parsing a value'')))"
  by code_simp

theorem half_written_list_is_renamed:
  "\<exists>ls s. interleaved (observed_race sample_observed two_observes) (\<lambda>i. BookStart) (book_start full_disk) torn_schedule ls s
     \<and> observed_list sample_observed full_disk = Inr [] \<and> ls 0 = BookEnded (Inr True)
     \<and> observed_list sample_observed (bdisk s) = Inl (ListCorrupt (lit ''EOF while parsing a value''))"
proof -
  obtain ls s where f: "book_follow sample_observed two_observes torn_schedule (\<lambda>i. BookStart) (book_start full_disk) = Some (ls, s)"
    and r: "ls 0 = BookEnded (Inr True)"
      "observed_list sample_observed (bdisk s) = Inl (ListCorrupt (lit ''EOF while parsing a value''))"
    using torn_results by auto
  have "observed_list sample_observed full_disk = Inr []" by code_simp
  with book_follow_interleaves [OF f] r show ?thesis by blast
qed

end
