(* ===== verification/Publish_Effects.thy ===== *)
theory Publish_Effects
  imports Log_Content View_Properties
begin

text \<open>
  What a publish that reports new entries made of the log, and what the screen shows of it:
  the entries of the edits it wrote, behind the log that was read, and their effect.
\<close>

section \<open>What was written\<close>

lemma publish_planned:
  assumes "publish X a c = (Inr p, c')" and "first_new_index p = Some i"
    and "resolve_law (acct X)" and "update_law (vkeys (vlt X)) (acct X) build" and "keys_ok X c"
  obtains key c1 base log rec where "manages X a c = Inr True" and "read_store X a c = (Inr (), c1)"
    and "fits X a (staged_for a c1) c1 = Inr ()" and "extendable X a c1 = Inr base" and "i = first_new_of X base"
    and "build key (map_option rec_signed (record_of X a c1)) (planned_entries X a c1) = Inr log"
    and "record_of X a c' = Some rec" and "rec_signed rec = log"
  using publish_ends [OF assms(1)]
proof cases
  case (attempted key c1 es)
  have k: "addr_of (vkeys (vlt X)) key = a" by (rule signing_key_addr [OF assms(5) attempted(2)])
  have an: "answered a c1" by (rule read_store_answered [OF attempted(3)])
  from attempted(5) show ?thesis
  proof cases
    case (published base log c2 c3)
    note w = write_update_Inr [OF assms(4) k published(5)]
    note b = resolve_core_read_back [OF assms(3) _ published(6)]
    have "read_of c2 = read_of c1" by (subst w(3)) simp
    then have "read_of c3 = read_of c1" using resolve_core_sel(3) [OF published(6)] by simp
    then have "answered a c3" using an answered_fields by blast
    then obtain rec where rec: "record_of X a c3 = Some rec" "rec_signed rec = log"
      using b(1) record_of_answered [of a c3 X] by auto
    moreover have "record_of X a c' = record_of X a c3"
      unfolding published(2) by (rule record_of_fields) simp_all
    moreover have "i = first_new_of X base" using published(1) assms(2) by simp
    ultimately show ?thesis
      using that [OF attempted(1,3) _ published(4) _ w(1)] published(3) attempted(4) by (simp add: staged_for_def)
  qed
qed (use assms(2) in simp_all)

text \<open>The log an update is planned on: what the last read holds, or nothing.\<close>

definition base_of :: "('l, 'd, 'r, 'n) app \<Rightarrow> ('l \<Rightarrow> AccountEntry list) \<Rightarrow> AccountAddr \<Rightarrow> ('r, 'n) core \<Rightarrow> AccountEntry list" where
  "base_of X contents a c = (case record_of X a c of None \<Rightarrow> [] | Some rec \<Rightarrow> contents (rec_log rec))"

definition revisions :: "StagedEdit list \<Rightarrow> AccountEntry list" where
  "revisions es = List.map_filter revocation_of es"

definition additions :: "('l, 'd) log_format \<Rightarrow> StagedEdit list \<Rightarrow> AccountEntry list" where
  "additions F es = List.map_filter (addition_of F) es"

lemma plan_eq: "plan F es = revisions es @ additions F es"
  by (simp add: plan_def revisions_def additions_def)

lemma additions_add: "e \<in> set (additions F es) \<Longrightarrow> \<exists>ctx d. e = Add ctx d"
proof (induction es)
  case (Cons s es)
  then show ?case by (cases s) (auto simp: additions_def addition_of_def List.map_filter_simps)
qed (simp add: additions_def List.map_filter_simps)

lemma record_carries:
  "records_carry X contents says c \<Longrightarrow> record_of X a c = Some rec \<Longrightarrow> carries contents says rec"
  by (auto simp: records_carry_def all_carry_def record_of_def split: option.splits if_splits)

lemma fits_plan:
  assumes "log_laws (fmt X) contents drafted" and "records_carry X contents says c"
    and "fits X a es c = Inr ()" and "extendable X a c = Inr base"
  shows "length (base_of X contents a c @ plan (fmt X) es) < 2 ^ 32"
    and "unat (first_new_of X base) = length (base_of X contents a c)"
    and "Remove i \<in> set (base_of X contents a c @ plan (fmt X) es) \<Longrightarrow>
      unat i < length (base_of X contents a c @ revisions es)"
proof -
  let ?F = "fmt X" and ?old = "base_of X contents a c" and ?p = "plan (fmt X) es"
  let ?d = "case base of None \<Rightarrow> draft_new ?F | Some d \<Rightarrow> d"
  obtain d' b where p: "push_all ?F ?d ?p = Inr d'" and e: "encode ?F (draft_log ?F d') = Inr b"
    using assms(3,4) by (auto simp: fits_def bind_res_Inr map_err_Inr)
  have d: "drafted ?d = ?old"
    using assms(4) log_lawsD(2,3) [OF assms(1)] unfolding extendable_Inr base_of_def by (cases "record_of X a c") auto
  note q = push_all_appends [OF assms(1) p, unfolded d]
  show l: "length (?old @ ?p) < 2 ^ 32" using log_lawsD(9) [OF assms(1) e] log_lawsD(6) [OF assms(1)] q by simp
  have "first_new_of X base = of_nat (length ?old)"
    using d log_lawsD(2,8) [OF assms(1)] by (cases base) (auto simp: first_new_of_def)
  then show "unat (first_new_of X base) = length ?old" using l by (simp add: unat_of_nat take_bit_eq_mod)
  have s: "sound_log ?old"
  proof (cases "record_of X a c")
    case None
    then show ?thesis by (simp add: base_of_def sound_log_def)
  next
    case (Some rec)
    have "sound_log (contents (rec_log rec))" using record_carries [OF assms(2) Some] unfolding carries_def by blast
    then show ?thesis using Some by (simp add: base_of_def)
  qed
  assume "Remove i \<in> set (?old @ ?p)"
  then consider (old) "Remove i \<in> set ?old" | (new) "Remove i \<in> set (revisions es)"
    by (auto simp: plan_eq dest: additions_add)
  then show "unat i < length (?old @ revisions es)"
  proof cases
    case old
    then show ?thesis using sound_revokes_earlier [OF s] by fastforce
  next
    case new
    then obtain j where j: "j < length (revisions es)" "revisions es ! j = Remove i" by (auto simp: in_set_conv_nth)
    then have "j < length ?p" and "?p ! j = Remove i" by (simp_all add: plan_eq nth_append)
    then have "appendable (?old @ take j ?p) (Remove i)" using q by metis
    from appendable_revokes_earlier [OF this] j(1) show ?thesis by (simp add: plan_eq)
  qed
qed

lemma live_after:
  assumes "log_laws (fmt X) contents drafted" and "records_carry X contents says c"
    and "fits X a es c = Inr ()"
  obtains before where "live_in (base_of X contents a c @ plan (fmt X) es) =
      before @ numbered_from (length (base_of X contents a c @ revisions es)) (additions (fmt X) es)"
proof -
  let ?xs = "base_of X contents a c @ revisions es" and ?ys = "additions (fmt X) es"
  obtain base where base: "extendable X a c = Inr base" using fits_extendable [OF assms(3)] by blast
  have e: "?xs @ ?ys = base_of X contents a c @ plan (fmt X) es" by (simp add: plan_eq)
  have "list_all (\<lambda>e. \<not> is_revocation e) ?ys"
    by (auto simp: list_all_iff is_revocation_def dest: additions_add)
  from live_in_appended [of ?xs ?ys, OF _ _ this] fits_plan [OF assms base] that
  show ?thesis unfolding e by blast
qed

section \<open>Its effect\<close>

lemma names_added:
  "map name_value (List.map_filter name_of_entry
      (filter (\<lambda>x. context_of (e_entry x) = Some DISPLAY_NAME_CONTEXT) (numbered_from k (additions F es))))
   = List.map_filter (\<lambda>s. case s of SetDisplayName n \<Rightarrow> Some n | _ \<Rightarrow> None) es"
proof (induction es arbitrary: k)
  case Nil
  then show ?case by (simp add: additions_def List.map_filter_simps)
next
  case (Cons s es)
  then show ?case
    by (cases s) (simp_all add: additions_def addition_of_def List.map_filter_simps name_of_entry_def context_of_def)
qed

lemma one_name_edit:
  assumes "edits_ok es" and "SetDisplayName n \<in> set es"
  shows "List.map_filter (\<lambda>s. case s of SetDisplayName n \<Rightarrow> Some n | _ \<Rightarrow> None) es = [n]"
proof -
  have "List.map_filter (\<lambda>s. case s of SetDisplayName n \<Rightarrow> Some n | _ \<Rightarrow> None) xs
      = map (\<lambda>s. case s of SetDisplayName n \<Rightarrow> n | _ \<Rightarrow> []) (filter is_name_edit xs)" for xs
    by (induction xs) (auto simp: List.map_filter_simps is_name_edit_def split: StagedEdit.split)
  moreover have "SetDisplayName n \<in> set (filter is_name_edit es)" using assms(2) by (simp add: is_name_edit_def)
  moreover have "length (filter is_name_edit es) \<le> 1" using assms(1) by (simp add: edits_ok_def)
  ultimately show ?thesis by (cases "filter is_name_edit es") auto
qed


text \<open>The name the screen shows of an account whose key is held is the one in force in the log held.\<close>

lemma name_on_screen:
  assumes "manages X a c = Inr True"
  obtains st where "state X a c = Inr st" and "st_display_name st = live_name X a c"
proof -
  obtain h where st: "state X a c = Inr (state_of X a c (Some h))" using state_managed [OF assms] by blast
  have "st_display_name (state_of X a c (Some h)) = live_name X a c"
    by (cases "record_of X a c")
      (simp_all add: state_of_fields(3) log_shown_def live_name_def names_of_def in_force_def live_display_name_def Let_def)
  with st show ?thesis by (rule that)
qed

lemma name_after:
  assumes "log_laws F contents drafted" and "contents l = es"
    and "live_in es = before @ numbered_from k (additions F edits)"
    and "edits_ok edits" and "SetDisplayName n \<in> set edits"
  shows "live_display_name F l = Some n"
proof -
  let ?P = "\<lambda>x. context_of (e_entry x) = Some DISPLAY_NAME_CONTEXT"
  let ?old = "List.map_filter name_of_entry (filter ?P before)"
  let ?new = "List.map_filter name_of_entry (filter ?P (numbered_from k (additions F edits)))"
  have "live_display_names F l = ?old @ ?new"
    using log_lawsD(1) [OF assms(1)] assms(2,3)
    by (simp add: live_display_names_def List.map_filter_def)
  moreover have v: "map name_value ?new = [n]"
    unfolding names_added by (rule one_name_edit [OF assms(4,5)])
  then have "?new \<noteq> []" "name_value (last ?new) = n" by (auto simp: last_map [symmetric] simp del: last_map)
  ultimately show ?thesis by (simp add: live_display_name_def Let_def)
qed

lemma key_after:
  assumes "log_laws F contents drafted" and "contents l = es"
    and "live_in es = before @ numbered_from k (additions F edits)" and "AddInstallation key \<in> set edits"
  shows "hex_encode H key \<in> inst_key ` set (live_installations H F l)"
proof -
  have "Add (SIGNER_CONTEXT F) (Ed25519Key key) \<in> set (additions F edits)"
    using assms(4)
  proof (induction edits)
    case (Cons s edits)
    then show ?case by (cases s) (auto simp: additions_def addition_of_def List.map_filter_simps)
  qed simp
  from numbered_from_entry [OF this] obtain x where x: "x \<in> set (live_in es)"
    "e_entry x = Add (SIGNER_CONTEXT F) (Ed25519Key key)" unfolding assms(3) by (metis Un_iff set_append)
  then have "x \<in> set (entries_for F l (SIGNER_CONTEXT F))"
    using log_lawsD(1) [OF assms(1)] assms(2) by (simp add: context_of_def)
  then show ?thesis using x(2)
    by (force simp: live_installations_def List.map_filter_def key_of_entry_def)
qed

lemma row_revoked:
  assumes "log_laws (fmt X) contents drafted" and "contents l = es" and "Remove j \<in> set es"
    and "row \<in> set (fst (log_rows X (Some l)))" and "row_index row = j"
  shows "\<not> row_live row"
proof -
  have n: "e_index x \<noteq> j" if "x \<in> set (live_in es)" for x
    using that assms(3) by (auto simp: live_in_def not_revoked_def)
  show ?thesis
  proof (cases "from_log (fmt X) l")
    case (Inl e)
    then have "row \<in> set (rows_by_context X l)" using assms(4) by (simp add: log_rows_def)
    then obtain x where "x \<in> set (live_in es)" "row = row_from X (e_index x) (e_entry x) True"
      using log_lawsD(1) [OF assms(1)] assms(2) by (auto simp: rows_by_context_def)
    then show ?thesis using n [of x] assms(5) by simp
  next
    case (Inr d)
    have l: "live_entries (fmt X) d = live_in es"
      using log_lawsD(3,7) [OF assms(1)] Inr assms(2) by metis
    have "j \<notin> e_index ` set (live_entries (fmt X) d)" unfolding l using n by force
    then show ?thesis using assms(4,5) Inr by (auto simp: log_rows_def rows_from_draft_def Let_def)
  qed
qed

lemma mark_superseded_rows:
  "row \<in> set (mark_superseded ps n rows) \<Longrightarrow> \<exists>r \<in> set rows. row_index row = row_index r \<and> row_live row = row_live r"
  by (auto simp: mark_superseded_def split: option.splits if_splits)


section \<open>A publish takes effect\<close>

lemma publish_effects:
  assumes "log_laws (fmt X) contents drafted" and "content_laws (acct X) build contents says"
    and "resolve_law (acct X)" and "update_law (vkeys (vlt X)) (acct X) build"
    and "reachable X c" and "publish X a c = (Inr p, c')" and "first_new_index p = Some i"
  obtains c1 rec before st where "read_store X a c = (Inr (), c1)" and "record_of X a c' = Some rec"
    and "contents (rec_log rec) = base_of X contents a c1 @ plan (fmt X) (staged_for a c1)"
    and "unat i = length (base_of X contents a c1)" and "edits_ok (staged_for a c1)"
    and "live_in (contents (rec_log rec)) =
      before @ numbered_from (length (base_of X contents a c1 @ revisions (staged_for a c1))) (additions (fmt X) (staged_for a c1))"
    and "state X a c' = Inr st" and "st_display_name st = live_display_name (fmt X) (rec_log rec)"
    and "st_installations st = live_installations (vhex (vlt X)) (fmt X) (rec_log rec)"
    and "\<And>row. row \<in> set (st_entries st) \<Longrightarrow>
      \<exists>r \<in> set (fst (log_rows X (Some (rec_log rec)))). row_index row = row_index r \<and> row_live row = row_live r"
proof -
  note inv = reachable_inv [OF assms(3,5)]
  have k: "keys_ok X c" using inv by (simp add: core_inv_def)
  obtain key c1 base log rec where m: "manages X a c = Inr True" and 1: "read_store X a c = (Inr (), c1)"
    and f: "fits X a (staged_for a c1) c1 = Inr ()" and e: "extendable X a c1 = Inr base" and i: "i = first_new_of X base"
    and b: "build key (map_option rec_signed (record_of X a c1)) (planned_entries X a c1) = Inr log"
    and rec: "record_of X a c' = Some rec" "rec_signed rec = log"
    by (rule publish_planned [OF assms(6,7,3,4) k])
  note carry = reachable_carries [OF assms(2,5)]
  have c1: "records_carry X contents says c1" by (rule read_store_carries [OF assms(2) carry 1])
  have c': "records_carry X contents says c'" by (rule publish_carries [OF assms(2) carry assms(6)])
  have ok: "edits_ok (staged_for a c1)" using inv_read_store [OF assms(3) inv 1] by (simp add: core_inv_def)
  have "says log = (case map_option rec_signed (record_of X a c1) of None \<Rightarrow> [] | Some s \<Rightarrow> says s) @ planned_entries X a c1"
    using assms(2) b unfolding content_laws_def by blast
  then have "says log = base_of X contents a c1 @ plan (fmt X) (staged_for a c1)"
    using record_carries [OF c1] by (cases "record_of X a c1") (auto simp: base_of_def carries_def planned_entries_def)
  then have co: "contents (rec_log rec) = base_of X contents a c1 @ plan (fmt X) (staged_for a c1)"
    using record_carries [OF c' rec(1)] rec(2) by (simp add: carries_def)
  obtain before where li: "live_in (contents (rec_log rec)) =
      before @ numbered_from (length (base_of X contents a c1 @ revisions (staged_for a c1))) (additions (fmt X) (staged_for a c1))"
    using live_after [OF assms(1) c1 f] unfolding co by blast
  have "manages X a c' = Inr True" using m publish_disk [OF assms(6)] by (simp add: manages_def)
  from state_managed [OF this] obtain h where st: "state X a c' = Inr (state_of X a c' (Some h))" by blast
  have l: "log_shown X a c' = Some (rec_log rec)" using rec(1) by (simp add: log_shown_def)
  have n: "st_display_name (state_of X a c' (Some h)) = live_display_name (fmt X) (rec_log rec)"
    by (simp add: state_of_fields(3) l names_of_def in_force_def live_display_name_def Let_def)
  have ins: "st_installations (state_of X a c' (Some h)) = live_installations (vhex (vlt X)) (fmt X) (rec_log rec)"
    by (simp add: state_of_def Let_def case_prod_beta rec(1))
  show ?thesis
    by (rule that [OF 1 rec(1) co _ ok li st n ins])
      (use fits_plan(2) [OF assms(1) c1 f e] i mark_superseded_rows in \<open>simp_all add: state_of_fields(1) l\<close>)
qed

end
