(* ===== verification/Settling_Run.thy ===== *)
theory Settling_Run
  imports Publish_Effects Staging_Properties
begin

text \<open>
  A run in which two edits waiting are settled one by one although one rests on what the other
  revokes: the sample account's log holds two names, the first is staged again and its old
  entry staged for revocation, and another device revokes the second name meanwhile.
\<close>

section \<open>A core over a store that holds a log of the account\<close>

abbreviation name_entry :: "rstr \<Rightarrow> AccountEntry" where
  "name_entry t \<equiv> Add DISPLAY_NAME_CONTEXT (Text t)"

definition raya :: rstr where "raya = lit ''Raya''"

definition holding :: "slog \<Rightarrow> script world" where
  "holding l = (sample_world [])\<lparr>mem := [(one_addr, own_log l)]\<rparr>"

definition two_names :: slog where
  "two_names = [name_entry saro, name_entry raya]"

definition one_left :: slog where
  "one_left = two_names @ [Remove 1]"

definition none_left :: slog where
  "none_left = one_left @ [Remove 0]"

lemma saro_not_raya [simp]: "saro \<noteq> raya" "raya \<noteq> saro"
  by (simp_all add: saro_def raya_def lit_def)

lemma run_logs_sized: "list_all byte_sized two_names" "list_all byte_sized one_left" "list_all byte_sized none_left"
  by (simp_all add: two_names_def one_left_def none_left_def byte_sized_def saro_def raya_def DISPLAY_NAME_CONTEXT_def lit_def)

lemma run_logs_sound: "sound_log two_names" "sound_log one_left" "sound_log none_left"
proof -
  show 1: "sound_log two_names"
    using sound_log_snoc [of "[name_entry saro]" "name_entry raya"] by (simp add: two_names_def)
  show 2: "sound_log one_left" using 1 by (simp add: one_left_def sound_log_snoc) (simp add: two_names_def)
  show "sound_log none_left" using 2 by (simp add: none_left_def sound_log_snoc) (simp add: one_left_def two_names_def)
qed

lemma run_logs_live:
  "live_of two_names = [\<lparr>e_index = 0, e_entry = name_entry saro\<rparr>, \<lparr>e_index = 1, e_entry = name_entry raya\<rparr>]"
  "live_of one_left = [\<lparr>e_index = 0, e_entry = name_entry saro\<rparr>]" "live_of none_left = []"
  by (simp_all add: live_of_eq live_in_def not_revoked_def is_revocation_def two_names_def one_left_def none_left_def)

lemma run_names:
  "live_display_name sample_fmt two_names = Some raya" "live_display_name sample_fmt one_left = Some saro"
  "live_display_name sample_fmt none_left = None"
  by (simp_all add: live_display_name_def live_display_names_def sample_fmt_def run_logs_live context_of_def
      List.map_filter_simps name_of_entry_def)

text \<open>The store's answer is taken over.\<close>

lemma sample_resolves:
  assumes "store c = Memory" and "mem (outside c) = [(one_addr, own_log l)]" and "written c = None"
    and "list_all byte_sized l" and "sound_log l"
    and "\<And>held. resolver c one_addr = Some held \<Longrightarrow> prefix (payload (rec_signed held)) (payload (own_log l))"
  shows "resolve_core sample_app one_addr c =
    (Inr (), c\<lparr>resolver := (resolver c)(one_addr \<mapsto> \<lparr>rec_log = l, rec_signed = own_log l\<rparr>)\<rparr>)"
proof -
  have s: "AccountAddr (to_hex (signature (own_log l))) = one_addr"
    by (simp add: own_log_def sample_keys_def)
  have "sample_judge (resolver c) one_addr (Inr (Some (own_log l))) =
      (Inr (), (resolver c)(one_addr \<mapsto> \<lparr>rec_log = l, rec_signed = own_log l\<rparr>))"
    using assms(6) by (simp add: sample_judge_def s own_read [OF assms(4,5)] split: option.split)
  then show ?thesis
    using assms(1-3) by (simp add: sample_resolve judged_def read_back_fetch_eq store_fetch_def mem_fetch_def mem_held_def)
qed

section \<open>The run\<close>

abbreviation held_record :: "slog \<Rightarrow> slog account_record" where
  "held_record l \<equiv> \<lparr>rec_log = l, rec_signed = own_log l\<rparr>"

definition first_core :: score where
  "first_core = core_new sample_app open_disk (holding two_names) Memory"

definition met_core :: score where
  "met_core = answered_now one_addr (first_core\<lparr>resolver := [one_addr \<mapsto> held_record two_names]\<rparr>)"

definition both_core :: score where
  "both_core = with_staged one_addr [Revoke 0, SetDisplayName saro] met_core"

definition moved_core :: score where
  "moved_core = both_core\<lparr>outside := holding one_left\<rparr>"

lemma first_sel [simp]:
  "disk first_core = open_disk" "outside first_core = holding two_names" "store first_core = Memory"
  "resolver first_core = Map.empty" "written first_core = None" "read_of first_core = Map.empty"
  "staged first_core = Map.empty" "dropped first_core = Map.empty" "unlocked first_core = Map.empty"
  by (simp_all add: first_core_def core_new_def sample_acct_def)

lemma met_sel [simp]:
  "disk met_core = open_disk" "outside met_core = holding two_names" "store met_core = Memory"
  "resolver met_core = [one_addr \<mapsto> held_record two_names]" "written met_core = None"
  "staged met_core = Map.empty" "dropped met_core = Map.empty" "unlocked met_core = Map.empty"
  by (simp_all add: met_core_def)

lemma met_answered [simp]: "answered one_addr met_core"
  by (simp add: met_core_def answered_def read_at_def answered_now_def)

lemma holding_mem [simp]: "mem (holding l) = [(one_addr, own_log l)]"
  by (simp add: holding_def)

lemma sample_from_log: "list_all byte_sized l \<Longrightarrow> from_log sample_fmt l = Inr l"
proof -
  assume "list_all byte_sized l"
  then have "list_all known_entry l"
    by (auto simp: list_all_iff byte_sized_def known_entry_def split: AccountEntry.splits)
  then obtain d where "from_log sample_fmt l = Inr d" using log_lawsD(10) [OF sample_log_laws] by blast
  then show ?thesis using log_lawsD(3) [OF sample_log_laws] by metis
qed

lemma run_from_log [simp]:
  "from_log sample_fmt two_names = Inr two_names" "from_log sample_fmt one_left = Inr one_left"
  by (simp_all add: sample_from_log run_logs_sized)

lemma first_refreshed: "refresh sample_app one_addr first_core = (Inr 0, met_core)"
proof -
  have k: "require_known sample_app one_addr first_core = Inr ()" by (simp add: require_known_def)
  have s: "settle sample_app one_addr met_core = met_core" by (simp add: settle_def split: option.split sum.split)
  have "resolve_core sample_app one_addr first_core =
      (Inr (), first_core\<lparr>resolver := [one_addr \<mapsto> held_record two_names]\<rparr>)"
    using sample_resolves [of first_core two_names] run_logs_sized run_logs_sound by simp
  then have "read_store sample_app one_addr first_core = (Inr (), met_core)"
    using s by (simp add: read_store_Inr met_core_def)
  moreover have "take_dropped one_addr met_core = (0, met_core)"
    by (simp add: take_dropped_def)
  ultimately show ?thesis by (simp add: refresh_def and_then_def of_read_def k)
qed

lemma run_plans:
  "plan sample_fmt [Revoke 0] = [Remove 0]"
  "plan sample_fmt [Revoke 0, SetDisplayName saro] = [Remove 0, name_entry saro]"
  by (simp_all add: plan_def revocation_of_def addition_of_def List.map_filter_simps)

lemma run_pushes:
  "sample_push two_names (Remove 0) = Inr (two_names @ [Remove 0])"
  "sample_push one_left (Remove 0) = Inr none_left"
  "sample_push (two_names @ [Remove 0]) (name_entry saro) = Inr (two_names @ [Remove 0, name_entry saro])"
  by (simp_all add: sample_push_def run_logs_live none_left_def)

lemma run_encodes:
  "\<exists>b. sample_encode (two_names @ [Remove 0]) = Inr b" "\<exists>b. sample_encode none_left = Inr b"
  "\<exists>b. sample_encode (two_names @ [Remove 0, name_entry saro]) = Inr b"
  by (simp_all add: sample_encode_def byte_sized_def two_names_def one_left_def none_left_def saro_def raya_def lit_def
      DISPLAY_NAME_CONTEXT_def sample_domain_def sample_max_def)

lemma run_fits:
  assumes "record_of sample_app one_addr c = Some (held_record l)" and "from_log sample_fmt l = Inr l"
    and "push_all sample_fmt l (plan sample_fmt es) = Inr l'" and "\<exists>b. sample_encode l' = Inr b"
  shows "fits sample_app one_addr es c = Inr ()"
  using assms by (auto simp: fits_def extendable_def)

lemma run_staged:
  "stage sample_app one_addr (StageRevoke 0) met_core = (Inr (), with_staged one_addr [Revoke 0] met_core)"
  "stage sample_app one_addr (StageName saro) (with_staged one_addr [Revoke 0] met_core) = (Inr (), both_core)"
proof -
  let ?one = "with_staged one_addr [Revoke 0] met_core"
  have a: "answered one_addr ?one" by (subst answered_fields [of _ met_core]) simp_all
  have m: "require_managed sample_app one_addr met_core = Inr ()" "require_managed sample_app one_addr ?one = Inr ()"
    by (simp_all add: require_managed_Inr)
  have r: "record_of sample_app one_addr met_core = Some (held_record two_names)"
    "record_of sample_app one_addr ?one = Some (held_record two_names)" using a by simp_all
  have e: "extendable sample_app one_addr met_core = Inr (Some two_names)"
    "extendable sample_app one_addr ?one = Inr (Some two_names)" by (simp_all add: extendable_def a)
  have f: "fits sample_app one_addr [Revoke 0] met_core = Inr ()"
    "fits sample_app one_addr [Revoke 0, SetDisplayName saro] ?one = Inr ()"
    using run_fits [OF r(1), of "[Revoke 0]"] run_fits [OF r(2), of "[Revoke 0, SetDisplayName saro]"] run_encodes
    by (simp_all add: run_plans run_pushes)
  show "stage sample_app one_addr (StageRevoke 0) met_core = (Inr (), ?one)"
    by (simp add: stage_revoke_def and_then_def of_read_def m e run_logs_live staged_for_def Let_def restage_Inr f)
  have n: "live_name sample_app one_addr ?one = Some raya" by (simp add: live_name_def r run_names a)
  show "stage sample_app one_addr (StageName saro) ?one = (Inr (), both_core)"
    by (simp add: stage_set_display_name_def and_then_def of_read_def m e saro_name n staged_for_def Let_def
        is_name_edit_def restage_Inr f both_core_def)
qed

text \<open>The other device's log is read, and the edits are settled against it one by one.\<close>

definition settled_core :: score where
  "settled_core = (answered_now one_addr (moved_core\<lparr>resolver := [one_addr \<mapsto> held_record one_left]\<rparr>))
     \<lparr>staged := [one_addr \<mapsto> [Revoke 0]], dropped := [one_addr \<mapsto> 1]\<rparr>"

definition gone_core :: score where
  "gone_core = settled_core\<lparr>outside := holding none_left, resolver := [one_addr \<mapsto> held_record none_left],
     staged := Map.empty, dropped := Map.empty\<rparr>"

lemma moved_sel [simp]:
  "disk moved_core = open_disk" "outside moved_core = holding one_left" "store moved_core = Memory"
  "resolver moved_core = [one_addr \<mapsto> held_record two_names]" "written moved_core = None"
  "staged moved_core = [one_addr \<mapsto> [Revoke 0, SetDisplayName saro]]" "dropped moved_core = Map.empty"
  "unlocked moved_core = Map.empty"
  by (simp_all add: moved_core_def both_core_def)

lemma settled_sel [simp]:
  "disk settled_core = open_disk" "outside settled_core = holding one_left" "store settled_core = Memory"
  "resolver settled_core = [one_addr \<mapsto> held_record one_left]" "written settled_core = None"
  "staged settled_core = [one_addr \<mapsto> [Revoke 0]]" "dropped settled_core = [one_addr \<mapsto> 1]"
  "unlocked settled_core = Map.empty"
  by (simp_all add: settled_core_def)

lemma settled_answered [simp]: "answered one_addr settled_core"
  by (simp add: settled_core_def answered_def read_at_def answered_now_def)

lemma run_extends:
  "prefix (payload (own_log two_names)) (payload (own_log one_left))"
  "prefix (payload (own_log one_left)) (payload (own_log none_left))"
  by (simp_all add: own_log_def none_left_def one_left_def)

lemma moved_read: "read_store sample_app one_addr moved_core = (Inr (), settled_core)"
proof -
  let ?c = "answered_now one_addr (moved_core\<lparr>resolver := [one_addr \<mapsto> held_record one_left]\<rparr>)"
  have 1: "resolve_core sample_app one_addr moved_core =
      (Inr (), moved_core\<lparr>resolver := [one_addr \<mapsto> held_record one_left]\<rparr>)"
    using sample_resolves [of moved_core one_left] run_logs_sized run_logs_sound run_extends by simp
  have a: "answered one_addr ?c" by (simp add: answered_def read_at_def answered_now_def)
  have "settle sample_app one_addr ?c = settled_core"
    by (simp add: settle_def a still_needed_def run_logs_live run_names settled_core_def Let_def)
  then show ?thesis using 1 by (simp add: read_store_Inr)
qed

lemma gone_built: "sample_build one_key (Some (own_log one_left)) [Remove 0] = Inr (own_log none_left)"
proof -
  have p: "payload (own_log one_left) @ concat (map entry_bytes [Remove 0]) = payload (own_log none_left)"
    by (simp add: own_log_def none_left_def)
  have s: "signature (own_log none_left) = one_key" by (simp add: own_log_def)
  have "length (payload (own_log none_left)) \<le> sample_max"
    using run_encodes(2) by (auto simp: sample_encode_def own_log_def Let_def split: if_splits)
  then have l: "\<not> sample_max < length (payload (own_log none_left))" by simp
  have e: "\<lparr>payload = payload (own_log none_left), signature = one_key\<rparr> = own_log none_left"
    unfolding s [symmetric] by simp
  have r: "read_payload (payload (own_log one_left)) = Some one_left" "read_payload (payload (own_log none_left)) = Some none_left"
    using own_read run_logs_sized run_logs_sound by blast+
  have n: "one_left @ [Remove 0] = none_left" by (simp add: none_left_def)
  show ?thesis
    unfolding sample_build_def Let_def option.case p r n e using l by (simp add: run_pushes)
qed

lemma gone_published:
  "publish sample_app one_addr moved_core = (Inr \<lparr>first_new_index = Some 3, pub_dropped = 1\<rparr>, gone_core)"
proof -
  let ?w = "settled_core\<lparr>outside := holding none_left\<rparr>"
  have u: "update_law (vkeys (vlt sample_app)) (acct sample_app) sample_build" by (simp add: sample_update_law)
  have m: "require_managed sample_app one_addr moved_core = Inr ()" by (simp add: require_managed_Inr)
  have k: "signing_key sample_app one_addr moved_core = Inr one_key" by (simp add: signing_key_def sample_opens)
  have rec: "record_of sample_app one_addr settled_core = Some (held_record one_left)" by simp
  have e: "extendable sample_app one_addr settled_core = Inr (Some one_left)" by (simp add: extendable_def)
  have f: "fits sample_app one_addr [Revoke 0] settled_core = Inr ()"
    using run_fits [OF rec, of "[Revoke 0]"] run_encodes by (simp add: run_plans run_pushes)
  have p: "planned_entries sample_app one_addr settled_core = [Remove 0]"
    by (simp add: planned_entries_def staged_for_def run_plans)
  have w: "write_update sample_app one_addr one_key [Remove 0] settled_core = (Inr (own_log none_left), ?w)"
    unfolding write_update_eq [where key = one_key and a = one_addr, OF u, simplified] rec
    using gone_built run_extends(2) by (simp add: store_publish_def mem_publish_def mem_held_def holding_def)
  have s: "AccountAddr (to_hex (signature (own_log none_left))) = one_addr"
    by (simp add: own_log_def sample_keys_def)
  have j: "sample_judge [one_addr \<mapsto> held_record one_left] one_addr (Inr (Some (own_log none_left))) =
      (Inr (), [one_addr \<mapsto> held_record none_left])"
    using run_extends(2) own_read run_logs_sized(3) run_logs_sound(3) by (simp add: sample_judge_def s)
  have b: "resolve_core sample_app one_addr (after_write one_addr (own_log none_left) ?w) =
      (Inr (), gone_core\<lparr>dropped := [one_addr \<mapsto> 1]\<rparr>)"
    by (simp add: sample_resolve judged_def read_back_fetch_eq written_take_own j gone_core_def after_write_def)
  have n: "length (with_index one_left) = 3" by (simp add: with_index_def one_left_def two_names_def)
  have d: "take_dropped one_addr (gone_core\<lparr>dropped := [one_addr \<mapsto> 1]\<rparr>) = (1, gone_core)"
    by (simp add: take_dropped_def gone_core_def)
  show ?thesis
    using b by (simp add: publish_def and_then_def of_read_def m k moved_read publish_staged_def f e p w n
        map_err_op_def after_write_def d [simplified] staged_for_def Let_def)
qed

lemma run_names_shown:
  obtains st st' where "state sample_app one_addr both_core = Inr st" and "st_display_name st = Some raya"
    and "state sample_app one_addr gone_core = Inr st'" and "st_display_name st' = None"
proof -
  have "answered one_addr both_core" using met_answered answered_fields [of both_core met_core] by (simp add: both_core_def)
  then have n: "live_name sample_app one_addr both_core = Some raya" by (simp add: live_name_def run_names both_core_def)
  have "answered one_addr gone_core"
    using settled_answered answered_fields [of gone_core settled_core] by (simp add: gone_core_def)
  then have n': "live_name sample_app one_addr gone_core = None" by (simp add: live_name_def run_names gone_core_def)
  have "manages sample_app one_addr both_core = Inr True" "manages sample_app one_addr gone_core = Inr True"
    by (simp_all add: both_core_def gone_core_def)
  with name_on_screen that n n' show ?thesis by metis
qed

end
