(* ===== verification/Log_Refinement.thy ===== *)
theory Log_Refinement
  imports Publish_Effects
begin

text \<open>
  The account core on a store that answers, at the level of entries: a read shows what the
  store's log says, and a publish appends the edits it does not say yet, or nothing.
\<close>

section \<open>What a log shows\<close>

definition keys_in :: "AccountEntry list \<Rightarrow> bytes list" where
  "keys_in es = List.map_filter key_of_entry (live_in es)"

definition names_in :: "AccountEntry list \<Rightarrow> Name list" where
  "names_in es = List.map_filter name_of_entry
     (filter (\<lambda>x. context_of (e_entry x) = Some DISPLAY_NAME_CONTEXT) (live_in es))"

definition name_in :: "AccountEntry list \<Rightarrow> rstr option" where
  "name_in es = (if names_in es = [] then None else Some (name_value (last (names_in es))))"

text \<open>Which edits are still to be made.\<close>

definition undone :: "AccountEntry list \<Rightarrow> StagedEdit \<Rightarrow> bool" where
  "undone es s = (case s of
     Revoke i \<Rightarrow> list_ex (\<lambda>x. e_index x = i) (live_in es)
   | AddInstallation k \<Rightarrow> k \<notin> set (keys_in es)
   | SetDisplayName n \<Rightarrow> name_in es \<noteq> Some n)"

lemma undone_eq: "undone es = still_needed (live_in es) (keys_in es) (name_in es)"
  by (rule ext) (simp add: undone_def still_needed_def split: StagedEdit.split)

lemma names_shown: "log_laws F contents drafted \<Longrightarrow> live_display_names F l = names_in (contents l)"
  by (simp add: live_display_names_def names_in_def log_lawsD(1))

lemma name_shown: "log_laws F contents drafted \<Longrightarrow> live_display_name F l = name_in (contents l)"
  by (simp add: live_display_name_def name_in_def names_shown Let_def)

lemma keys_shown: "log_laws F contents drafted \<Longrightarrow> live_keys F d = keys_in (drafted d)"
  by (simp add: live_keys_def keys_in_def log_lawsD(7))

lemma needed_undone:
  assumes "log_laws (fmt X) contents drafted" and "record_of X a c = Some rec"
    and "list_all known_entry (contents (rec_log rec))"
  shows "needed_now X a c = undone (contents (rec_log rec))"
proof -
  obtain d where d: "from_log (fmt X) (rec_log rec) = Inr d" using log_lawsD(10) [OF assms(1)] assms(3) by blast
  note e = log_lawsD(3) [OF assms(1) d]
  show ?thesis
    unfolding needed_now_def assms(2) option.case d sum.case undone_eq
      keys_shown [OF assms(1)] name_shown [OF assms(1)] log_lawsD(7) [OF assms(1)] e ..
qed

section \<open>A read of the memory store\<close>

text \<open>
  The store's log is the account's own and extends the one held; where it has none, none is
  held.
\<close>

definition served ::
  "('l, 'd, 'r, 'n) app \<Rightarrow> (AccountAddr \<Rightarrow> signed_log \<Rightarrow> bool) \<Rightarrow> AccountAddr \<Rightarrow> ('r, 'n) core \<Rightarrow> bool" where
  "served X genuine a c \<longleftrightarrow>
     (case mem_held (mem (outside c)) a of
        None \<Rightarrow> resolver_get (acct X) (resolver c) a = None
      | Some log \<Rightarrow> genuine a log \<and>
          (\<forall>held. resolver_get (acct X) (resolver c) a = Some held \<longrightarrow> prefix (payload (rec_signed held)) (payload log)))"

lemma served_fields:
  "outside c' = outside c \<Longrightarrow> resolver c' = resolver c \<Longrightarrow> served X genuine a c' = served X genuine a c"
  unfolding served_def by (simp split: option.split)

definition says_of :: "(signed_log \<Rightarrow> AccountEntry list) \<Rightarrow> AccountAddr \<Rightarrow> 'n world \<Rightarrow> AccountEntry list" where
  "says_of says a w = (case mem_held (mem w) a of None \<Rightarrow> [] | Some log \<Rightarrow> says log)"

lemma resolve_core_served:
  assumes "answer_laws K F (acct X) build genuine drafted says" and "resolve_law (acct X)"
    and "store c = Memory" and "written c = None" and "served X genuine a c"
  shows "\<exists>c'. resolve_core X a c = (Inr (), c') \<and> outside c' = outside c \<and> written c' = None
    \<and> map_option rec_signed (resolver_get (acct X) (resolver c') a) = mem_held (mem (outside c)) a"
proof -
  let ?f = "read_back_fetch (net_http X) (store c)"
  have f: "?f (written c, outside c) a = (Inr (mem_held (mem (outside c)) a), (None, outside c))"
    by (simp add: read_back_fetch_eq assms(3,4) store_fetch_def mem_fetch_def)
  obtain judge where j: "judge_laws (acct X) judge" "\<forall>a c. resolve_core X a c = judged X judge a c"
    using resolve_core_judged [OF assms(2)] by blast
  show ?thesis
  proof (cases "mem_held (mem (outside c)) a")
    case None
    then obtain r' where "resolve (acct X) ?f (resolver c) a (written c, outside c) = (Inr (), r', (None, outside c))"
      "resolver_get (acct X) r' a = None"
      using answer_lawsD(2) [OF assms(1), where fetch = ?f and s = "(written c, outside c)" and a = a
          and r = "resolver c" and s' = "(None, outside c)"] f assms(5) unfolding served_def None by (simp, blast)
    then show ?thesis using None by (simp add: resolve_core_def)
  next
    case (Some log)
    then obtain r' where r: "resolve (acct X) ?f (resolver c) a (written c, outside c) = (Inr (), r', (None, outside c))"
      using answer_lawsD(1) [OF assms(1), where fetch = ?f and s = "(written c, outside c)" and a = a
          and r = "resolver c" and s' = "(None, outside c)" and log = log] f assms(5) unfolding served_def Some by (simp, blast)
    then have c': "resolve_core X a c = (Inr (), c\<lparr>resolver := r', written := None, outside := outside c\<rparr>)"
      by (simp add: resolve_core_def)
    then have jj: "judged X judge a c = (Inr (), c\<lparr>resolver := r', written := None, outside := outside c\<rparr>)"
      using j(2) by metis
    have "judge (resolver c) a (Inr (Some log)) = (Inr (), r')"
      using arg_cong [OF jj, of fst] arg_cong [OF jj, of "\<lambda>x. resolver (snd x)"]
      by (simp add: judged_def Let_def f Some prod_eq_iff)
    then obtain rec where "resolver_get (acct X) r' a = Some rec" "rec_signed rec = log"
      using j(1) unfolding judge_laws_def by blast
    then show ?thesis using c' Some by simp
  qed
qed

text \<open>What a publish on it finds still to be made.\<close>

definition left_to_do ::
  "(signed_log \<Rightarrow> AccountEntry list) \<Rightarrow> AccountAddr \<Rightarrow> ('r, 'n) core \<Rightarrow> StagedEdit list" where
  "left_to_do says a c =
     (if mem_held (mem (outside c)) a \<noteq> None \<and> list_all known_entry (says_of says a (outside c))
      then filter (undone (says_of says a (outside c))) (staged_for a c) else staged_for a c)"

lemma base_of_served:
  assumes "records_carry X contents says c" and "map_option rec_signed (record_of X a c) = mem_held (mem (outside c)) a"
  shows "base_of X contents a c = says_of says a (outside c)"
proof (cases "record_of X a c")
  case None
  then show ?thesis using assms(2) by (simp add: base_of_def says_of_def)
next
  case (Some rec)
  then have "mem_held (mem (outside c)) a = Some (rec_signed rec)" using assms(2) by simp
  then show ?thesis using record_carries [OF assms(1) Some] Some by (simp add: base_of_def says_of_def carries_def)
qed

lemma read_store_served:
  assumes "answer_laws K (fmt X) (acct X) build genuine drafted says" and "resolve_law (acct X)"
    and "log_laws (fmt X) contents drafted" and "content_laws (acct X) build contents says"
    and "records_carry X contents says c" and "store c = Memory" and "written c = None" and "served X genuine a c"
  obtains c1 where "read_store X a c = (Inr (), c1)" and "outside c1 = outside c" and "written c1 = None"
    and "map_option rec_signed (record_of X a c1) = mem_held (mem (outside c)) a"
    and "staged_for a c1 = left_to_do says a c"
    and "dropped_for a c1 + length (staged_for a c1) = dropped_for a c + length (staged_for a c)"
proof -
  obtain c0 where 0: "resolve_core X a c = (Inr (), c0)" "outside c0 = outside c" "written c0 = None"
    "map_option rec_signed (resolver_get (acct X) (resolver c0) a) = mem_held (mem (outside c)) a"
    using resolve_core_served [OF assms(1,2,6-8)] by blast
  note sel = resolve_core_sel [OF 0(1)]
  let ?n = "answered_now a c0"
  let ?c = "settle X a ?n"
  have n: "outside ?n = outside c" "written ?n = None" "resolver ?n = resolver c0" "staged ?n = staged c" "dropped ?n = dropped c"
    using 0(2,3) sel by (simp_all add: answered_now_def)
  have an: "answered a ?n" "answered a ?c" by (simp_all add: answered_def read_at_def answered_now_def)
  have r: "read_store X a c = (Inr (), ?c)" using 0(1) by (simp add: read_store_Inr)
  have rec: "map_option rec_signed (record_of X a ?n) = mem_held (mem (outside c)) a"
    "map_option rec_signed (record_of X a ?c) = mem_held (mem (outside c)) a"
    using 0(4) n(3) record_of_answered [OF an(1), of X] record_of_answered [OF an(2), of X] by simp_all
  have ca: "records_carry X contents says ?n"
    using resolve_carries [OF assms(4,5) 0(1)] n(3) by (simp add: records_carry_def)
  note b = base_of_served [OF ca, of a, unfolded n(1), OF rec(1)]
  have st: "staged_for a ?n = staged_for a c" using sel(4) by (simp add: staged_for_def)
  have "staged_for a ?c = left_to_do says a c"
  proof (cases "record_of X a ?n")
    case None
    then have "needed_now X a ?n = (\<lambda>_. True)" by (simp add: needed_now_def)
    moreover have "mem_held (mem (outside c)) a = None" using rec(1) None by simp
    ultimately show ?thesis unfolding settle_staged_for left_to_do_def st by simp
  next
    case (Some rec')
    then have h: "mem_held (mem (outside c)) a = Some (rec_signed rec')" and
      e: "contents (rec_log rec') = says_of says a (outside c)" using rec(1) b by (simp_all add: base_of_def)
    show ?thesis
    proof (cases "list_all known_entry (says_of says a (outside c))")
      case True
      then show ?thesis
        using needed_undone [OF assms(3) Some] h unfolding settle_staged_for left_to_do_def st e by simp
    next
      case False
      then have "\<nexists>d. from_log (fmt X) (rec_log rec') = Inr d" using log_lawsD(10) [OF assms(3)] e by metis
      then obtain x where "from_log (fmt X) (rec_log rec') = Inl x" by (cases "from_log (fmt X) (rec_log rec')") auto
      then have "needed_now X a ?n = (\<lambda>_. True)" by (simp add: needed_now_def Some)
      then show ?thesis using False unfolding settle_staged_for left_to_do_def st by simp
    qed
  qed
  moreover have "dropped_for a ?n = dropped_for a c" using sel(5) by (simp add: dropped_for_def)
  ultimately show ?thesis
    using that [OF r] n rec(2) settle_dropped_for [of a X ?n] st by simp
qed

section \<open>A publish to the memory store\<close>

lemma resolve_core_takes:
  assumes "answer_laws K (fmt X) (acct X) build genuine drafted says"
    and "written c = Some (a, log)" and "genuine a log"
    and "\<And>held. resolver_get (acct X) (resolver c) a = Some held \<Longrightarrow> prefix (payload (rec_signed held)) (payload log)"
  shows "\<exists>c'. resolve_core X a c = (Inr (), c')"
proof -
  let ?f = "read_back_fetch (net_http X) (store c)"
  have f: "?f (written c, outside c) a = (Inr (Some log), (None, outside c))"
    by (simp add: read_back_fetch_eq assms(2) written_take_own)
  obtain r' where "resolve (acct X) ?f (resolver c) a (written c, outside c) = (Inr (), r', (None, outside c))"
    using answer_lawsD(1) [OF assms(1), where fetch = ?f and s = "(written c, outside c)" and a = a
        and r = "resolver c" and s' = "(None, outside c)" and log = log] f assms(3,4) by blast
  then show ?thesis by (simp add: resolve_core_def)
qed

text \<open>An update that fits the log the store holds is built on it and taken by the store.\<close>

lemma write_update_served:
  assumes "answer_laws (vkeys (vlt X)) (fmt X) (acct X) build genuine drafted says" and "log_laws (fmt X) contents drafted"
    and "update_law (vkeys (vlt X)) (acct X) build" and "records_carry X contents says c"
    and "store c = Memory" and "served X genuine a c" and "addr_of (vkeys (vlt X)) key = a"
    and "map_option rec_signed (record_of X a c) = mem_held (mem (outside c)) a" and "fits X a es c = Inr ()"
  obtains log w where "write_update X a key (plan (fmt X) es) c = (Inr log, c\<lparr>outside := w\<rparr>)"
    and "mem_held (mem w) = (mem_held (mem (outside c)))(a \<mapsto> log)" and "genuine a log"
    and "\<And>old. mem_held (mem (outside c)) a = Some old \<Longrightarrow> prefix (payload old) (payload log)"
proof -
  let ?F = "fmt X" and ?held = "mem_held (mem (outside c)) a"
  obtain base where e: "extendable X a c = Inr base" using fits_extendable [OF assms(9)] by blast
  let ?d = "case base of None \<Rightarrow> draft_new ?F | Some d \<Rightarrow> d"
  obtain d' b where p: "push_all ?F ?d (plan ?F es) = Inr d'" and en: "encode ?F (draft_log ?F d') = Inr b"
    using assms(9) e by (auto simp: fits_def bind_res_Inr map_err_Inr)
  have "drafted ?d = base_of X contents a c"
    using e log_lawsD(2,3) [OF assms(2)] unfolding extendable_Inr base_of_def by (cases "record_of X a c") auto
  then have d: "drafted ?d = (case ?held of None \<Rightarrow> [] | Some l \<Rightarrow> says l)"
    using base_of_served [OF assms(4,8)] by (simp add: says_of_def)
  have g: "genuine (addr_of (vkeys (vlt X)) key) l" if "?held = Some l" for l
    using assms(6,7) that by (simp add: served_def)
  obtain log where log: "build key ?held (plan ?F es) = Inr log" "genuine (addr_of (vkeys (vlt X)) key) log"
    "\<forall>l. ?held = Some l \<longrightarrow> prefix (payload l) (payload log)"
    using answer_lawsD(3) [OF assms(1) d g p en] by blast
  obtain w where w: "mem_publish (outside c) a log = (Inr (), w)"
    using log(3) by (cases ?held) (auto simp: mem_publish_def)
  have u: "write_update X a key (plan ?F es) c = (Inr log, c\<lparr>outside := w\<rparr>)"
    unfolding write_update_eq [OF assms(3,7)] assms(8) using log(1) w assms(5) by (simp add: store_publish_def)
  show ?thesis by (rule that [OF u mem_publish_taken(1) [OF w]]) (use log assms(7) in simp_all)
qed

lemma served_shown:
  assumes "answered a c" and "map_option rec_signed (record_of X a c) = mem_held (mem (outside c)) a"
    and "\<And>log. mem_held (mem (outside c)) a = Some log \<Longrightarrow> genuine a log"
  shows "served X genuine a c"
  using assms(2,3) record_of_answered [OF assms(1), of X]
  by (cases "mem_held (mem (outside c)) a") (auto simp: served_def)

text \<open>The publish after its read, where something is left to do.\<close>

lemma publish_staged_served:
  assumes "answer_laws (vkeys (vlt X)) (fmt X) (acct X) build genuine drafted says" and "log_laws (fmt X) contents drafted"
    and "content_laws (acct X) build contents says" and "resolve_law (acct X)" and "update_law (vkeys (vlt X)) (acct X) build"
    and "records_carry X contents says c" and "store c = Memory" and "served X genuine a c"
    and "addr_of (vkeys (vlt X)) key = a" and "answered a c"
    and "map_option rec_signed (record_of X a c) = mem_held (mem (outside c)) a"
    and "publish_staged X a key (staged_for a c) c = (r, c')"
  shows "served X genuine a c'"
    and "r = Inl e \<Longrightarrow> fits X a (staged_for a c) c = Inl e \<and> c' = c"
    and "r = Inr p \<Longrightarrow> (\<exists>i. first_new_index p = Some i \<and> unat i = length (says_of says a (outside c)))
      \<and> pub_dropped p = dropped_for a c \<and> staged_for a c' = []
      \<and> says_of says a (outside c') = says_of says a (outside c) @ plan (fmt X) (staged_for a c)"
proof -
  let ?es = "staged_for a c" and ?held = "mem_held (mem (outside c)) a"
  have "served X genuine a c' \<and> (\<forall>e. r = Inl e \<longrightarrow> fits X a ?es c = Inl e \<and> c' = c)
    \<and> (\<forall>p. r = Inr p \<longrightarrow> (\<exists>i. first_new_index p = Some i \<and> unat i = length (says_of says a (outside c)))
      \<and> pub_dropped p = dropped_for a c \<and> staged_for a c' = []
      \<and> says_of says a (outside c') = says_of says a (outside c) @ plan (fmt X) ?es)"
  proof (cases "fits X a ?es c")
    case (Inl e)
    then have "r = Inl e \<and> c' = c" using assms(12) by (simp add: publish_staged_def and_then_def of_read_def)
    then show ?thesis using Inl assms(8) by simp
  next
    case (Inr v)
    then have f: "fits X a ?es c = Inr ()" by simp
    obtain log w where u: "write_update X a key (plan (fmt X) ?es) c = (Inr log, c\<lparr>outside := w\<rparr>)"
      and m: "mem_held (mem w) = (mem_held (mem (outside c)))(a \<mapsto> log)" and g: "genuine a log"
      and x: "\<And>old. ?held = Some old \<Longrightarrow> prefix (payload old) (payload log)"
      by (rule write_update_served [OF assms(1,2,5,6,7,8,9,11) f]) (rule that)
    let ?w = "after_write a log (c\<lparr>outside := w\<rparr>)"
    have "prefix (payload (rec_signed h)) (payload log)" if "resolver_get (acct X) (resolver ?w) a = Some h" for h
    proof -
      have "record_of X a c = Some h" using that record_of_answered [OF assms(10), of X] by simp
      then show ?thesis using assms(11) x by simp
    qed
    then obtain c2 where r2: "resolve_core X a ?w = (Inr (), c2)"
      using resolve_core_takes [OF assms(1) _ g, of ?w] by auto
    note sel = resolve_core_sel [OF r2]
    note b = resolve_core_read_back [OF assms(4) _ r2, of log]
    obtain base where e: "extendable X a c = Inr base" using fits_extendable [OF f] by blast
    have r: "r = Inr \<lparr>first_new_index = Some (first_new_of X base), pub_dropped = dropped_for a c2\<rparr>"
      and c': "c' = c2\<lparr>dropped := (dropped c2)(a := None)\<rparr>"
      using assms(12) f e u r2
      by (simp_all add: publish_staged_def and_then_def of_read_def Let_def map_err_op_def after_write_def
          planned_entries_def take_dropped_eq first_new_of_def)
    have o: "outside c' = w" using b(2) c' by simp
    have "read_of c' = read_of c" using sel(3) c' by simp
    then have an: "answered a c'" using assms(10) answered_fields by blast
    obtain rec where rec: "resolver_get (acct X) (resolver c2) a = Some rec" "rec_signed rec = log" using b(1) by auto
    have shown: "map_option rec_signed (record_of X a c') = mem_held (mem (outside c')) a"
      using rec record_of_answered [OF an, of X] m c' unfolding o by simp
    have "served X genuine a c'" by (rule served_shown [OF an shown]) (use g m in \<open>simp add: o\<close>)
    moreover have "unat (first_new_of X base) = length (says_of says a (outside c))"
      using fits_plan(2) [OF assms(2,6) f e] base_of_served [OF assms(6,11)] by simp
    moreover have "dropped_for a c2 = dropped_for a c" using sel(5) by (simp add: dropped_for_def)
    moreover have "staged_for a c' = []" using sel(4) c' by (simp add: staged_for_def)
    moreover have "build key ?held (plan (fmt X) ?es) = Inr log"
      using write_update_Inr(1) [OF assms(5,9) u] assms(11) by simp
    then have "says log = says_of says a (outside c) @ plan (fmt X) ?es"
      using assms(3) unfolding content_laws_def says_of_def by blast
    then have "says_of says a (outside c') = says_of says a (outside c) @ plan (fmt X) ?es"
      using m by (simp add: says_of_def o)
    ultimately show ?thesis using r by simp
  qed
  then show "served X genuine a c'"
    and "r = Inl e \<Longrightarrow> fits X a ?es c = Inl e \<and> c' = c"
    and "r = Inr p \<Longrightarrow> (\<exists>i. first_new_index p = Some i \<and> unat i = length (says_of says a (outside c)))
      \<and> pub_dropped p = dropped_for a c \<and> staged_for a c' = []
      \<and> says_of says a (outside c') = says_of says a (outside c) @ plan (fmt X) ?es"
    by blast+
qed

end
