(* ===== verification/Effect_Properties.thy ===== *)
theory Effect_Properties
  imports Settling_Run Log_Refinement
begin

text \<open>
  What publishing does to an account, read off the log it leaves and the screen it fills.
\<close>

text \<open>
  C6: In every state the core can reach, a publish that reports new entries has the effect its
  edits promise. The log it leaves is exactly the one its read found, followed by the planned
  entries, and the number it reports is the first of those; the screen then shows the staged
  name as the account's, every staged installation key among its installations, and no entry
  whose revocation was staged as live.
\<close>

theorem publish_takes_effect:
  assumes "log_laws (fmt X) contents drafted" and "content_laws (acct X) build contents says"
    and "resolve_law (acct X)" and "update_law (vkeys (vlt X)) (acct X) build"
    and "reachable X c" and "publish X a c = (Inr p, c')" and "first_new_index p = Some i"
  shows "\<exists>c1 rec st. read_store X a c = (Inr (), c1) \<and> record_of X a c' = Some rec \<and> state X a c' = Inr st
    \<and> contents (rec_log rec) = base_of X contents a c1 @ plan (fmt X) (staged_for a c1)
    \<and> unat i = length (base_of X contents a c1)
    \<and> (\<forall>n. SetDisplayName n \<in> set (staged_for a c1) \<longrightarrow> st_display_name st = Some n)
    \<and> (\<forall>k. AddInstallation k \<in> set (staged_for a c1) \<longrightarrow>
         hex_encode (vhex (vlt X)) k \<in> inst_key ` set (st_installations st))
    \<and> (\<forall>j row. Revoke j \<in> set (staged_for a c1) \<and> row \<in> set (st_entries st) \<and> row_index row = j \<longrightarrow> \<not> row_live row)"
proof -
  obtain c1 rec before st where 1: "read_store X a c = (Inr (), c1)" and 2: "record_of X a c' = Some rec"
    and 3: "contents (rec_log rec) = base_of X contents a c1 @ plan (fmt X) (staged_for a c1)"
    and 4: "unat i = length (base_of X contents a c1)" and 5: "edits_ok (staged_for a c1)"
    and 6: "live_in (contents (rec_log rec)) =
      before @ numbered_from (length (base_of X contents a c1 @ revisions (staged_for a c1))) (additions (fmt X) (staged_for a c1))"
    and 7: "state X a c' = Inr st" and 8: "st_display_name st = live_display_name (fmt X) (rec_log rec)"
    and 9: "st_installations st = live_installations (vhex (vlt X)) (fmt X) (rec_log rec)"
    and 10: "\<And>row. row \<in> set (st_entries st) \<Longrightarrow>
      \<exists>r \<in> set (fst (log_rows X (Some (rec_log rec)))). row_index row = row_index r \<and> row_live row = row_live r"
    by (rule publish_effects [OF assms]) (rule that)
  have n: "st_display_name st = Some n" if "SetDisplayName n \<in> set (staged_for a c1)" for n
    unfolding 8 by (rule name_after [OF assms(1) refl 6 5 that])
  have k: "hex_encode (vhex (vlt X)) k \<in> inst_key ` set (st_installations st)"
    if "AddInstallation k \<in> set (staged_for a c1)" for k
    unfolding 9 by (rule key_after [OF assms(1) refl 6 that])
  have r: "\<not> row_live row" if "Revoke j \<in> set (staged_for a c1)" "row \<in> set (st_entries st)" "row_index row = j" for j row
  proof -
    have "Remove j \<in> set (revisions (staged_for a c1))"
      unfolding revisions_def List.map_filter_def using that(1) by (force simp: revocation_of_def)
    then have "Remove j \<in> set (contents (rec_log rec))" by (simp add: 3 plan_eq)
    from row_revoked [OF assms(1) refl this] 10 [OF that(2)] that(3) show ?thesis by auto
  qed
  show ?thesis using 1 2 3 4 7 n k r by blast
qed

lemma named_reachable: "reachable sample_app named_core"
proof -
  have "reachable sample_app open_core" unfolding open_core_def by (rule reachable.start)
  moreover have "step sample_app open_core named_core"
    using saro_staged by (intro step.call [of _ "Stage one_addr (StageName saro)" _ "Inr ()"]) simp
  ultimately show ?thesis by (rule reachable.more)
qed

theorem publish_takes_effect_witness:
  "\<exists>st. state sample_app one_addr published_core = Inr st \<and> st_display_name st = Some saro"
proof -
  have u: "update_law (vkeys (vlt sample_app)) (acct sample_app) sample_build" by (simp add: sample_update_law)
  have l: "log_laws (fmt sample_app) (\<lambda>l. l) (\<lambda>l. l)" by (simp add: sample_log_laws)
  have k: "content_laws (acct sample_app) sample_build (\<lambda>l. l) sample_says" by (simp add: sample_content_laws)
  have r: "resolve_law (acct sample_app)" by (simp add: sample_resolve_law)
  obtain c1 st where "read_store sample_app one_addr named_core = (Inr (), c1)"
    "state sample_app one_addr published_core = Inr st"
    "\<forall>n. SetDisplayName n \<in> set (staged_for one_addr c1) \<longrightarrow> st_display_name st = Some n"
    using publish_takes_effect [OF l k r u named_reachable named_published, of 0] by auto
  then show ?thesis using named_read by (auto simp: staged_for_def)
qed

section \<open>A publish to the memory store\<close>



section \<open>Edits that rest on one another\<close>


end
